(* ===== verification/Skytap_Prelude.thy ===== *)
theory Skytap_Prelude
  imports Main "HOL-Library.AList" "HOL-Library.Word" "HOL-Library.Multiset"
    "HOL-Library.Char_ord" "HOL-Library.List_Lexorder"
begin

text \<open>
  What every component of the development shares.
  \<^item> The representation of Go values: a Go string or byte slice of text is a \<^typ>\<open>string\<close>
    (a list of bytes), a byte of a binary protocol an \<open>8 word\<close>, an \<open>int\<close> or \<open>int64\<close> that can wrap
    a \<open>64 word\<close>.
  \<^item> Go maps, as association lists with distinct keys (\<open>mget\<close>, \<open>mput\<close>, \<open>mdel\<close>, \<open>mkeys\<close>). The order in
    which \<open>range\<close> visits a Go map is not specified by the language, so an operation that ranges over
    a map takes that order as an argument, a \<open>map_order\<close>, and its lemmas hold for every one of them.
  \<^item> The interfaces \<open>keyed_store\<close> and \<open>enum_store\<close>: what a client of a table may rely on.
  \<^item> Small facts on lists (\<open>lastn\<close>, the tail that a ring buffer keeps).
\<close>

named_theorems gomap_simps "lookups in Go maps after an update"
named_theorems reg_simps "effect of one registry operation on one observation"

section \<open>Go values\<close>

type_synonym byte = "8 word"
type_synonym int64 = "64 word"

text \<open>The code of a byte of a Go string.\<close>

abbreviation code_of :: "char \<Rightarrow> nat" where
  "code_of c \<equiv> (of_char c :: nat)"

text \<open>
  What a function that can panic returns: a value, a returned error, or a run-time panic.
\<close>

datatype ('e, 'a) outcome = Ok 'a | Err 'e | Panic

text \<open>
  A \<open>time.Time\<close>: the instant as seconds and nanoseconds since 1970 (UTC) and the offset of its zone
  in seconds.
\<close>

record gotime =
  tm_sec :: int
  tm_nsec :: nat
  tm_off :: int

section \<open>Lists\<close>

text \<open>The last \<open>n\<close> elements, in order.\<close>

definition lastn :: "nat \<Rightarrow> 'a list \<Rightarrow> 'a list" where
  "lastn n xs = drop (length xs - n) xs"

lemma length_lastn [simp]: "length (lastn n xs) = min n (length xs)"
  by (simp add: lastn_def)

lemma lastn_short: "length xs \<le> n \<Longrightarrow> lastn n xs = xs"
  by (simp add: lastn_def)

lemma lastn_Nil [simp]: "lastn n [] = []"
  by (simp add: lastn_def)

text \<open>
  Keeping a tail after every append is the same as keeping the tail of the whole history: a ring
  buffer never needs to see what it has dropped.
\<close>

lemma lastn_lastn_snoc: "lastn n (lastn n xs @ [x]) = lastn n (xs @ [x])"
proof (cases "length xs \<le> n")
  case True
  then show ?thesis by (simp add: lastn_short)
next
  case False
  define k where "k = length xs - n"
  from False have k: "0 < k" "k + n = length xs" by (simp_all add: k_def)
  have "length (drop k xs @ [x]) - n = Suc 0" using k by simp
  moreover have "length (xs @ [x]) - n = Suc k" using k by simp
  moreover have "drop (Suc 0) (drop k xs @ [x]) = drop (Suc k) (xs @ [x])"
    using k by (cases n) (simp_all add: drop_Suc drop_tl)
  ultimately show ?thesis
    by (simp add: lastn_def k_def [symmetric] del: drop_append drop_drop)
qed

lemma set_lastn: "set (lastn n xs) \<subseteq> set xs"
  by (simp add: lastn_def set_drop_subset)

section \<open>Go maps\<close>

type_synonym ('k, 'v) gomap = "('k \<times> 'v) list"

definition mget :: "('k, 'v) gomap \<Rightarrow> 'k \<Rightarrow> 'v option" where
  "mget m k = map_of m k"

definition mput :: "'k \<Rightarrow> 'v \<Rightarrow> ('k, 'v) gomap \<Rightarrow> ('k, 'v) gomap" where
  "mput k v m = AList.update k v m"

definition mdel :: "'k \<Rightarrow> ('k, 'v) gomap \<Rightarrow> ('k, 'v) gomap" where
  "mdel k m = AList.delete k m"

definition mkeys :: "('k, 'v) gomap \<Rightarrow> 'k list" where
  "mkeys m = map fst m"

definition mok :: "('k, 'v) gomap \<Rightarrow> bool" where
  "mok m = distinct (mkeys m)"

text \<open>The value of a key, or the zero value of the type when the key is absent: Go's \<open>m[k]\<close>.\<close>

definition mgetd :: "'v \<Rightarrow> ('k, 'v) gomap \<Rightarrow> 'k \<Rightarrow> 'v" where
  "mgetd z m k = (case mget m k of None \<Rightarrow> z | Some v \<Rightarrow> v)"

lemma mget_Nil [simp, gomap_simps]: "mget [] k = None"
  by (simp add: mget_def)

lemma mget_Cons: "mget ((k', v) # m) k = (if k' = k then Some v else mget m k)"
  by (simp add: mget_def)

lemma mget_mput [simp, gomap_simps]: "mget (mput k v m) k' = (if k' = k then Some v else mget m k')"
  by (simp add: mget_def mput_def update_conv)

lemma mget_mdel [simp, gomap_simps]: "mget (mdel k m) k' = (if k' = k then None else mget m k')"
  by (simp add: mget_def mdel_def delete_conv')

lemma mkeys_mput [simp]: "set (mkeys (mput k v m)) = insert k (set (mkeys m))"
  using dom_update [of k v m]
  by (simp add: mkeys_def mput_def flip: dom_map_of_conv_image_fst)

lemma mkeys_mdel [simp]: "set (mkeys (mdel k m)) = set (mkeys m) - {k}"
  by (simp add: mkeys_def mdel_def delete_keys)

lemma mget_None_iff: "mget m k = None \<longleftrightarrow> k \<notin> set (mkeys m)"
  by (simp add: mget_def mkeys_def map_of_eq_None_iff)

lemma mget_SomeD: "mget m k = Some v \<Longrightarrow> k \<in> set (mkeys m)"
  by (metis mget_None_iff option.distinct(1))

lemma mok_Nil [simp]: "mok []"
  by (simp add: mok_def mkeys_def)

lemma mok_mput [simp, intro]: "mok m \<Longrightarrow> mok (mput k v m)"
  by (simp add: mok_def mkeys_def mput_def distinct_update)

lemma mok_mdel [simp, intro]: "mok m \<Longrightarrow> mok (mdel k m)"
  by (simp add: mok_def mkeys_def mdel_def distinct_delete)

lemma mkeys_Nil [simp]: "mkeys [] = []"
  by (simp add: mkeys_def)

lemma mgetd_Nil [simp]: "mgetd z [] k = z"
  by (simp add: mgetd_def)

lemma mgetd_mput [simp, gomap_simps]: "mgetd z (mput k v m) k' = (if k' = k then v else mgetd z m k')"
  by (simp add: mgetd_def)

lemma mgetd_mdel [simp, gomap_simps]: "mgetd z (mdel k m) k' = (if k' = k then z else mgetd z m k')"
  by (simp add: mgetd_def)

lemma mget_iff_in_set: "mok m \<Longrightarrow> mget m k = Some v \<longleftrightarrow> (k, v) \<in> set m"
  by (simp add: mget_def mok_def mkeys_def map_of_eq_Some_iff)

lemma map_of_keyed: "map_of (map (\<lambda>k. (k, f k)) ks) k = (if k \<in> set ks then Some (f k) else None)"
  by (simp add: map_of_map_restrict restrict_map_def)

text \<open>Storing a value for every key of a list, and for every entry of a list.\<close>

lemma mget_fold_keys [gomap_simps]:
  "mget (fold (\<lambda>k m. mput k (f k) m) ks m) h = (if h \<in> set ks then Some (f h) else mget m h)"
  by (induction ks arbitrary: m) auto

lemma mok_fold_keys [simp, intro]: "mok m \<Longrightarrow> mok (fold (\<lambda>k m. mput k (f k) m) ks m)"
  by (induction ks arbitrary: m) auto

lemma mok_fold_pairs [simp, intro]: "mok m \<Longrightarrow> mok (fold (\<lambda>(k, v) m. mput k v m) kvs m)"
  by (induction kvs arbitrary: m) auto

subsection \<open>The order in which a map is ranged over\<close>

type_synonym 'k map_order = "'k list \<Rightarrow> 'k list"

definition is_map_order :: "'k map_order \<Rightarrow> bool" where
  "is_map_order ord \<longleftrightarrow> (\<forall>ks. mset (ord ks) = mset ks)"

lemma map_order_mset: "is_map_order ord \<Longrightarrow> mset (ord ks) = mset ks"
  by (simp add: is_map_order_def)

lemma map_order_set [simp]: "is_map_order ord \<Longrightarrow> set (ord ks) = set ks"
  by (metis is_map_order_def set_mset_mset)

lemma map_order_distinct: "is_map_order ord \<Longrightarrow> distinct (ord ks) = distinct ks"
  by (metis is_map_order_def mset_eq_imp_distinct_iff)

lemma map_order_length [simp]: "is_map_order ord \<Longrightarrow> length (ord ks) = length ks"
  by (metis is_map_order_def mset_eq_length)

lemma is_map_order_id: "is_map_order (\<lambda>ks. ks)"
  by (simp add: is_map_order_def)

lemma is_map_order_rev: "is_map_order rev"
  by (simp add: is_map_order_def)

section \<open>Updates of lists\<close>

text \<open>Counting what satisfies \<open>P\<close> in a list one of whose elements changes.\<close>

lemma filter_update:
  assumes "i < length xs"
  shows "filter_mset P (mset (xs[i := y])) + (if P (xs ! i) then {#xs ! i#} else {#})
    = filter_mset P (mset xs) + (if P y then {#y#} else {#})"
proof -
  have "mset (xs[i := y]) + {#xs ! i#} = mset xs + {#y#}" using assms by (simp add: mset_update)
  then have "filter_mset P (mset (xs[i := y]) + {#xs ! i#}) = filter_mset P (mset xs + {#y#})" by (rule arg_cong)
  then show ?thesis by (auto split: if_splits)
qed

lemma list_all_update: "list_all P xs \<Longrightarrow> P y \<Longrightarrow> list_all P (xs[i := y])"
  using set_update_subset_insert [of xs i y] by (auto simp: list_all_iff)

lemma list_all_nth: "list_all P xs \<Longrightarrow> i < length xs \<Longrightarrow> P (xs ! i)"
  by (simp add: list_all_length)

section \<open>Interfaces: tables\<close>

text \<open>
  \<open>keyed_store\<close> is what the callers of a table use: a lookup, an insertion that replaces, a removal.
  \<open>vk\<close> are the keys the removal accepts (the registry ignores the removal of the empty host), \<open>ok\<close>
  is the invariant every operation keeps.
\<close>

locale keyed_store =
  fixes get :: "'s \<Rightarrow> 'k \<Rightarrow> 'v option"
    and put :: "'k \<Rightarrow> 'v \<Rightarrow> 's \<Rightarrow> 's"
    and del :: "'k \<Rightarrow> 's \<Rightarrow> 's"
    and vk :: "'k \<Rightarrow> bool"
    and ok :: "'s \<Rightarrow> bool"
  assumes get_put: "get (put k v s) k' = (if k' = k then Some v else get s k')"
    and get_del: "vk k \<Longrightarrow> get (del k s) k' = (if k' = k then None else get s k')"
    and ok_put: "ok s \<Longrightarrow> ok (put k v s)"
    and ok_del: "ok s \<Longrightarrow> ok (del k s)"
begin

lemma put_put_same: "get (put k v (put k w s)) = get (put k v s)"
  by (rule ext) (simp add: get_put)

lemma put_commute: "k \<noteq> k' \<Longrightarrow> get (put k v (put k' v' s)) = get (put k' v' (put k v s))"
  by (rule ext) (simp add: get_put)

lemma del_after_put: "vk k \<Longrightarrow> get s k = None \<Longrightarrow> get (del k (put k v s)) = get s"
  by (rule ext) (simp add: get_put get_del)

text \<open>Storing a list of entries one after the other: the last entry of a key wins.\<close>

lemma get_put_list:
  "get (fold (\<lambda>(k, v). put k v) kvs s) k =
     (case map_of (rev kvs) k of None \<Rightarrow> get s k | Some v \<Rightarrow> Some v)"
proof (induction kvs arbitrary: s)
  case Nil
  show ?case by simp
next
  case (Cons kv kvs)
  then show ?case
    by (cases kv) (auto simp: get_put map_add_def split: option.splits)
qed

lemma ok_put_list: "ok s \<Longrightarrow> ok (fold (\<lambda>(k, v). put k v) kvs s)"
  by (induction kvs arbitrary: s) (auto simp: ok_put)

end

text \<open>\<open>enum_store\<close> adds the enumeration of the keys, which the listings and the snapshots use.\<close>

locale enum_store = keyed_store +
  fixes keys :: "'a \<Rightarrow> 'b list"
  assumes keys_iff: "ok s \<Longrightarrow> k \<in> set (keys s) \<longleftrightarrow> get s k \<noteq> None"
    and keys_distinct: "ok s \<Longrightarrow> distinct (keys s)"
begin

text \<open>A listing in any order of the keys holds exactly the table.\<close>

lemma map_of_listing:
  assumes "ok s" and "is_map_order ord"
  shows "map_of (map (\<lambda>k. (k, the (get s k))) (ord (keys s))) k = get s k"
proof (cases "k \<in> set (keys s)")
  case True
  with assms keys_iff[of s k] show ?thesis
    by (auto simp: map_of_map_restrict restrict_map_def)
next
  case False
  with assms keys_iff[of s k] show ?thesis
    by (auto simp: map_of_map_restrict restrict_map_def)
qed

lemma listing_length_bound:
  assumes "ok s" and "is_map_order ord"
  shows "length (ord (keys s)) = card {k. get s k \<noteq> None}"
proof -
  have "{k. get s k \<noteq> None} = set (keys s)" using keys_iff[OF assms(1)] by auto
  then show ?thesis
    using assms by (simp add: distinct_card keys_distinct)
qed

end

interpretation gomap: enum_store mget mput mdel "\<lambda>_. True" mok mkeys
  by unfold_locales (simp_all add: mget_None_iff, simp add: mok_def)

section \<open>Interfaces: step relations that come to an end\<close>

text \<open>
  \<open>terminating\<close> is what the goroutines that work on one thing together promise: from the states of an
  invariant, every step keeps the invariant and makes a weight smaller. A client of such a relation has runs
  that end, whatever steps are taken.
\<close>

locale terminating =
  fixes stp :: "'s \<Rightarrow> 's \<Rightarrow> bool"
    and okay :: "'s \<Rightarrow> bool"
    and weight :: "'s \<Rightarrow> nat"
  assumes okay_step: "okay s \<Longrightarrow> stp s s' \<Longrightarrow> okay s'"
    and weight_step: "okay s \<Longrightarrow> stp s s' \<Longrightarrow> weight s' < weight s"
begin

lemma okay_run: "stp\<^sup>*\<^sup>* s s' \<Longrightarrow> okay s \<Longrightarrow> okay s'"
  by (induction rule: rtranclp_induct) (auto intro: okay_step)

lemma no_infinite_run:
  assumes "okay s"
  shows "\<nexists>r. r 0 = s \<and> (\<forall>i. stp (r i) (r (Suc i)))"
proof
  assume "\<exists>r. r 0 = s \<and> (\<forall>i. stp (r i) (r (Suc i)))"
  then obtain r where r: "r 0 = s" "\<And>i. stp (r i) (r (Suc i))" by blast
  have "okay (r i)" for i by (induction i) (use r assms okay_step in auto)
  then have "weight (r (Suc i)) < weight (r i)" for i using weight_step r(2) by blast
  then show False using wf_no_infinite_down_chainE [of "measure weight" r] by auto
qed

lemma reaches_final: "okay s \<Longrightarrow> \<exists>s'. stp\<^sup>*\<^sup>* s s' \<and> (\<forall>t. \<not> stp s' t)"
proof (induction "weight s" arbitrary: s rule: less_induct)
  case less
  show ?case
  proof (cases "\<exists>t. stp s t")
    case True
    then obtain t where t: "stp s t" by blast
    from less.hyps [OF weight_step [OF less.prems t] okay_step [OF less.prems t]] show ?thesis
      using t by (meson converse_rtranclp_into_rtranclp)
  qed blast
qed

text \<open>A run cannot be longer than the weight it starts with.\<close>

lemma run_length: "okay s \<Longrightarrow> (stp ^^ n) s s' \<Longrightarrow> n \<le> weight s"
proof (induction n arbitrary: s')
  case (Suc n)
  then obtain t where t: "(stp ^^ n) s t" "stp t s'" by auto
  have "weight t + n \<le> weight s \<and> okay t"
    using Suc.prems(1) t(1)
  proof (induction n arbitrary: t)
    case (Suc n)
    then obtain t' where "(stp ^^ n) s t'" "stp t' t" by auto
    then show ?case using Suc okay_step weight_step by fastforce
  qed simp
  then show ?case using weight_step [of t s'] t(2) by simp
qed simp

end

end
