(* ===== verification/Registry.thy ===== *)
theory Registry
  imports Skytap_Prelude
begin

text \<open>
  The domain registry (registry.go): for every host its state (OBSERVED, INTERCEPTED or MOCKED), the
  number of connections seen, and a ring of its most recent flows. Every method takes the registry's
  mutex, so a method is one atomic step on the record \<open>registry\<close>.
  \<^item> \<open>domain_facts\<close>: each operation's effect on each observation, and the invariant \<open>registry_ok\<close>.
  \<^item> A refinement: a run of operations from \<open>NewRegistry\<close> agrees with an abstract registry that counts
    with naturals and keeps the whole history of flows.
\<close>

section \<open>Data\<close>

text \<open>
  A flow, as the engine (gomitm) reports it: the fields that this repository reads.
\<close>

record flow =
  flow_Time :: gotime
  flow_Host :: string
  flow_Method :: string
  flow_Path :: string
  flow_Status :: int
  flow_ReqSize :: int
  flow_ResSize :: int
  flow_Mocked :: bool
  flow_ReqBody :: string
  flow_ResBody :: string
  flow_ReqTruncated :: bool
  flow_ResTruncated :: bool

text \<open>A \<open>DomainState\<close> is a Go string: any string can be stored, three of them have a meaning.\<close>

type_synonym DomainState = string

definition StateObserved :: DomainState where "StateObserved = ''OBSERVED''"
definition StateIntercepted :: DomainState where "StateIntercepted = ''INTERCEPTED''"
definition StateMocked :: DomainState where "StateMocked = ''MOCKED''"

lemmas state_defs = StateObserved_def StateIntercepted_def StateMocked_def

lemma states_distinct [simp]:
  "StateObserved \<noteq> StateIntercepted" "StateObserved \<noteq> StateMocked" "StateIntercepted \<noteq> StateMocked"
  "StateIntercepted \<noteq> StateObserved" "StateMocked \<noteq> StateObserved" "StateMocked \<noteq> StateIntercepted"
  by (simp_all add: state_defs)

record DomainInfo =
  di_Host :: string
  di_State :: DomainState
  di_Hits :: int64

record registry =
  states :: "(string, DomainState) gomap"
  hits :: "(string, int64) gomap"
  flows :: "(string, flow list) gomap"
  ringN :: nat

section \<open>Operations\<close>

definition NewRegistry :: registry where
  "NewRegistry = \<lparr>states = [], hits = [], flows = [], ringN = 64\<rparr>"

definition Observe :: "registry \<Rightarrow> string \<Rightarrow> registry" where
  "Observe r host =
     (if host = [] then r
      else
        let r1 = (case mget (states r) host of
                    None \<Rightarrow> r\<lparr>states := mput host StateObserved (states r)\<rparr>
                  | Some _ \<Rightarrow> r)
        in r1\<lparr>hits := mput host (mgetd 0 (hits r1) host + 1) (hits r1)\<rparr>)"

definition State :: "registry \<Rightarrow> string \<Rightarrow> DomainState" where
  "State r host = (case mget (states r) host of None \<Rightarrow> StateObserved | Some s \<Rightarrow> s)"

definition SetState :: "registry \<Rightarrow> string \<Rightarrow> DomainState \<Rightarrow> registry" where
  "SetState r host s = r\<lparr>states := mput host s (states r)\<rparr>"

definition AddFlow :: "registry \<Rightarrow> flow \<Rightarrow> registry" where
  "AddFlow r f =
     (let buf = mgetd [] (flows r) (flow_Host f);
          buf = buf @ [f];
          buf = (if ringN r < length buf then drop (length buf - ringN r) buf else buf)
      in r\<lparr>flows := mput (flow_Host f) buf (flows r)\<rparr>)"

definition Flows :: "registry \<Rightarrow> string \<Rightarrow> flow list" where
  "Flows r host = mgetd [] (flows r) host"

definition Domains :: "string map_order \<Rightarrow> registry \<Rightarrow> DomainInfo list" where
  "Domains ord r =
     map (\<lambda>h. \<lparr>di_Host = h, di_State = mgetd [] (states r) h, di_Hits = mgetd 0 (hits r) h\<rparr>)
       (ord (mkeys (states r)))"

definition snapshot :: "string map_order \<Rightarrow> registry \<Rightarrow> (string, DomainState) gomap" where
  "snapshot ord r =
     fold (\<lambda>k m. mput k (mgetd [] (states r) k) m) (ord (mkeys (states r))) []"

definition loadStates :: "string map_order \<Rightarrow> registry \<Rightarrow> (string, DomainState) gomap \<Rightarrow> registry" where
  "loadStates ord r m =
     fold (\<lambda>k r. r\<lparr>states := mput k (mgetd [] m k) (states r)\<rparr>) (ord (mkeys m)) r"

definition DeleteHost :: "registry \<Rightarrow> string \<Rightarrow> registry" where
  "DeleteHost r host =
     (if host = [] then r
      else r\<lparr>states := mdel host (states r), hits := mdel host (hits r), flows := mdel host (flows r)\<rparr>)"

definition ClearFlows :: "registry \<Rightarrow> string \<Rightarrow> registry" where
  "ClearFlows r host =
     (if host = [] then r\<lparr>flows := []\<rparr> else r\<lparr>flows := mdel host (flows r)\<rparr>)"

definition Reset :: "registry \<Rightarrow> registry" where
  "Reset r = r\<lparr>states := [], hits := [], flows := []\<rparr>"

section \<open>The effect of each operation\<close>

text \<open>The number of connections counted for a host, as \<open>Domains\<close> reports it.\<close>

abbreviation Hits :: "registry \<Rightarrow> string \<Rightarrow> int64" where
  "Hits r h \<equiv> mgetd 0 (hits r) h"

text \<open>A host the registry lists.\<close>

abbreviation Known :: "registry \<Rightarrow> string \<Rightarrow> bool" where
  "Known r h \<equiv> mget (states r) h \<noteq> None"

lemma AddFlow_lastn:
  "AddFlow r f =
     r\<lparr>flows := mput (flow_Host f) (lastn (ringN r) (Flows r (flow_Host f) @ [f])) (flows r)\<rparr>"
  by (simp add: AddFlow_def Flows_def lastn_def Let_def)

lemma State_new [reg_simps]: "State NewRegistry h = StateObserved"
  by (simp add: State_def NewRegistry_def)

lemma State_Observe [reg_simps]: "State (Observe r h) h' = State r h'"
  by (auto simp: State_def Observe_def Let_def split: option.splits)

lemma State_SetState [reg_simps]: "State (SetState r h s) h' = (if h' = h then s else State r h')"
  by (simp add: State_def SetState_def)

lemma State_AddFlow [reg_simps]: "State (AddFlow r f) h = State r h"
  by (simp add: State_def AddFlow_def Let_def)

lemma State_DeleteHost [reg_simps]:
  "State (DeleteHost r h) h' = (if h \<noteq> [] \<and> h' = h then StateObserved else State r h')"
  by (simp add: State_def DeleteHost_def)

lemma State_ClearFlows [reg_simps]: "State (ClearFlows r h) h' = State r h'"
  by (simp add: State_def ClearFlows_def)

lemma State_Reset [reg_simps]: "State (Reset r) h = StateObserved"
  by (simp add: State_def Reset_def)

lemma Flows_new [reg_simps]: "Flows NewRegistry h = []"
  by (simp add: Flows_def NewRegistry_def)

lemma Flows_Observe [reg_simps]: "Flows (Observe r h) h' = Flows r h'"
  by (auto simp: Flows_def Observe_def Let_def split: option.splits)

lemma Flows_SetState [reg_simps]: "Flows (SetState r h s) h' = Flows r h'"
  by (simp add: Flows_def SetState_def)

lemma Flows_AddFlow [reg_simps]:
  "Flows (AddFlow r f) h =
     (if h = flow_Host f then lastn (ringN r) (Flows r h @ [f]) else Flows r h)"
  by (simp add: AddFlow_lastn) (simp add: Flows_def)

lemma Flows_DeleteHost [reg_simps]:
  "Flows (DeleteHost r h) h' = (if h \<noteq> [] \<and> h' = h then [] else Flows r h')"
  by (simp add: Flows_def DeleteHost_def)

lemma Flows_ClearFlows [reg_simps]:
  "Flows (ClearFlows r h) h' = (if h = [] \<or> h' = h then [] else Flows r h')"
  by (simp add: Flows_def ClearFlows_def)

lemma Flows_Reset [reg_simps]: "Flows (Reset r) h = []"
  by (simp add: Flows_def Reset_def)

lemma Hits_Observe [reg_simps]:
  "Hits (Observe r h) h' = (if h \<noteq> [] \<and> h' = h then Hits r h' + 1 else Hits r h')"
  by (auto simp: Observe_def Let_def split: option.splits)

lemma Hits_frame [reg_simps]:
  "hits (SetState r h s) = hits r" "hits (AddFlow r f) = hits r" "hits (ClearFlows r h) = hits r"
  by (simp_all add: SetState_def AddFlow_def ClearFlows_def Let_def)

lemma Hits_DeleteHost [reg_simps]:
  "Hits (DeleteHost r h) h' = (if h \<noteq> [] \<and> h' = h then 0 else Hits r h')"
  by (simp add: DeleteHost_def)

lemma Hits_Reset [reg_simps]: "hits (Reset r) = []"
  by (simp add: Reset_def)

lemma states_Observe [reg_simps]:
  "mget (states (Observe r h)) h' =
     (if h \<noteq> [] \<and> h' = h then Some (State r h) else mget (states r) h')"
  by (auto simp: Observe_def State_def Let_def split: option.splits)

lemma states_frame [reg_simps]:
  "states (AddFlow r f) = states r" "states (ClearFlows r h) = states r" "states (Reset r) = []"
  "states (SetState r h s) = mput h s (states r)"
  "states (DeleteHost r h) = (if h = [] then states r else mdel h (states r))"
  by (simp_all add: AddFlow_def ClearFlows_def SetState_def DeleteHost_def Reset_def Let_def)

lemma ringN_ops [reg_simps]:
  "ringN NewRegistry = 64"
  "ringN (Observe r h) = ringN r" "ringN (SetState r h s) = ringN r" "ringN (AddFlow r f) = ringN r"
  "ringN (DeleteHost r h) = ringN r" "ringN (ClearFlows r h) = ringN r" "ringN (Reset r) = ringN r"
  by (auto simp: NewRegistry_def Observe_def SetState_def AddFlow_def DeleteHost_def ClearFlows_def
      Reset_def Let_def split: option.splits)

section \<open>Invariant\<close>

text \<open>
  The three maps have distinct keys; a host that has been counted is listed (\<open>Domains\<close> shows it); a
  ring holds at most \<open>ringN\<close> flows, all of its own host.
\<close>

definition registry_ok :: "registry \<Rightarrow> bool" where
  "registry_ok r \<longleftrightarrow>
     mok (states r) \<and> mok (hits r) \<and> mok (flows r) \<and>
     set (mkeys (hits r)) \<subseteq> set (mkeys (states r)) \<and>
     (\<forall>h. length (Flows r h) \<le> ringN r) \<and>
     (\<forall>h. \<forall>f \<in> set (Flows r h). flow_Host f = h)"

lemma registry_okI:
  assumes "mok (states r)" "mok (hits r)" "mok (flows r)"
    and "\<And>h. h \<in> set (mkeys (hits r)) \<Longrightarrow> h \<in> set (mkeys (states r))"
    and "\<And>h. length (Flows r h) \<le> ringN r"
    and "\<And>h f. f \<in> set (Flows r h) \<Longrightarrow> flow_Host f = h"
  shows "registry_ok r"
  using assms by (auto simp: registry_ok_def)

lemma registry_okD:
  assumes "registry_ok r"
  shows "mok (states r)" "mok (hits r)" "mok (flows r)"
    and "h \<in> set (mkeys (hits r)) \<Longrightarrow> h \<in> set (mkeys (states r))"
    and "length (Flows r h) \<le> ringN r"
    and "f \<in> set (Flows r h) \<Longrightarrow> flow_Host f = h"
  using assms by (auto simp: registry_ok_def)

lemma ok_NewRegistry: "registry_ok NewRegistry"
  by (simp add: registry_ok_def NewRegistry_def Flows_def)

lemma ok_Observe:
  assumes "registry_ok r" shows "registry_ok (Observe r h)"
proof (rule registry_okI)
  note d = registry_okD[OF assms]
  show "mok (states (Observe r h))" "mok (hits (Observe r h))" "mok (flows (Observe r h))"
    using d(1-3) by (auto simp: Observe_def Let_def split: option.splits)
  show "h' \<in> set (mkeys (states (Observe r h)))" if "h' \<in> set (mkeys (hits (Observe r h)))" for h'
    using that d(4)[of h'] d(4)[of h]
    by (auto simp: Observe_def Let_def dest: mget_SomeD split: option.splits if_splits)
qed (use registry_okD[OF assms] in \<open>simp_all add: reg_simps\<close>)

lemma ok_SetState: "registry_ok r \<Longrightarrow> registry_ok (SetState r h s)"
  by (auto simp: registry_ok_def SetState_def Flows_def)

lemma ok_AddFlow:
  assumes "registry_ok r" shows "registry_ok (AddFlow r f)"
proof (rule registry_okI)
  note d = registry_okD[OF assms]
  show "mok (states (AddFlow r f))" "mok (hits (AddFlow r f))" "mok (flows (AddFlow r f))"
    using d(1-3) by (simp_all add: AddFlow_def Let_def)
  show "flow_Host f' = h" if "f' \<in> set (Flows (AddFlow r f) h)" for h f'
    using that d(6)[of f' h] set_lastn[of "ringN r" "Flows r h @ [f]"]
    by (auto simp: reg_simps split: if_splits)
qed (use registry_okD[OF assms] in \<open>simp_all add: reg_simps\<close>)

lemma ok_DeleteHost: "registry_ok r \<Longrightarrow> registry_ok (DeleteHost r h)"
  by (auto simp: registry_ok_def DeleteHost_def Flows_def)

lemma ok_ClearFlows: "registry_ok r \<Longrightarrow> registry_ok (ClearFlows r h)"
  by (auto simp: registry_ok_def ClearFlows_def Flows_def)

lemma ok_Reset: "registry_ok r \<Longrightarrow> registry_ok (Reset r)"
  by (auto simp: registry_ok_def Reset_def Flows_def)

lemma loadStates_fields:
  "hits (loadStates ord r m) = hits r" "flows (loadStates ord r m) = flows r"
  "ringN (loadStates ord r m) = ringN r"
proof -
  have "hits (fold (\<lambda>k r. r\<lparr>states := mput k (g k) (states r)\<rparr>) ks r) = hits r
      \<and> flows (fold (\<lambda>k r. r\<lparr>states := mput k (g k) (states r)\<rparr>) ks r) = flows r
      \<and> ringN (fold (\<lambda>k r. r\<lparr>states := mput k (g k) (states r)\<rparr>) ks r) = ringN r" for ks g
    by (induction ks arbitrary: r) auto
  then show "hits (loadStates ord r m) = hits r" "flows (loadStates ord r m) = flows r"
    "ringN (loadStates ord r m) = ringN r" by (simp_all add: loadStates_def)
qed


section \<open>The registry as a table of states\<close>

text \<open>
  \<open>SetState\<close> and \<open>DeleteHost\<close> are the insertion and the removal of a table of states; the empty host is
  the one key \<open>DeleteHost\<close> does not remove.
\<close>

interpretation reg: enum_store "\<lambda>r h. mget (states r) h" "\<lambda>h s r. SetState r h s" "\<lambda>h r. DeleteHost r h"
  "\<lambda>h. h \<noteq> []" registry_ok "\<lambda>r. mkeys (states r)"
proof unfold_locales
  show "registry_ok s \<Longrightarrow> distinct (mkeys (states s))" for s
    by (simp add: registry_ok_def mok_def)
qed (auto simp: reg_simps ok_SetState ok_DeleteHost mget_None_iff)

lemma fold_keyed: "fold (\<lambda>k. put k (f k)) ks s = fold (\<lambda>(k, v). put k v) (map (\<lambda>k. (k, f k)) ks) s"
  by (simp add: fold_map o_def)

lemma states_loadStates [reg_simps]:
  assumes "is_map_order ord"
  shows "mget (states (loadStates ord r m)) h =
     (case mget m h of None \<Rightarrow> mget (states r) h | Some s \<Rightarrow> Some s)"
proof -
  have "loadStates ord r m =
      fold (\<lambda>(k, v) r. SetState r k v) (map (\<lambda>k. (k, mgetd [] m k)) (ord (mkeys m))) r"
    by (simp add: loadStates_def SetState_def fold_map o_def)
  then have "mget (states (loadStates ord r m)) h =
      (case map_of (rev (map (\<lambda>k. (k, mgetd [] m k)) (ord (mkeys m)))) h of
         None \<Rightarrow> mget (states r) h | Some s \<Rightarrow> Some s)"
    by (simp only: reg.get_put_list)
  then show ?thesis
    using assms
    by (auto simp: rev_map map_of_keyed mgetd_def mget_None_iff split: option.splits dest: mget_SomeD)
qed

lemma ok_loadStates:
  assumes "registry_ok r"
  shows "registry_ok (loadStates ord r m)"
proof -
  have "registry_ok (fold (\<lambda>k r. SetState r k (mgetd [] m k)) ks r)" for ks
    using assms by (induction ks arbitrary: r) (auto simp: ok_SetState)
  then show ?thesis by (simp add: loadStates_def SetState_def)
qed

lemma mget_snapshot [reg_simps]:
  assumes "is_map_order ord"
  shows "mget (snapshot ord r) h = mget (states r) h"
  using assms mget_None_iff [of "states r" h]
  by (cases "mget (states r) h") (auto simp: snapshot_def mget_fold_keys mgetd_def dest: mget_SomeD)

lemma mok_snapshot: "mok (snapshot ord r)"
  by (simp add: snapshot_def mok_fold_keys)

section \<open>Runs of operations against an abstract registry\<close>

datatype reg_op =
    OpObserve string
  | OpSetState string DomainState
  | OpAddFlow flow
  | OpDeleteHost string
  | OpClearFlows string
  | OpReset

fun reg_step :: "registry \<Rightarrow> reg_op \<Rightarrow> registry" where
  "reg_step r (OpObserve h) = Observe r h"
| "reg_step r (OpSetState h s) = SetState r h s"
| "reg_step r (OpAddFlow f) = AddFlow r f"
| "reg_step r (OpDeleteHost h) = DeleteHost r h"
| "reg_step r (OpClearFlows h) = ClearFlows r h"
| "reg_step r OpReset = Reset r"

definition reg_run :: "registry \<Rightarrow> reg_op list \<Rightarrow> registry" where
  "reg_run r ops = foldl reg_step r ops"

text \<open>
  The abstract registry: three total functions, an unbounded count and the whole history of flows.
\<close>

record abs_registry =
  a_state :: "string \<Rightarrow> DomainState option"
  a_count :: "string \<Rightarrow> nat"
  a_log :: "string \<Rightarrow> flow list"

definition abs_new :: abs_registry where
  "abs_new = \<lparr>a_state = (\<lambda>_. None), a_count = (\<lambda>_. 0), a_log = (\<lambda>_. [])\<rparr>"

fun abs_step :: "abs_registry \<Rightarrow> reg_op \<Rightarrow> abs_registry" where
  "abs_step a (OpObserve h) =
     (if h = [] then a
      else a\<lparr>a_state := (a_state a)(h := Some (case a_state a h of None \<Rightarrow> StateObserved | Some s \<Rightarrow> s)),
             a_count := (a_count a)(h := Suc (a_count a h))\<rparr>)"
| "abs_step a (OpSetState h s) = a\<lparr>a_state := (a_state a)(h := Some s)\<rparr>"
| "abs_step a (OpAddFlow f) = a\<lparr>a_log := (a_log a)(flow_Host f := a_log a (flow_Host f) @ [f])\<rparr>"
| "abs_step a (OpDeleteHost h) =
     (if h = [] then a
      else a\<lparr>a_state := (a_state a)(h := None), a_count := (a_count a)(h := 0),
             a_log := (a_log a)(h := [])\<rparr>)"
| "abs_step a (OpClearFlows h) =
     (if h = [] then a\<lparr>a_log := (\<lambda>_. [])\<rparr> else a\<lparr>a_log := (a_log a)(h := [])\<rparr>)"
| "abs_step a OpReset = abs_new"

definition abs_run :: "abs_registry \<Rightarrow> reg_op list \<Rightarrow> abs_registry" where
  "abs_run a ops = foldl abs_step a ops"

text \<open>The simulation: states agree, the 64-bit count is the count modulo its width, a ring is a tail.\<close>

definition reg_rel :: "registry \<Rightarrow> abs_registry \<Rightarrow> bool" where
  "reg_rel r a \<longleftrightarrow>
     ringN r = 64 \<and>
     (\<forall>h. mget (states r) h = a_state a h \<and> Hits r h = of_nat (a_count a h) \<and>
          Flows r h = lastn 64 (a_log a h))"

lemma reg_rel_new: "reg_rel NewRegistry abs_new"
  by (simp add: reg_rel_def abs_new_def reg_simps) (simp add: NewRegistry_def)

lemma reg_rel_step: "reg_rel r a \<Longrightarrow> reg_rel (reg_step r x) (abs_step a x)"
  by (cases x) (auto simp: reg_rel_def abs_new_def reg_simps State_def lastn_lastn_snoc add.commute)

lemma reg_rel_run: "reg_rel r a \<Longrightarrow> reg_rel (reg_run r ops) (abs_run a ops)"
  unfolding reg_run_def abs_run_def
  by (induction ops arbitrary: r a) (auto intro: reg_rel_step)

lemma ok_reg_step: "registry_ok r \<Longrightarrow> registry_ok (reg_step r x)"
  by (cases x) (simp_all add: ok_Observe ok_SetState ok_AddFlow ok_DeleteHost ok_ClearFlows ok_Reset)

lemma ok_reg_run: "registry_ok r \<Longrightarrow> registry_ok (reg_run r ops)"
  unfolding reg_run_def by (induction ops arbitrary: r) (auto intro: ok_reg_step)

section \<open>Properties\<close>

text \<open>
  C7: a registry that has run any sequence of operations agrees with the abstract registry that ran
  the same sequence: every host has the same state, its 64-bit hit counter is the number of
  observations (modulo \<open>2^64\<close>), and its ring is exactly the last 64 flows of the whole history since
  it was last cleared.
\<close>

theorem registry_refines_history:
  "mget (states (reg_run NewRegistry ops)) h = a_state (abs_run abs_new ops) h
   \<and> Hits (reg_run NewRegistry ops) h = of_nat (a_count (abs_run abs_new ops) h)
   \<and> Flows (reg_run NewRegistry ops) h = lastn 64 (a_log (abs_run abs_new ops) h)"
  using reg_rel_run [OF reg_rel_new, of ops] by (simp add: reg_rel_def)

text \<open>
  After any sequence of operations the three maps have distinct keys, every host with a hit count
  is listed, and every ring holds at most 64 flows, all of the host it is stored under.
\<close>

theorem registry_invariant:
  "registry_ok (reg_run NewRegistry ops) \<and> length (Flows (reg_run NewRegistry ops) h) \<le> 64"
proof -
  have "registry_ok (reg_run NewRegistry ops)" by (rule ok_reg_run [OF ok_NewRegistry])
  moreover have "ringN (reg_run NewRegistry ops) = 64"
    using reg_rel_run [OF reg_rel_new, of ops] by (simp add: reg_rel_def)
  ultimately show ?thesis by (metis registry_okD(5))
qed

text \<open>
  Whatever order the runtime ranges over the map in, \<open>Domains\<close> lists every known host exactly once,
  with its current state and hit count, and nothing else.
\<close>

theorem Domains_exact:
  assumes "registry_ok r" and "is_map_order ord"
  shows "distinct (map di_Host (Domains ord r))
    \<and> (\<forall>d. d \<in> set (Domains ord r) \<longleftrightarrow>
         Known r (di_Host d) \<and> d = \<lparr>di_Host = di_Host d, di_State = State r (di_Host d),
                                     di_Hits = Hits r (di_Host d)\<rparr>)"
proof -
  have hosts: "map di_Host (Domains ord r) = ord (mkeys (states r))"
    by (simp add: Domains_def o_def)
  have "mgetd [] (states r) h = State r h" if "Known r h" for h
    using that by (auto simp: mgetd_def State_def)
  moreover have "h \<in> set (ord (mkeys (states r))) \<longleftrightarrow> Known r h" for h
    using assms by (simp add: mget_None_iff)
  ultimately have "\<forall>d. d \<in> set (Domains ord r) \<longleftrightarrow>
      Known r (di_Host d) \<and> d = \<lparr>di_Host = di_Host d, di_State = State r (di_Host d),
                                  di_Hits = Hits r (di_Host d)\<rparr>"
    by (auto simp: Domains_def image_iff)
  then show ?thesis
    using assms hosts by (simp add: map_order_distinct reg.keys_distinct)
qed

theorem Domains_exact_witness:
  "distinct (map di_Host (Domains rev (reg_run NewRegistry [OpObserve ''a'', OpSetState ''b'' StateMocked])))"
  using Domains_exact [OF ok_reg_run [OF ok_NewRegistry] is_map_order_rev] by blast

end
