(* ===== verification/Go_Text.thy ===== *)
theory Go_Text
  imports Skytap_Prelude "HOL-Library.Sublist"
begin

text \<open>
  The functions on strings of the Go standard library that the program uses, on byte strings: UTF-8
  decoding (unicode/utf8), \<open>strings.TrimSpace\<close>, \<open>Split\<close>, \<open>Join\<close>, \<open>HasPrefix\<close>, \<open>HasSuffix\<close>, \<open>Contains\<close>,
  \<open>EqualFold\<close>, \<open>ToUpper\<close>, \<open>ToLower\<close>, and decimal and hexadecimal formatting. The case mappings of code
  points beyond ASCII come from the Unicode tables, which are data of the language's library: they are
  the argument \<open>unicode\<close> of the operations that consult them; the ASCII part is defined here.
\<close>

section \<open>UTF-8\<close>

definition rune_error :: nat where "rune_error = 65533"

definition cont :: "char \<Rightarrow> nat \<Rightarrow> nat \<Rightarrow> bool" where
  "cont c lo hi \<longleftrightarrow> lo \<le> code_of c \<and> code_of c \<le> hi"

text \<open>
  \<open>utf8.DecodeRune\<close>: the first code point of a non-empty string and the number of bytes it takes;
  an encoding error is \<open>(RuneError, 1)\<close>. The second byte's range depends on the first byte (no overlong
  forms, no surrogates, nothing above 10FFFF).
\<close>

definition second_range :: "nat \<Rightarrow> nat \<times> nat" where
  "second_range b = (if b = 0xE0 then (0xA0, 0xBF) else if b = 0xED then (0x80, 0x9F)
     else if b = 0xF0 then (0x90, 0xBF) else if b = 0xF4 then (0x80, 0x8F) else (0x80, 0xBF))"

fun decode_rune :: "string \<Rightarrow> nat \<times> nat" where
  "decode_rune [] = (rune_error, 0)"
| "decode_rune (c # cs) =
     (let b = code_of c; (lo, hi) = second_range b
      in if b < 0x80 then (b, 1)
         else if 0xC2 \<le> b \<and> b \<le> 0xDF then
           (case cs of
              c1 # _ \<Rightarrow> if cont c1 lo hi then ((b - 0xC0) * 64 + (code_of c1 - 0x80), 2) else (rune_error, 1)
            | _ \<Rightarrow> (rune_error, 1))
         else if 0xE0 \<le> b \<and> b \<le> 0xEF then
           (case cs of
              c1 # c2 # _ \<Rightarrow> if cont c1 lo hi \<and> cont c2 0x80 0xBF
                then ((b - 0xE0) * 4096 + (code_of c1 - 0x80) * 64 + (code_of c2 - 0x80), 3)
                else (rune_error, 1)
            | _ \<Rightarrow> (rune_error, 1))
         else if 0xF0 \<le> b \<and> b \<le> 0xF4 then
           (case cs of
              c1 # c2 # c3 # _ \<Rightarrow> if cont c1 lo hi \<and> cont c2 0x80 0xBF \<and> cont c3 0x80 0xBF
                then ((b - 0xF0) * 262144 + (code_of c1 - 0x80) * 4096 + (code_of c2 - 0x80) * 64
                      + (code_of c3 - 0x80), 4)
                else (rune_error, 1)
            | _ \<Rightarrow> (rune_error, 1))
         else (rune_error, 1))"

text \<open>A string cut into its code points, each with the bytes it came from (\<open>for _, r := range s\<close>).\<close>

fun chunks :: "string \<Rightarrow> (nat \<times> string) list" where
  "chunks [] = []"
| "chunks (c # cs) =
     (let (r, n) = decode_rune (c # cs) in (r, c # take (n - 1) cs) # chunks (drop (n - 1) cs))"

definition runes :: "string \<Rightarrow> nat list" where
  "runes s = map fst (chunks s)"

text \<open>\<open>utf8.Valid\<close>: no encoding error. The error is told from an encoded U+FFFD by its size.\<close>

definition utf8_valid :: "string \<Rightarrow> bool" where
  "utf8_valid s \<longleftrightarrow> (\<forall>(r, bs) \<in> set (chunks s). \<not> (r = rune_error \<and> length bs = 1))"

definition encode_rune :: "nat \<Rightarrow> string" where
  "encode_rune r =
     (let r = (if 0x10FFFF < r \<or> (0xD800 \<le> r \<and> r \<le> 0xDFFF) then rune_error else r)
      in map char_of
        (if r < 0x80 then [r]
         else if r < 0x800 then [0xC0 + r div 64, 0x80 + r mod 64]
         else if r < 0x10000 then [0xE0 + r div 4096, 0x80 + r div 64 mod 64, 0x80 + r mod 64]
         else [0xF0 + r div 262144, 0x80 + r div 4096 mod 64, 0x80 + r div 64 mod 64, 0x80 + r mod 64]))"

definition is_ascii :: "string \<Rightarrow> bool" where
  "is_ascii s \<longleftrightarrow> (\<forall>c \<in> set s. code_of c < 0x80)"

lemma is_ascii_simps [simp]:
  "is_ascii []" "is_ascii (c # s) \<longleftrightarrow> code_of c < 0x80 \<and> is_ascii s"
  "is_ascii (s @ t) \<longleftrightarrow> is_ascii s \<and> is_ascii t"
  by (auto simp: is_ascii_def)

lemma decode_rune_ascii: "code_of c < 0x80 \<Longrightarrow> decode_rune (c # cs) = (code_of c, 1)"
  by (simp add: Let_def split: prod.splits)

lemma chunks_Cons_ascii: "code_of c < 0x80 \<Longrightarrow> chunks (c # cs) = (code_of c, [c]) # chunks cs"
  by (simp add: decode_rune_ascii del: decode_rune.simps)

lemma runes_Nil [simp]: "runes [] = []"
  by (simp add: runes_def)

lemma runes_Cons_ascii [simp]: "code_of c < 0x80 \<Longrightarrow> runes (c # cs) = code_of c # runes cs"
  by (simp add: runes_def chunks_Cons_ascii del: chunks.simps)

lemma runes_ascii: "is_ascii s \<Longrightarrow> runes s = map code_of s"
  by (induction s) auto

lemma chunks_ascii: "is_ascii s \<Longrightarrow> chunks s = map (\<lambda>c. (code_of c, [c])) s"
  by (induction s) (auto simp: chunks_Cons_ascii simp del: chunks.simps(2))

lemma concat_chunks: "concat (map snd (chunks s)) = s"
  by (induction s rule: chunks.induct) (auto simp del: decode_rune.simps split: prod.splits)

lemma utf8_valid_ascii:
  assumes "is_ascii s" shows "utf8_valid s"
  using assms by (auto simp: utf8_valid_def chunks_ascii rune_error_def is_ascii_def)

declare chunks.simps(2) [simp del]
declare decode_rune.simps(2) [simp del]

section \<open>Case\<close>

record unicode =
  uc_upper :: "nat \<Rightarrow> nat"
  uc_lower :: "nat \<Rightarrow> nat"
  uc_fold :: "nat \<Rightarrow> nat"

definition ascii_upper :: "nat \<Rightarrow> nat" where
  "ascii_upper r = (if 97 \<le> r \<and> r \<le> 122 then r - 32 else r)"

definition ascii_lower :: "nat \<Rightarrow> nat" where
  "ascii_lower r = (if 65 \<le> r \<and> r \<le> 90 then r + 32 else r)"

definition rune_upper :: "unicode \<Rightarrow> nat \<Rightarrow> nat" where
  "rune_upper u r = (if r < 0x80 then ascii_upper r else uc_upper u r)"

definition rune_lower :: "unicode \<Rightarrow> nat \<Rightarrow> nat" where
  "rune_lower u r = (if r < 0x80 then ascii_lower r else uc_lower u r)"

text \<open>
  \<open>uc_fold\<close> gives the representative of the case-folding orbit of a code point beyond ASCII (an ASCII
  letter is represented by its capital), so two code points fold together when the representatives agree.
\<close>

definition rune_fold :: "unicode \<Rightarrow> nat \<Rightarrow> nat" where
  "rune_fold u r = (if r < 0x80 then ascii_upper r else uc_fold u r)"

definition ToUpper :: "unicode \<Rightarrow> string \<Rightarrow> string" where
  "ToUpper u s = concat (map (\<lambda>r. encode_rune (rune_upper u r)) (runes s))"

definition ToLower :: "unicode \<Rightarrow> string \<Rightarrow> string" where
  "ToLower u s = concat (map (\<lambda>r. encode_rune (rune_lower u r)) (runes s))"

definition EqualFold :: "unicode \<Rightarrow> string \<Rightarrow> string \<Rightarrow> bool" where
  "EqualFold u s t \<longleftrightarrow> map (rune_fold u) (runes s) = map (rune_fold u) (runes t)"

definition char_upper :: "char \<Rightarrow> char" where
  "char_upper c = char_of (ascii_upper (code_of c))"

definition char_lower :: "char \<Rightarrow> char" where
  "char_lower c = char_of (ascii_lower (code_of c))"

lemma encode_rune_ascii: "r < 0x80 \<Longrightarrow> encode_rune r = [char_of r]"
  by (simp add: encode_rune_def Let_def)

lemma ascii_upper_less: "r < 0x80 \<Longrightarrow> ascii_upper r < 0x80"
  by (auto simp: ascii_upper_def)

lemma ascii_lower_less: "r < 0x80 \<Longrightarrow> ascii_lower r < 0x80"
  by (auto simp: ascii_lower_def)

lemma code_char_upper: "code_of c < 0x80 \<Longrightarrow> code_of (char_upper c) = ascii_upper (code_of c)"
  using ascii_upper_less [of "code_of c"] by (simp add: char_upper_def)

lemma ToUpper_ascii:
  assumes "is_ascii s" shows "ToUpper u s = map char_upper s"
  using assms
  by (induction s) (auto simp: ToUpper_def rune_upper_def char_upper_def encode_rune_ascii ascii_upper_less)

lemma ToLower_ascii:
  assumes "is_ascii s" shows "ToLower u s = map char_lower s"
  using assms
  by (induction s) (auto simp: ToLower_def rune_lower_def char_lower_def encode_rune_ascii ascii_lower_less)

lemma EqualFold_refl [simp]: "EqualFold u s s"
  by (simp add: EqualFold_def)

lemma EqualFold_sym: "EqualFold u s t = EqualFold u t s"
  by (auto simp: EqualFold_def)

lemma EqualFold_trans: "EqualFold u s t \<Longrightarrow> EqualFold u t v \<Longrightarrow> EqualFold u s v"
  by (simp add: EqualFold_def)

lemma EqualFold_ascii:
  assumes "is_ascii s" "is_ascii t"
  shows "EqualFold u s t \<longleftrightarrow> map char_upper s = map char_upper t"
proof -
  have fold: "map (rune_fold u) (map code_of v) = map (\<lambda>c. ascii_upper (code_of c)) v" if "is_ascii v" for v
    using that by (auto simp: is_ascii_def rune_fold_def)
  have inj: "ascii_upper (code_of c) = ascii_upper (code_of d) \<longleftrightarrow> char_upper c = char_upper d"
    if "code_of c < 0x80" "code_of d < 0x80" for c d
  proof -
    have "code_of (char_upper c) = code_of (char_upper d) \<longleftrightarrow> char_upper c = char_upper d"
      by simp
    with that show ?thesis by (simp only: code_char_upper)
  qed
  have "map (\<lambda>c. ascii_upper (code_of c)) s = map (\<lambda>c. ascii_upper (code_of c)) t
      \<longleftrightarrow> map char_upper s = map char_upper t"
    using assms by (auto simp: list_eq_iff_nth_eq is_ascii_def inj)
  then show ?thesis
    using assms by (simp only: EqualFold_def runes_ascii fold)
qed


section \<open>Trimming, splitting, searching\<close>

text \<open>The white space of \<open>unicode.IsSpace\<close>.\<close>

definition is_space :: "nat \<Rightarrow> bool" where
  "is_space r \<longleftrightarrow> r \<in> {9, 10, 11, 12, 13, 32, 0x85, 0xA0, 0x1680, 0x2028, 0x2029, 0x202F, 0x205F, 0x3000}
     \<or> (0x2000 \<le> r \<and> r \<le> 0x200A)"

definition TrimSpace :: "string \<Rightarrow> string" where
  "TrimSpace s =
     concat (map snd (rev (dropWhile (is_space \<circ> fst) (rev (dropWhile (is_space \<circ> fst) (chunks s))))))"

definition HasPrefix :: "string \<Rightarrow> string \<Rightarrow> bool" where
  "HasPrefix s p \<longleftrightarrow> take (length p) s = p"

definition HasSuffix :: "string \<Rightarrow> string \<Rightarrow> bool" where
  "HasSuffix s p \<longleftrightarrow> length p \<le> length s \<and> drop (length s - length p) s = p"

definition TrimPrefix :: "string \<Rightarrow> string \<Rightarrow> string" where
  "TrimPrefix s p = (if HasPrefix s p then drop (length p) s else s)"

definition TrimSuffix :: "string \<Rightarrow> string \<Rightarrow> string" where
  "TrimSuffix s p = (if HasSuffix s p then take (length s - length p) s else s)"

text \<open>\<open>strings.Split\<close> at a one-byte separator: at least one part.\<close>

fun split_on :: "char \<Rightarrow> string \<Rightarrow> string list" where
  "split_on c [] = [[]]"
| "split_on c (x # xs) =
     (if x = c then [] # split_on c xs
      else case split_on c xs of [] \<Rightarrow> [[x]] | p # ps \<Rightarrow> (x # p) # ps)"

fun join :: "string \<Rightarrow> string list \<Rightarrow> string" where
  "join sep [] = []"
| "join sep [x] = x"
| "join sep (x # y # xs) = x @ sep @ join sep (y # xs)"

fun Contains :: "string \<Rightarrow> string \<Rightarrow> bool" where
  "Contains [] p \<longleftrightarrow> p = []"
| "Contains (c # cs) p \<longleftrightarrow> HasPrefix (c # cs) p \<or> Contains cs p"

lemma TrimSpace_Nil [simp]: "TrimSpace [] = []"
  by (simp add: TrimSpace_def)

lemma TrimSpace_ascii:
  assumes "is_ascii s"
  shows "TrimSpace s =
    rev (dropWhile (\<lambda>c. is_space (code_of c)) (rev (dropWhile (\<lambda>c. is_space (code_of c)) s)))"
proof -
  define P where "P = is_space \<circ> (fst :: nat \<times> string \<Rightarrow> nat)"
  define g where "g = (\<lambda>c. (code_of c, [c]))"
  have Pg: "P \<circ> g = (\<lambda>c. is_space (code_of c))"
    by (simp add: P_def g_def fun_eq_iff)
  have cg: "concat (map snd (map g xs)) = xs" for xs
    by (induction xs) (simp_all add: g_def)
  have "TrimSpace s = concat (map snd (rev (dropWhile P (rev (dropWhile P (map g s))))))"
    using assms by (simp add: TrimSpace_def P_def chunks_ascii g_def)
  also have "\<dots> = concat (map snd (map g (rev (dropWhile (P \<circ> g) (rev (dropWhile (P \<circ> g) s))))))"
    by (simp only: dropWhile_map rev_map)
  finally show ?thesis by (simp only: cg Pg)
qed

lemma TrimSpace_id:
  assumes "is_ascii s" "\<forall>c \<in> set s. \<not> is_space (code_of c)"
  shows "TrimSpace s = s"
proof -
  have d: "dropWhile P xs = xs" if "\<forall>x \<in> set xs. \<not> P x" for P and xs :: string
    using that by (cases xs) auto
  show ?thesis using assms by (simp add: TrimSpace_ascii d)
qed

lemma HasPrefix_iff_prefix: "HasPrefix s p \<longleftrightarrow> prefix p s"
  by (metis HasPrefix_def append_eq_conv_conj prefix_def append_take_drop_id)

lemma HasSuffix_iff_suffix: "HasSuffix s p \<longleftrightarrow> suffix p s"
proof
  assume "HasSuffix s p"
  then show "suffix p s"
    unfolding HasSuffix_def by (metis suffix_drop)
next
  assume "suffix p s"
  then show "HasSuffix s p"
    by (auto simp: HasSuffix_def suffix_def)
qed

lemma split_on_nonempty [simp]: "split_on c s \<noteq> []"
  by (induction s) (auto split: list.splits)

lemma split_on_parts: "p \<in> set (split_on c s) \<Longrightarrow> c \<notin> set p"
  by (induction s arbitrary: p) (auto split: list.splits if_splits)

lemma join_split_on: "join [c] (split_on c s) = s"
proof (induction s)
  case (Cons x xs)
  obtain p ps where p: "split_on c xs = p # ps" by (cases "split_on c xs") auto
  with Cons show ?case by (cases ps) auto
qed simp

lemma split_on_no_sep: "c \<notin> set p \<Longrightarrow> split_on c p = [p]"
  by (induction p) auto

lemma split_on_append: "c \<notin> set p \<Longrightarrow> split_on c (p @ c # s) = p # split_on c s"
  by (induction p) auto

lemma split_on_join:
  assumes "ps \<noteq> []" "\<forall>p \<in> set ps. c \<notin> set p"
  shows "split_on c (join [c] ps) = ps"
  using assms
proof (induction ps rule: induct_list012)
  case (3 x y zs)
  then show ?case by (simp add: split_on_append)
qed (auto simp: split_on_no_sep)

section \<open>Numbers\<close>

definition digit_char :: "nat \<Rightarrow> char" where
  "digit_char d = char_of (48 + d)"

text \<open>Decimal (\<open>strconv.Itoa\<close>, \<open>%d\<close>).\<close>

fun dec_nat :: "nat \<Rightarrow> string" where
  "dec_nat n = (if n < 10 then [digit_char n] else dec_nat (n div 10) @ [digit_char (n mod 10)])"

declare dec_nat.simps [simp del]

definition dec_int :: "int \<Rightarrow> string" where
  "dec_int i = (if i < 0 then CHR ''-'' # dec_nat (nat (- i)) else dec_nat (nat i))"

definition is_digit :: "char \<Rightarrow> bool" where
  "is_digit c \<longleftrightarrow> 48 \<le> code_of c \<and> code_of c \<le> 57"

definition digit_val :: "char \<Rightarrow> nat" where
  "digit_val c = code_of c - 48"

text \<open>The value of a run of digits.\<close>

definition digits_val :: "string \<Rightarrow> nat" where
  "digits_val s = foldl (\<lambda>n c. n * 10 + digit_val c) 0 s"

lemma code_digit_char: "d < 10 \<Longrightarrow> code_of (digit_char d) = 48 + d"
  by (simp add: digit_char_def)

lemma is_digit_digit_char [simp]: "d < 10 \<Longrightarrow> is_digit (digit_char d)"
  by (simp add: is_digit_def code_digit_char)

lemma digit_val_digit_char [simp]: "d < 10 \<Longrightarrow> digit_val (digit_char d) = d"
  by (simp add: digit_val_def code_digit_char)

lemma dec_nat_nonempty [simp]: "dec_nat n \<noteq> []"
  by (subst dec_nat.simps) simp

lemma dec_nat_digits: "\<forall>c \<in> set (dec_nat n). is_digit c"
proof (induction n rule: dec_nat.induct)
  case (1 n)
  then show ?case by (subst dec_nat.simps) auto
qed

lemma digits_val_dec_nat [simp]: "digits_val (dec_nat n) = n"
proof (induction n rule: dec_nat.induct)
  case (1 n)
  then show ?case by (subst dec_nat.simps) (auto simp: digits_val_def)
qed

lemma digit_not_space: "is_digit c \<Longrightarrow> \<not> is_space (code_of c)"
  by (auto simp: is_digit_def is_space_def)

lemma is_ascii_digits: "\<forall>c \<in> set s. is_digit c \<Longrightarrow> is_ascii s"
  by (auto simp: is_ascii_def is_digit_def)

lemma is_ascii_dec_nat [simp]: "is_ascii (dec_nat n)"
  using dec_nat_digits by (rule is_ascii_digits)

text \<open>Hexadecimal.\<close>

definition hex_char :: "nat \<Rightarrow> char" where
  "hex_char d = (if d < 10 then char_of (48 + d) else char_of (87 + d))"

definition hex_encode :: "byte list \<Rightarrow> string" where
  "hex_encode bs = concat (map (\<lambda>b. [hex_char (unat b div 16), hex_char (unat b mod 16)]) bs)"

fun hex_nat :: "nat \<Rightarrow> string" where
  "hex_nat n = (if n < 16 then [hex_char n] else hex_nat (n div 16) @ [hex_char (n mod 16)])"

declare hex_nat.simps [simp del]

lemma length_hex_encode: "length (hex_encode bs) = 2 * length bs"
  by (induction bs) (simp_all add: hex_encode_def)

text \<open>Bytes of a string as binary bytes and back.\<close>

definition bytes_of :: "string \<Rightarrow> byte list" where
  "bytes_of s = map (\<lambda>c. of_nat (code_of c)) s"

definition text_of :: "byte list \<Rightarrow> string" where
  "text_of bs = map (\<lambda>b. char_of (unat b)) bs"

lemma unat_byte_less: "unat (b :: byte) < 256"
  using unsigned_less [of b, where ?'a = nat] by simp

lemma text_of_bytes_of [simp]: "text_of (bytes_of s) = s"
  by (induction s) (simp_all add: text_of_def bytes_of_def unat_of_nat)

lemma bytes_of_text_of [simp]: "bytes_of (text_of bs) = bs"
  using unat_byte_less by (induction bs) (simp_all add: text_of_def bytes_of_def)

lemma length_bytes_of [simp]: "length (bytes_of s) = length s"
  by (simp add: bytes_of_def)

lemma length_text_of [simp]: "length (text_of s) = length s"
  by (simp add: text_of_def)

end
