(* ===== verification/Go_Http.thy ===== *)
theory Go_Http
  imports Go_Text
begin

text \<open>
  The HTTP data of the standard library that the program reads and writes: requests, responses, headers
  (keys in canonical form, as net/http stores them), \<open>url.Values\<close> and \<open>net.SplitHostPort\<close> /
  \<open>net.JoinHostPort\<close>, with the round trips the callers rely on.
\<close>

section \<open>Headers\<close>

type_synonym header = "(string, string list) gomap"

definition token_byte :: "char \<Rightarrow> bool" where
  "token_byte c \<longleftrightarrow>
     (let b = code_of c
      in is_digit c \<or> (65 \<le> b \<and> b \<le> 90) \<or> (97 \<le> b \<and> b \<le> 122) \<or> c \<in> set ''!#$%&*+-.^_`|~'' \<or> b = 39)"

text \<open>\<open>textproto.CanonicalMIMEHeaderKey\<close>: a capital first and after every hyphen, small elsewhere.\<close>

fun canon_from :: "bool \<Rightarrow> string \<Rightarrow> string" where
  "canon_from up [] = []"
| "canon_from up (c # cs) = (if up then char_upper c else char_lower c) # canon_from (c = CHR ''-'') cs"

definition canonical_key :: "string \<Rightarrow> string" where
  "canonical_key k = (if \<forall>c \<in> set k. token_byte c then canon_from True k else k)"

definition Header_Get :: "header \<Rightarrow> string \<Rightarrow> string" where
  "Header_Get h k = (case mget h (canonical_key k) of Some (v # _) \<Rightarrow> v | _ \<Rightarrow> [])"

definition Header_Set :: "string \<Rightarrow> string \<Rightarrow> header \<Rightarrow> header" where
  "Header_Set k v h = mput (canonical_key k) [v] h"

lemma Header_Get_Set: "Header_Get (Header_Set k v h) k' =
    (if canonical_key k' = canonical_key k then v else Header_Get h k')"
  by (simp add: Header_Get_def Header_Set_def)

section \<open>Queries\<close>

definition hex_val :: "char \<Rightarrow> nat option" where
  "hex_val c =
     (let b = code_of c
      in if 48 \<le> b \<and> b \<le> 57 then Some (b - 48)
         else if 97 \<le> b \<and> b \<le> 102 then Some (b - 87)
         else if 65 \<le> b \<and> b \<le> 70 then Some (b - 55)
         else None)"

text \<open>\<open>url.QueryUnescape\<close>.\<close>

fun QueryUnescape :: "string \<Rightarrow> string option" where
  "QueryUnescape [] = Some []"
| "QueryUnescape (c # cs) =
     (if c = CHR ''%'' then
        (case cs of
           a # b # rest \<Rightarrow>
             (case (hex_val a, hex_val b) of
                (Some x, Some y) \<Rightarrow> map_option (\<lambda>r. char_of (16 * x + y) # r) (QueryUnescape rest)
              | _ \<Rightarrow> None)
         | _ \<Rightarrow> None)
      else map_option (\<lambda>r. (if c = CHR ''+'' then CHR '' '' else c) # r) (QueryUnescape cs))"

text \<open>\<open>strings.Cut\<close> at a one-byte separator.\<close>

definition Cut :: "char \<Rightarrow> string \<Rightarrow> string \<times> string \<times> bool" where
  "Cut c s = (let k = takeWhile (\<lambda>x. x \<noteq> c) s
              in if k = s then (s, [], False) else (k, drop (Suc (length k)) s, True))"

text \<open>\<open>URL.Query\<close>: a setting that does not decode, or that holds a semicolon, is dropped.\<close>

definition add_setting :: "string \<Rightarrow> (string, string list) gomap \<Rightarrow> (string, string list) gomap" where
  "add_setting p m =
     (if p = [] \<or> CHR '';'' \<in> set p then m
      else case Cut CHR ''='' p of (k, v, _) \<Rightarrow>
        (case (QueryUnescape k, QueryUnescape v) of
           (Some k', Some v') \<Rightarrow> mput k' (mgetd [] m k' @ [v']) m
         | _ \<Rightarrow> m))"

definition parse_query :: "string \<Rightarrow> (string, string list) gomap" where
  "parse_query q = foldl (\<lambda>m p. add_setting p m) [] (split_on CHR ''&'' q)"

definition Values_Get :: "(string, string list) gomap \<Rightarrow> string \<Rightarrow> string" where
  "Values_Get m k = (case mget m k of Some (v # _) \<Rightarrow> v | _ \<Rightarrow> [])"

section \<open>Requests and responses\<close>

text \<open>
  \<open>req_Body = None\<close> is a nil body, \<open>req_GetBody = None\<close> a nil function; both bodies are the bytes that
  reading them to the end yields.
\<close>

record request =
  req_Method :: string
  req_Path :: string
  req_RawQuery :: string
  req_Host :: string
  req_Header :: header
  req_Body :: "string option"
  req_ContentLength :: int
  req_GetBody :: "string option"

abbreviation query_get :: "request \<Rightarrow> string \<Rightarrow> string" where
  "query_get req k \<equiv> Values_Get (parse_query (req_RawQuery req)) k"

record response =
  rs_StatusCode :: int
  rs_Proto :: string
  rs_ProtoMajor :: int
  rs_ProtoMinor :: int
  rs_Header :: header
  rs_Body :: string
  rs_ContentLength :: int

section \<open>Host and port\<close>

datatype addr_error = MissingPort | MissingBracket | TooManyColons | UnexpectedBracket

definition JoinHostPort :: "string \<Rightarrow> string \<Rightarrow> string" where
  "JoinHostPort h p =
     (if CHR '':'' \<in> set h then ''['' @ h @ '']:'' @ p else h @ '':'' @ p)"

text \<open>The part of a string before its last colon and the part after it.\<close>

definition last_colon :: "string \<Rightarrow> (string \<times> string) option" where
  "last_colon s =
     (if CHR '':'' \<in> set s
      then let p = rev (takeWhile (\<lambda>c. c \<noteq> CHR '':'') (rev s)) in Some (take (length s - length p - 1) s, p)
      else None)"

text \<open>\<open>net.SplitHostPort\<close>, with its errors in the order of its checks.\<close>

definition SplitHostPort :: "string \<Rightarrow> addr_error + string \<times> string" where
  "SplitHostPort s =
     (case last_colon s of
        None \<Rightarrow> Inl MissingPort
      | Some (pre, port) \<Rightarrow>
          (if s \<noteq> [] \<and> hd s = CHR ''['' then
             let inner = takeWhile (\<lambda>c. c \<noteq> CHR '']'') s; e = length inner
             in if CHR '']'' \<notin> set s then Inl MissingBracket
                else if e + 1 = length s then Inl MissingPort
                else if e + 1 \<noteq> length pre then
                  (if s ! (e + 1) = CHR '':'' then Inl TooManyColons else Inl MissingPort)
                else if CHR ''['' \<in> set (drop 1 s) \<or> CHR '']'' \<in> set (drop (e + 1) s) then Inl UnexpectedBracket
                else Inr (drop 1 inner, port)
           else if CHR '':'' \<in> set pre then Inl TooManyColons
           else if CHR ''['' \<in> set s \<or> CHR '']'' \<in> set s then Inl UnexpectedBracket
           else Inr (pre, port)))"

lemma takeWhile_append_stop: "\<forall>x \<in> set xs. P x \<Longrightarrow> \<not> P y \<Longrightarrow> takeWhile P (xs @ y # ys) = xs"
  by (induction xs) auto

lemma last_colon_append:
  "CHR '':'' \<notin> set p \<Longrightarrow> last_colon (h @ CHR '':'' # p) = Some (h, p)"
proof -
  assume "CHR '':'' \<notin> set p"
  then have "takeWhile (\<lambda>c. c \<noteq> CHR '':'') (rev p @ CHR '':'' # rev h) = rev p"
    by (intro takeWhile_append_stop) auto
  then show ?thesis by (simp add: last_colon_def)
qed

lemma SplitHostPort_Join:
  assumes h: "CHR ''['' \<notin> set h" "CHR '']'' \<notin> set h"
    and p: "CHR '':'' \<notin> set p" "CHR ''['' \<notin> set p" "CHR '']'' \<notin> set p"
  shows "SplitHostPort (JoinHostPort h p) = Inr (h, p)"
proof (cases "CHR '':'' \<in> set h")
  case False
  have "last_colon (h @ CHR '':'' # p) = Some (h, p)" using p by (simp add: last_colon_append)
  moreover have "hd (h @ CHR '':'' # p) \<noteq> CHR ''[''" using h by (cases h) auto
  ultimately show ?thesis
    using False h p by (simp add: JoinHostPort_def SplitHostPort_def)
next
  case True
  define s where "s = CHR ''['' # h @ CHR '']'' # CHR '':'' # p"
  have s: "s = (CHR ''['' # h @ [CHR '']'']) @ CHR '':'' # p" by (simp add: s_def)
  have lc: "last_colon s = Some (CHR ''['' # h @ [CHR '']''], p)"
    unfolding s using p(1) by (rule last_colon_append)
  have "takeWhile (\<lambda>c. c \<noteq> CHR '']'') ((CHR ''['' # h) @ CHR '']'' # CHR '':'' # p) = CHR ''['' # h"
    using h by (intro takeWhile_append_stop) auto
  then have tw: "takeWhile (\<lambda>c. c \<noteq> CHR '']'') s = CHR ''['' # h" by (simp add: s_def)
  have "JoinHostPort h p = s" using True by (simp add: JoinHostPort_def s_def)
  moreover have "SplitHostPort s = Inr (h, p)"
    unfolding SplitHostPort_def lc using h p
    by (simp add: tw Let_def) (simp add: s_def)
  ultimately show ?thesis by simp
qed

lemma SplitHostPort_no_colon: "CHR '':'' \<notin> set s \<Longrightarrow> SplitHostPort s = Inl MissingPort"
  by (simp add: SplitHostPort_def last_colon_def)

end
