(* ===== verification/Rules.thy ===== *)
theory Rules
  imports Go_Http
begin

text \<open>
  The rule engine (rules.go, first half): the rules, their storage and the choice of the rule that
  applies to a request. \<open>Delete\<close> compacts the slice in place, so it is modelled on the backing array
  and shown equal to a filter. Rule selection is a decision list, stated as the interface
  \<open>decision_list\<close> and interpreted on \<open>matchRule\<close>.
\<close>

section \<open>Data\<close>

record rule =
  ru_ID :: string
  ru_Host :: string
  ru_Path :: string
  ru_Method :: string
  ru_Status :: int
  ru_Body :: string
  ru_Type :: string
  ru_Action :: string
  ru_RewriteJSON :: "(string, string) gomap"
  ru_RewriteBody :: string
  ru_Script :: string

text \<open>The zero value of the struct.\<close>

definition zero_rule :: rule where
  "zero_rule = \<lparr>ru_ID = [], ru_Host = [], ru_Path = [], ru_Method = [], ru_Status = 0, ru_Body = [],
     ru_Type = [], ru_Action = [], ru_RewriteJSON = [], ru_RewriteBody = [], ru_Script = []\<rparr>"

record rule_engine =
  rules :: "rule list"

definition NewRuleEngine :: rule_engine where
  "NewRuleEngine = \<lparr>rules = []\<rparr>"

text \<open>
  \<open>newRuleID\<close> reads eight bytes of the system's entropy; the bytes are an argument. An operation that may
  draw several identifiers takes a supply, a function from the draw's number to its bytes.
\<close>

type_synonym entropy = "nat \<Rightarrow> byte list"

definition is_entropy :: "entropy \<Rightarrow> bool" where
  "is_entropy rnd \<longleftrightarrow> (\<forall>i. length (rnd i) = 8)"

definition newRuleID :: "byte list \<Rightarrow> string" where
  "newRuleID b = hex_encode b"

text \<open>The defaults that \<open>Set\<close> and \<open>Add\<close> fill in.\<close>

definition with_defaults :: "byte list \<Rightarrow> rule \<Rightarrow> rule" where
  "with_defaults b r =
     (let r = (if ru_ID r = [] then r\<lparr>ru_ID := newRuleID b\<rparr> else r)
      in if ru_Action r = [] then r\<lparr>ru_Action := ''mock''\<rparr> else r)"

fun set_loop :: "entropy \<Rightarrow> nat \<Rightarrow> rule list \<Rightarrow> rule list" where
  "set_loop rnd i [] = []"
| "set_loop rnd i (r # rs) = with_defaults (rnd i) r # set_loop rnd (Suc i) rs"

definition Set :: "entropy \<Rightarrow> rule_engine \<Rightarrow> rule list \<Rightarrow> rule_engine" where
  "Set rnd e rs = e\<lparr>rules := set_loop rnd 0 rs\<rparr>"

definition Add :: "entropy \<Rightarrow> rule_engine \<Rightarrow> rule \<Rightarrow> rule_engine \<times> rule" where
  "Add rnd e r = (let r = with_defaults (rnd 0) r in (e\<lparr>rules := rules e @ [r]\<rparr>, r))"

text \<open>
  \<open>Delete\<close>: \<open>out := e.rules[:0]\<close> shares the array of \<open>e.rules\<close>, so the loop writes the kept rules to the
  front of the array it is reading. \<open>arr\<close> is that array, \<open>i\<close> the read index, \<open>j\<close> the length of \<open>out\<close>.
\<close>

function delete_loop :: "string \<Rightarrow> rule list \<Rightarrow> nat \<Rightarrow> nat \<Rightarrow> bool \<Rightarrow> rule list \<times> nat \<times> bool" where
  "delete_loop rid arr i j ok =
     (if i < length arr then
        let r = arr ! i
        in if ru_ID r = rid then delete_loop rid arr (Suc i) j True
           else delete_loop rid (arr[j := r]) (Suc i) (Suc j) ok
      else (arr, j, ok))"
  by pat_completeness auto
termination
  by (relation "measure (\<lambda>(rid, arr, i, j, ok). length arr - i)") auto

declare delete_loop.simps [simp del]

definition Delete :: "rule_engine \<Rightarrow> string \<Rightarrow> rule_engine \<times> bool" where
  "Delete e rid =
     (case delete_loop rid (rules e) 0 0 False of (arr, j, ok) \<Rightarrow> (e\<lparr>rules := take j arr\<rparr>, ok))"

definition All :: "rule_engine \<Rightarrow> rule list" where
  "All e = rules e"

section \<open>Matching\<close>

definition pathMatch :: "string \<Rightarrow> string \<Rightarrow> bool" where
  "pathMatch pat path =
     (if HasSuffix pat ''*'' then HasPrefix path (TrimSuffix pat ''*'') else pat = path)"

fun match_loop :: "unicode \<Rightarrow> string \<Rightarrow> string \<Rightarrow> string \<Rightarrow> rule list \<Rightarrow> rule option" where
  "match_loop u host path method [] = None"
| "match_loop u host path method (r # rs) =
     (if ru_Host r \<noteq> [] \<and> \<not> EqualFold u (ru_Host r) host then match_loop u host path method rs
      else if ru_Path r \<noteq> [] \<and> ru_Path r \<noteq> path \<and> \<not> pathMatch (ru_Path r) path
        then match_loop u host path method rs
      else if ru_Method r \<noteq> [] \<and> \<not> EqualFold u (ru_Method r) method
        then match_loop u host path method rs
      else Some r)"

definition matchRule :: "unicode \<Rightarrow> rule_engine \<Rightarrow> string \<Rightarrow> request \<Rightarrow> rule option" where
  "matchRule u e host req = match_loop u host (req_Path req) (req_Method req) (rules e)"

section \<open>The storage operations\<close>

lemma with_defaults_ID: "ru_ID (with_defaults b r) = (if ru_ID r = [] then newRuleID b else ru_ID r)"
  by (simp add: with_defaults_def Let_def)

lemma with_defaults_Action:
  "ru_Action (with_defaults b r) = (if ru_Action r = [] then ''mock'' else ru_Action r)"
  by (simp add: with_defaults_def Let_def)

lemma with_defaults_frame [simp]:
  "ru_Host (with_defaults b r) = ru_Host r" "ru_Path (with_defaults b r) = ru_Path r"
  "ru_Method (with_defaults b r) = ru_Method r" "ru_Status (with_defaults b r) = ru_Status r"
  "ru_Body (with_defaults b r) = ru_Body r" "ru_Type (with_defaults b r) = ru_Type r"
  "ru_RewriteJSON (with_defaults b r) = ru_RewriteJSON r"
  "ru_RewriteBody (with_defaults b r) = ru_RewriteBody r" "ru_Script (with_defaults b r) = ru_Script r"
  by (simp_all add: with_defaults_def Let_def)

text \<open>A stored rule has an identifier and an action; such a rule is stored as it is.\<close>

definition rule_ok :: "rule \<Rightarrow> bool" where
  "rule_ok r \<longleftrightarrow> ru_ID r \<noteq> [] \<and> ru_Action r \<noteq> []"

definition engine_ok :: "rule_engine \<Rightarrow> bool" where
  "engine_ok e \<longleftrightarrow> (\<forall>r \<in> set (rules e). rule_ok r)"

lemma rule_ok_with_defaults: "length b = 8 \<Longrightarrow> rule_ok (with_defaults b r)"
proof -
  assume "length b = 8"
  then have "newRuleID b \<noteq> []"
    using length_hex_encode [of b] by (auto simp: newRuleID_def)
  then show ?thesis by (simp add: rule_ok_def with_defaults_ID with_defaults_Action)
qed

lemma with_defaults_id: "rule_ok r \<Longrightarrow> with_defaults b r = r"
  by (simp add: rule_ok_def with_defaults_def)

lemma set_loop_id: "\<forall>r \<in> set rs. rule_ok r \<Longrightarrow> set_loop rnd i rs = rs"
  by (induction rs arbitrary: i) (auto simp: with_defaults_id)

lemma set_loop_ok: "is_entropy rnd \<Longrightarrow> r \<in> set (set_loop rnd i rs) \<Longrightarrow> rule_ok r"
  by (induction rs arbitrary: i) (auto simp: rule_ok_with_defaults is_entropy_def)

lemma length_set_loop [simp]: "length (set_loop rnd i rs) = length rs"
  by (induction rs arbitrary: i) auto

lemma engine_ok_Set: "is_entropy rnd \<Longrightarrow> engine_ok (Set rnd e rs)"
  by (auto simp: engine_ok_def Set_def dest: set_loop_ok)

lemma engine_ok_Add: "is_entropy rnd \<Longrightarrow> engine_ok e \<Longrightarrow> engine_ok (fst (Add rnd e r))"
  by (auto simp: engine_ok_def Add_def Let_def rule_ok_with_defaults is_entropy_def)

text \<open>
  The loop's invariant: the first \<open>j\<close> cells hold the kept rules of the prefix already read, the cells
  from \<open>i\<close> on are still those of the original slice, and \<open>j\<close> never overtakes \<open>i\<close>.
\<close>

lemma delete_loop_filter:
  assumes "j \<le> i" and "i \<le> length arr"
  shows "(case delete_loop rid arr i j ok of (arr', j', ok') \<Rightarrow>
      take j' arr' = take j arr @ filter (\<lambda>r. ru_ID r \<noteq> rid) (drop i arr)
      \<and> ok' = (ok \<or> (\<exists>r \<in> set (drop i arr). ru_ID r = rid)))"
  using assms
proof (induction rid arr i j ok rule: delete_loop.induct)
  case (1 rid arr i j ok)
  show ?case
  proof (cases "i < length arr")
    case False
    with 1 show ?thesis by (subst delete_loop.simps) simp
  next
    case True
    have d: "drop i arr = arr ! i # drop (Suc i) arr"
      using True by (simp add: Cons_nth_drop_Suc)
    show ?thesis
    proof (cases "ru_ID (arr ! i) = rid")
      case eq: True
      show ?thesis
        using "1.IH"(1) [OF True refl eq] "1.prems" True eq
        by (auto simp: delete_loop.simps [of rid arr i] d split: prod.splits)
    next
      case neq: False
      have t: "take (Suc j) (arr[j := arr ! i]) = take j arr @ [arr ! i]"
        using "1.prems" True by (simp add: take_Suc_conv_app_nth)
      have "drop (Suc i) (arr[j := arr ! i]) = drop (Suc i) arr"
        using "1.prems" by (simp add: drop_update_cancel)
      then show ?thesis
        using "1.IH"(2) [OF True refl neq] "1.prems" True neq
        by (auto simp: delete_loop.simps [of rid arr i] d t split: prod.splits)
    qed
  qed
qed

lemma Delete_eq_filter:
  "Delete e rid = (e\<lparr>rules := filter (\<lambda>r. ru_ID r \<noteq> rid) (rules e)\<rparr>, \<exists>r \<in> set (rules e). ru_ID r = rid)"
  using delete_loop_filter [of 0 0 "rules e" rid False]
  by (auto simp: Delete_def split: prod.splits)

lemma engine_ok_Delete: "engine_ok e \<Longrightarrow> engine_ok (fst (Delete e rid))"
  by (auto simp: engine_ok_def Delete_eq_filter)

section \<open>Rule selection as a decision list\<close>

text \<open>
  \<open>sel q rs\<close> chooses the first rule of \<open>rs\<close> that \<open>m\<close> accepts for the query \<open>q\<close>.
\<close>

locale decision_list =
  fixes sel :: "'q \<Rightarrow> 'r list \<Rightarrow> 'r option"
    and m :: "'q \<Rightarrow> 'r \<Rightarrow> bool"
  assumes sel_Nil: "sel q [] = None"
    and sel_Cons: "sel q (r # rs) = (if m q r then Some r else sel q rs)"
begin

lemma sel_find: "sel q rs = find (m q) rs"
  by (induction rs) (simp_all add: sel_Nil sel_Cons)

lemma sel_append: "sel q (rs @ rs') = (case sel q rs of None \<Rightarrow> sel q rs' | Some r \<Rightarrow> Some r)"
  by (induction rs) (simp_all add: sel_Nil sel_Cons)

lemma sel_None_iff: "sel q rs = None \<longleftrightarrow> (\<forall>r \<in> set rs. \<not> m q r)"
  by (induction rs) (simp_all add: sel_Nil sel_Cons)

lemma sel_SomeD: "sel q rs = Some r \<Longrightarrow> r \<in> set rs \<and> m q r"
  by (induction rs) (auto simp: sel_Nil sel_Cons split: if_splits)

text \<open>The chosen rule is the first that applies.\<close>

lemma sel_Some_split:
  "sel q rs = Some r \<Longrightarrow> \<exists>us vs. rs = us @ r # vs \<and> m q r \<and> (\<forall>x \<in> set us. \<not> m q x)"
proof (induction rs)
  case Nil
  then show ?case by (simp add: sel_Nil)
next
  case (Cons a rs)
  show ?case
  proof (cases "m q a")
    case True
    with Cons.prems have "a = r" by (simp add: sel_Cons)
    with True show ?thesis by (intro exI [of _ "[]"] exI [of _ rs]) simp
  next
    case False
    with Cons obtain us vs where "rs = us @ r # vs" "m q r" "\<forall>x \<in> set us. \<not> m q x"
      by (auto simp: sel_Cons)
    with False show ?thesis by (intro exI [of _ "a # us"] exI [of _ vs]) simp
  qed
qed

lemma sel_Some_iff:
  "sel q rs = Some r \<longleftrightarrow> (\<exists>us vs. rs = us @ r # vs \<and> m q r \<and> (\<forall>x \<in> set us. \<not> m q x))"
  using sel_Some_split by (auto simp: sel_append sel_Cons sel_None_iff [THEN iffD2])

text \<open>Removing rules that do not apply, or that come after the chosen one, changes nothing.\<close>

lemma sel_filter: "(\<And>r. m q r \<Longrightarrow> P r) \<Longrightarrow> sel q (filter P rs) = sel q rs"
  by (induction rs) (auto simp: sel_Nil sel_Cons)

end

text \<open>When a rule applies: each non-empty field restricts the request.\<close>

definition rule_applies :: "unicode \<Rightarrow> string \<times> string \<times> string \<Rightarrow> rule \<Rightarrow> bool" where
  "rule_applies u q r \<longleftrightarrow>
     (case q of (host, path, method) \<Rightarrow>
       (ru_Host r = [] \<or> EqualFold u (ru_Host r) host) \<and>
       (ru_Path r = [] \<or> pathMatch (ru_Path r) path \<or> ru_Path r = path) \<and>
       (ru_Method r = [] \<or> EqualFold u (ru_Method r) method))"

interpretation dl: decision_list
  "\<lambda>q rs. case q of (host, path, method) \<Rightarrow> match_loop u host path method rs" "rule_applies u"
  for u
proof unfold_locales
  fix q :: "string \<times> string \<times> string" and r rs
  obtain h p mt where q: "q = (h, p, mt)" by (cases q)
  show "(case q of (host, path, method) \<Rightarrow> match_loop u host path method (r # rs)) =
      (if rule_applies u q r then Some r
       else case q of (host, path, method) \<Rightarrow> match_loop u host path method rs)"
    unfolding q by (simp add: rule_applies_def)
qed simp

lemma matchRule_find:
  "matchRule u e host req = find (rule_applies u (host, req_Path req, req_Method req)) (rules e)"
  using dl.sel_find [where q = "(host, req_Path req, req_Method req)" and rs = "rules e" and u = u]
  by (simp add: matchRule_def)

lemma pathMatch_star: "pathMatch (p @ ''*'') path \<longleftrightarrow> prefix p path"
  by (simp add: pathMatch_def HasSuffix_def TrimSuffix_def HasPrefix_iff_prefix)

lemma pathMatch_exact: "\<not> HasSuffix p ''*'' \<Longrightarrow> pathMatch p path \<longleftrightarrow> p = path"
  by (simp add: pathMatch_def)

section \<open>Properties\<close>

text \<open>
  C31: the rule that applies to a request is the first one, in order of insertion, whose host (compared
  without case), path (exact or a prefix pattern) and method (without case) all accept it, an empty
  field accepting everything; no rule is chosen exactly when none applies.
\<close>

theorem matchRule_first_match:
  "matchRule u e host req = Some r \<longleftrightarrow>
     (\<exists>us vs. rules e = us @ r # vs \<and> rule_applies u (host, req_Path req, req_Method req) r
        \<and> list_all (\<lambda>x. \<not> rule_applies u (host, req_Path req, req_Method req) x) us)"
  using dl.sel_Some_iff [where q = "(host, req_Path req, req_Method req)" and rs = "rules e" and u = u and r = r]
  by (simp add: matchRule_def list_all_iff)

text \<open>
  Deleting by compacting the slice in place is the filter that keeps, in order, exactly the rules
  with another identifier, although the loop overwrites the array it reads; the result says whether a
  rule was removed.
\<close>

theorem Delete_in_place_is_filter:
  "Delete e rid =
     (e\<lparr>rules := filter (\<lambda>r. ru_ID r \<noteq> rid) (rules e)\<rparr>, list_ex (\<lambda>r. ru_ID r = rid) (rules e))"
  by (simp add: Delete_eq_filter list_ex_iff)

text \<open>
  A rule pattern that ends in a star accepts exactly the paths that begin with the text before the
  star; any other pattern accepts exactly itself.
\<close>

theorem pathMatch_spec:
  "pathMatch pat path =
     (if pat \<noteq> [] \<and> last pat = CHR ''*'' then prefix (butlast pat) path else pat = path)"
proof (cases "pat \<noteq> [] \<and> last pat = CHR ''*''")
  case True
  then have "pat = butlast pat @ ''*''" by (metis append_butlast_last_id)
  with True pathMatch_star [of "butlast pat" path] show ?thesis by simp
next
  case False
  then have "\<not> suffix ''*'' pat" by (auto simp: suffix_def)
  with False show ?thesis
    by (auto simp: pathMatch_exact HasSuffix_iff_suffix)
qed

end
