(* ===== verification/Script.thy ===== *)
theory Script
  imports Rules
begin

text \<open>
  Bodies with scripts and templates (rules.go, second half): the builtins given to Starlark scripts, the
  inline markers \<open>{{script: e}}\<close>, the templates \<open>{{path}}\<close>, \<open>{{host}}\<close> and \<open>{{query.k}}\<close>, and the response
  that a mock rule renders.

  The Starlark interpreter is a third-party package: it is the argument \<open>script_host\<close>, which also holds
  the parts of the library that work on values of no bounded form (float formatting, \<open>fmt.Sprint\<close>, and
  text/template on templates outside the fragment that the documentation offers).
\<close>

section \<open>Time\<close>

text \<open>The civil date of a day number (0 is 1970-01-01) in the proleptic Gregorian calendar.\<close>

definition civil :: "int \<Rightarrow> int \<times> int \<times> int" where
  "civil days =
     (let z = days + 719468; era = z div 146097; doe = z mod 146097;
          yoe = (doe - doe div 1460 + doe div 36524 - doe div 146096) div 365;
          doy = doe - (365 * yoe + yoe div 4 - yoe div 100);
          mp = (5 * doy + 2) div 153;
          d = doy - (153 * mp + 2) div 5 + 1;
          m = (if mp < 10 then mp + 3 else mp - 9);
          y = yoe + era * 400
      in (if m \<le> 2 then y + 1 else y, m, d))"

definition pad :: "nat \<Rightarrow> string \<Rightarrow> string" where
  "pad w s = replicate (w - length s) CHR ''0'' @ s"

definition fmt_int :: "nat \<Rightarrow> int \<Rightarrow> string" where
  "fmt_int w i = (if i < 0 then CHR ''-'' # pad w (dec_nat (nat (- i))) else pad w (dec_nat (nat i)))"

text \<open>\<open>Format("2006-01-02")\<close> of the UTC instant given in seconds.\<close>

definition fmt_date :: "int \<Rightarrow> string" where
  "fmt_date sec =
     (case civil (sec div 86400) of (y, m, d) \<Rightarrow> fmt_int 4 y @ ''-'' @ fmt_int 2 m @ ''-'' @ fmt_int 2 d)"

definition fmt_clock :: "int \<Rightarrow> string" where
  "fmt_clock sec =
     (let s = sec mod 86400
      in fmt_int 2 (s div 3600) @ '':'' @ fmt_int 2 (s div 60 mod 60) @ '':'' @ fmt_int 2 (s mod 60))"

text \<open>\<open>Format(time.RFC3339)\<close> in UTC.\<close>

definition fmt_rfc3339 :: "int \<Rightarrow> string" where
  "fmt_rfc3339 sec = fmt_date sec @ ''T'' @ fmt_clock sec @ ''Z''"

section \<open>Starlark values and threads\<close>

datatype sval =
    SString string
  | SInt int
  | SFloat "64 word"
  | SBool bool
  | SDict "(string, string) gomap"
  | SOther string

text \<open>\<open>th_t0\<close> is the thread-local \<open>t0\<close>, in nanoseconds since 1970; \<open>None\<close> is the zero time.\<close>

record star_thread =
  th_Name :: string
  th_MaxSteps :: nat
  th_t0 :: "int option"

text \<open>
  A global of the script's environment: a value, or a builtin, which runs on the calling thread at some
  reading of the clock (in nanoseconds) and fails with a message or returns a value.
\<close>

datatype star_global =
    GValue sval
  | GBuiltin "star_thread option \<Rightarrow> int \<Rightarrow> sval list \<Rightarrow> string + sval"

type_synonym star_env = "(string, star_global) gomap"

record tpl_data =
  td_path :: string
  td_query :: "(string, string) gomap"
  td_host :: string

record script_host =
  sx_eval :: "star_thread \<Rightarrow> star_env \<Rightarrow> string \<Rightarrow> sval option"
  sx_exec :: "star_thread \<Rightarrow> star_env \<Rightarrow> string \<Rightarrow> (string, sval) gomap option"
  sx_now :: int
  sx_float :: "64 word \<Rightarrow> string"
  sx_sprint :: "sval \<Rightarrow> string"
  sx_template :: "string \<Rightarrow> tpl_data \<Rightarrow> string option"
  sx_order :: "string map_order"

definition starlarkThread :: "script_host \<Rightarrow> star_thread" where
  "starlarkThread E = \<lparr>th_Name = ''rule'', th_MaxSteps = 10000, th_t0 = Some (sx_now E)\<rparr>"

definition checkScriptDeadline :: "star_thread option \<Rightarrow> int \<Rightarrow> string option" where
  "checkScriptDeadline th now =
     (case th of
        None \<Rightarrow> None
      | Some th \<Rightarrow>
          (case th_t0 th of
             None \<Rightarrow> None
           | Some t0 \<Rightarrow> if 50 * 10 ^ 6 < now - t0 then Some ''script timeout'' else None))"

section \<open>Builtins\<close>

definition int64_of :: "int \<Rightarrow> int" where
  "int64_of i = sint (of_int i :: int64)"

definition fits_int32 :: "int \<Rightarrow> bool" where
  "fits_int32 i \<longleftrightarrow> - (2 ^ 31) \<le> i \<and> i < 2 ^ 31"

definition fits_int64 :: "int \<Rightarrow> bool" where
  "fits_int64 i \<longleftrightarrow> - (2 ^ 63) \<le> i \<and> i < 2 ^ 63"

text \<open>The first argument as a number of seconds; anything that is not an \<open>int64\<close> counts as 0.\<close>

definition offsetOf :: "sval list \<Rightarrow> int" where
  "offsetOf args =
     (case args of
        [] \<Rightarrow> 0
      | a # _ \<Rightarrow>
          (case a of
             SInt i \<Rightarrow> if fits_int32 i then i else if fits_int64 i then i else 0
           | _ \<Rightarrow> 0))"

text \<open>\<open>time.Duration(offset) * time.Second\<close>: nanoseconds in an \<open>int64\<close>, which wraps.\<close>

definition seconds :: "int \<Rightarrow> int" where
  "seconds off = int64_of (off * 10 ^ 9)"

definition with_deadline :: "(int \<Rightarrow> sval list \<Rightarrow> sval) \<Rightarrow> star_thread option \<Rightarrow> int \<Rightarrow> sval list \<Rightarrow> string + sval" where
  "with_deadline f th now args =
     (case checkScriptDeadline th now of Some e \<Rightarrow> Inl e | None \<Rightarrow> Inr (f now args))"

definition bi_now :: "star_thread option \<Rightarrow> int \<Rightarrow> sval list \<Rightarrow> string + sval" where
  "bi_now = with_deadline (\<lambda>now args. SInt (now div 10 ^ 9))"

definition bi_nowMS :: "star_thread option \<Rightarrow> int \<Rightarrow> sval list \<Rightarrow> string + sval" where
  "bi_nowMS = with_deadline (\<lambda>now args. SInt (now div 10 ^ 6))"

definition bi_iso :: "star_thread option \<Rightarrow> int \<Rightarrow> sval list \<Rightarrow> string + sval" where
  "bi_iso = with_deadline (\<lambda>now args. SString (fmt_rfc3339 ((now + seconds (offsetOf args)) div 10 ^ 9)))"

definition bi_date :: "star_thread option \<Rightarrow> int \<Rightarrow> sval list \<Rightarrow> string + sval" where
  "bi_date = with_deadline (\<lambda>now args. SString (fmt_date ((now + seconds (offsetOf args)) div 10 ^ 9)))"

definition bi_plus :: "star_thread option \<Rightarrow> int \<Rightarrow> sval list \<Rightarrow> string + sval" where
  "bi_plus = with_deadline (\<lambda>now args. SInt (int64_of (now div 10 ^ 9 + offsetOf args)))"

definition queryMap :: "string map_order \<Rightarrow> request \<Rightarrow> (string, string) gomap" where
  "queryMap ord req =
     (let q = parse_query (req_RawQuery req)
      in fold (\<lambda>k m. case mgetd [] q k of [] \<Rightarrow> m | v # _ \<Rightarrow> mput k v m) (ord (mkeys q)) [])"

definition builtins :: "script_host \<Rightarrow> request option \<Rightarrow> star_env" where
  "builtins E req =
     (let path = (case req of None \<Rightarrow> [] | Some r \<Rightarrow> req_Path r);
          host = (case req of None \<Rightarrow> [] | Some r \<Rightarrow> req_Host r);
          method = (case req of None \<Rightarrow> [] | Some r \<Rightarrow> req_Method r);
          q = (case req of None \<Rightarrow> [] | Some r \<Rightarrow> queryMap (sx_order E) r)
      in [(''now'', GBuiltin bi_now), (''now_ms'', GBuiltin bi_nowMS), (''iso'', GBuiltin bi_iso),
          (''date'', GBuiltin bi_date), (''plus'', GBuiltin bi_plus),
          (''path'', GValue (SString path)), (''host'', GValue (SString host)),
          (''method'', GValue (SString method)), (''query'', GValue (SDict q))])"

definition stringify :: "script_host \<Rightarrow> sval \<Rightarrow> string" where
  "stringify E v =
     (case v of
        SString s \<Rightarrow> s
      | SInt i \<Rightarrow> dec_int i
      | SFloat x \<Rightarrow> sx_float E x
      | SBool b \<Rightarrow> if b then ''true'' else ''false''
      | _ \<Rightarrow> sx_sprint E v)"

definition evalExpr :: "script_host \<Rightarrow> string \<Rightarrow> request option \<Rightarrow> string option" where
  "evalExpr E src req = map_option (stringify E) (sx_eval E (starlarkThread E) (builtins E req) src)"

definition runProgram :: "script_host \<Rightarrow> string \<Rightarrow> request option \<Rightarrow> string option" where
  "runProgram E src req =
     (case sx_exec E (starlarkThread E) (builtins E req) src of
        None \<Rightarrow> None
      | Some g \<Rightarrow>
          (case mget g ''out'' of
             Some out \<Rightarrow> Some (stringify E out)
           | None \<Rightarrow> map_option (stringify E) (sx_eval E (starlarkThread E) (builtins E req) src)))"

section \<open>Inline markers\<close>

text \<open>\<open>\s\<close> of the regular expression.\<close>

definition re_space :: "char \<Rightarrow> bool" where
  "re_space c \<longleftrightarrow> code_of c \<in> {9, 10, 12, 13, 32}"

text \<open>The shortest run without a newline up to a closing brace pair.\<close>

fun find_close :: "string \<Rightarrow> (string \<times> string) option" where
  "find_close [] = None"
| "find_close (c # cs) =
     (if HasPrefix (c # cs) ''}}'' then Some ([], drop 2 (c # cs))
      else if code_of c = 10 then None
      else map_option (\<lambda>(e, rest). (c # e, rest)) (find_close cs))"

text \<open>A match of \<open>scriptMarker\<close> at the start of a string: the matched text, its group, what follows.\<close>

definition marker_at :: "string \<Rightarrow> (string \<times> string \<times> string) option" where
  "marker_at s =
     (if HasPrefix s ''{{script:'' then
        map_option (\<lambda>(e, rest). (take (length s - length rest) s, e, rest))
          (find_close (dropWhile re_space (drop 9 s)))
      else None)"

lemma find_close_split: "find_close s = Some (e, rest) \<Longrightarrow> s = e @ ''}}'' @ rest"
proof (induction s arbitrary: e)
  case (Cons c cs)
  show ?case
  proof (cases "HasPrefix (c # cs) ''}}''")
    case True
    then have "c # cs = ''}}'' @ drop 2 (c # cs)"
      unfolding HasPrefix_def by (metis append_take_drop_id length_Cons list.size(3) numeral_2_eq_2)
    with True Cons.prems show ?thesis by auto
  next
    case False
    with Cons show ?thesis by (auto split: if_splits)
  qed
qed simp

lemma length_dropWhile_le': "length (dropWhile P xs) \<le> length xs"
  by (induction xs) auto

lemma marker_at_length: "marker_at s = Some (t, e, rest) \<Longrightarrow> length rest < length s"
proof -
  assume a: "marker_at s = Some (t, e, rest)"
  then have "find_close (dropWhile re_space (drop 9 s)) = Some (e, rest)"
    by (auto simp: marker_at_def split: if_splits)
  from arg_cong [OF find_close_split [OF this], of length]
  have "length rest < length (dropWhile re_space (drop 9 s))" by simp
  also have "\<dots> \<le> length s"
    using length_dropWhile_le' [of re_space "drop 9 s"] by simp
  finally show ?thesis .
qed

text \<open>\<open>ReplaceAllStringFunc\<close> with the marker's callback: a marker whose expression fails stays.\<close>

function replace_markers :: "(string \<Rightarrow> string option) \<Rightarrow> string \<Rightarrow> string" where
  "replace_markers ev [] = []"
| "replace_markers ev (c # cs) =
     (case marker_at (c # cs) of
        None \<Rightarrow> c # replace_markers ev cs
      | Some (t, e, rest) \<Rightarrow>
          (case ev (TrimSpace e) of None \<Rightarrow> t | Some out \<Rightarrow> out) @ replace_markers ev rest)"
  by pat_completeness auto
termination
  by (relation "measure (\<lambda>(ev, s). length s)") (auto dest: marker_at_length)

declare replace_markers.simps(2) [simp del]


section \<open>Templates\<close>

text \<open>The replacer that turns the short forms of the documentation into template actions.\<close>

function replace_vars :: "string \<Rightarrow> string" where
  "replace_vars [] = []"
| "replace_vars (c # cs) =
     (if HasPrefix (c # cs) ''{{path}}'' then ''{{.path}}'' @ replace_vars (drop 8 (c # cs))
      else if HasPrefix (c # cs) ''{{host}}'' then ''{{.host}}'' @ replace_vars (drop 8 (c # cs))
      else if HasPrefix (c # cs) ''{{query.'' then ''{{.query.'' @ replace_vars (drop 8 (c # cs))
      else c # replace_vars cs)"
  by pat_completeness auto
termination
  by (relation "measure length") auto

declare replace_vars.simps(2) [simp del]

text \<open>
  The fragment of text/template that is defined here: text, and actions that are a chain of fields such
  as \<open>{{.query.k}}\<close>. A template outside the fragment is left to the library (\<open>sx_template\<close>).
\<close>

datatype piece = Lit char | Field "string list"

definition ident_start :: "char \<Rightarrow> bool" where
  "ident_start c \<longleftrightarrow> (let b = code_of c in (65 \<le> b \<and> b \<le> 90) \<or> (97 \<le> b \<and> b \<le> 122) \<or> b = 95)"

definition is_ident :: "string \<Rightarrow> bool" where
  "is_ident s \<longleftrightarrow> s \<noteq> [] \<and> ident_start (hd s) \<and> list_all (\<lambda>c. ident_start c \<or> is_digit c) s"

definition tpl_space :: "char \<Rightarrow> bool" where
  "tpl_space c \<longleftrightarrow> code_of c \<in> {9, 10, 13, 32}"

definition field_of :: "string \<Rightarrow> string list option" where
  "field_of a =
     (case rev (dropWhile tpl_space (rev (dropWhile tpl_space a))) of
        [] \<Rightarrow> None
      | c # cs \<Rightarrow>
          if c = CHR ''.'' \<and> list_all is_ident (split_on CHR ''.'' cs) then Some (split_on CHR ''.'' cs)
          else None)"

fun split_close :: "string \<Rightarrow> (string \<times> string) option" where
  "split_close [] = None"
| "split_close (c # cs) =
     (if HasPrefix (c # cs) ''}}'' then Some ([], drop 2 (c # cs))
      else map_option (\<lambda>(e, rest). (c # e, rest)) (split_close cs))"

lemma split_close_length: "split_close s = Some (e, rest) \<Longrightarrow> length rest < length s"
  by (induction s arbitrary: e) (fastforce split: if_splits)+

function tpl_pieces :: "string \<Rightarrow> piece list option" where
  "tpl_pieces [] = Some []"
| "tpl_pieces (c # cs) =
     (if HasPrefix (c # cs) ''{{'' then
        (case split_close (drop 2 (c # cs)) of
           None \<Rightarrow> None
         | Some (a, rest) \<Rightarrow>
             (case field_of a of
                None \<Rightarrow> None
              | Some f \<Rightarrow> map_option (\<lambda>ps. Field f # ps) (tpl_pieces rest)))
      else map_option (\<lambda>ps. Lit c # ps) (tpl_pieces cs))"
  by pat_completeness auto
termination
  by (relation "measure length") (auto dest!: split_close_length)

declare tpl_pieces.simps(2) [simp del]

definition sprint_map :: "(string, string) gomap \<Rightarrow> string" where
  "sprint_map m =
     ''map['' @ join '' '' (map (\<lambda>k. k @ '':'' @ mgetd [] m k) (sort (mkeys m))) @ '']''"

text \<open>A missing key prints as \<open><no value>\<close>; a field of a string is an execution error.\<close>

definition exec_field :: "tpl_data \<Rightarrow> string list \<Rightarrow> string option" where
  "exec_field d f =
     (case f of
        [] \<Rightarrow> None
      | [a] \<Rightarrow>
          if a = ''path'' then Some (td_path d)
          else if a = ''host'' then Some (td_host d)
          else if a = ''query'' then Some (sprint_map (td_query d))
          else Some ''<no value>''
      | a # b # rest \<Rightarrow>
          if a = ''path'' \<or> a = ''host'' then None
          else if a = ''query'' then
            (case mget (td_query d) b of
               None \<Rightarrow> Some ''<no value>''
             | Some v \<Rightarrow> if rest = [] then Some v else None)
          else Some ''<no value>'')"

fun exec_pieces :: "tpl_data \<Rightarrow> piece list \<Rightarrow> string option" where
  "exec_pieces d [] = Some []"
| "exec_pieces d (Lit c # ps) = map_option (\<lambda>out. c # out) (exec_pieces d ps)"
| "exec_pieces d (Field f # ps) =
     (case exec_field d f of
        None \<Rightarrow> None
      | Some v \<Rightarrow> map_option (\<lambda>out. v @ out) (exec_pieces d ps))"

text \<open>Parsing and executing a template; \<open>None\<close> is an error of either.\<close>

definition run_template :: "script_host \<Rightarrow> string \<Rightarrow> tpl_data \<Rightarrow> string option" where
  "run_template E s d =
     (case tpl_pieces s of None \<Rightarrow> sx_template E s d | Some ps \<Rightarrow> exec_pieces d ps)"

definition applyTpl :: "script_host \<Rightarrow> string \<Rightarrow> request option \<Rightarrow> string" where
  "applyTpl E s req =
     (case req of
        None \<Rightarrow> s
      | Some r \<Rightarrow>
          if s = [] then s
          else
            let d = \<lparr>td_path = req_Path r, td_query = queryMap (sx_order E) r, td_host = req_Host r\<rparr>;
                s = replace_vars s
            in if \<not> Contains s ''{{'' then s
               else (case run_template E s d of None \<Rightarrow> s | Some out \<Rightarrow> out))"

definition evalBody :: "script_host \<Rightarrow> string \<Rightarrow> bool \<Rightarrow> request option \<Rightarrow> string" where
  "evalBody E s whole req =
     (let s = (if whole then (case runProgram E s req of Some out \<Rightarrow> out | None \<Rightarrow> s)
               else replace_markers (\<lambda>e. evalExpr E e req) s)
      in applyTpl E s req)"

definition evalJSONValue :: "script_host \<Rightarrow> string \<Rightarrow> request option \<Rightarrow> string" where
  "evalJSONValue E v req =
     (if HasPrefix v ''='' then
        (case evalExpr E (TrimSpace (drop 1 v)) req of Some out \<Rightarrow> out | None \<Rightarrow> v)
      else evalBody E v False req)"

section \<open>Mock responses\<close>

definition renderRule :: "script_host \<Rightarrow> rule \<Rightarrow> request option \<Rightarrow> response" where
  "renderRule E r req =
     (let status = (if ru_Status r = 0 then 200 else ru_Status r);
          src = (if ru_Script r \<noteq> [] then ru_Script r else ru_Body r);
          whole = (ru_Script r \<noteq> []);
          body = evalBody E src whole req;
          ct = (if ru_Type r = [] then ''application/json'' else ru_Type r)
      in \<lparr>rs_StatusCode = status, rs_Proto = ''HTTP/1.1'', rs_ProtoMajor = 1, rs_ProtoMinor = 1,
          rs_Header = Header_Set ''Content-Type'' ct [], rs_Body = body,
          rs_ContentLength = int (length body)\<rparr>)"

definition Match :: "unicode \<Rightarrow> script_host \<Rightarrow> rule_engine \<Rightarrow> string \<Rightarrow> request \<Rightarrow> response option" where
  "Match u E e host req =
     (case matchRule u e host req of
        None \<Rightarrow> None
      | Some r \<Rightarrow> if EqualFold u (ru_Action r) ''rewrite'' then None else Some (renderRule E r (Some req)))"

end
