(* ===== verification/Render.thy ===== *)
theory Render
  imports Script
begin

text \<open>
  What bodies evaluate to: the markers and templates of the documentation are replaced by what they name,
  a script that fails leaves its text, and a mock response carries exactly the evaluated body.
\<close>

section \<open>Markers\<close>

lemma marker_at_split: "marker_at s = Some (t, e, rest) \<Longrightarrow> t @ rest = s"
proof -
  assume a: "marker_at s = Some (t, e, rest)"
  then have f: "find_close (dropWhile re_space (drop 9 s)) = Some (e, rest)"
    and t: "t = take (length s - length rest) s"
    by (auto simp: marker_at_def split: if_splits)
  have "suffix rest (dropWhile re_space (drop 9 s))"
    using find_close_split [OF f] by (simp add: suffix_def)
  then have "suffix rest s"
    by (meson suffix_dropWhile suffix_drop suffix_order.order_trans)
  then obtain u where "s = u @ rest" by (auto simp: suffix_def)
  with t show ?thesis by simp
qed

lemma HasPrefix_Cons_neq: "c \<noteq> d \<Longrightarrow> \<not> HasPrefix (c # cs) (d # ds)"
  by (simp add: HasPrefix_def)

lemma HasPrefix_append_iff [simp]: "HasPrefix (p @ s) (p @ t) = HasPrefix s t"
  by (simp add: HasPrefix_iff_prefix)

lemma HasPrefix_self [simp]: "HasPrefix (p @ s) p"
  by (simp add: HasPrefix_iff_prefix)

text \<open>
  Text that cannot be taken for the start of a marker or an action, wherever it stands: no two braces in
  a row, and no brace at its end.
\<close>

fun plain :: "string \<Rightarrow> bool" where
  "plain [] \<longleftrightarrow> True"
| "plain (c # cs) \<longleftrightarrow> (if c = CHR ''{'' then cs \<noteq> [] \<and> hd cs \<noteq> CHR ''{'' else True) \<and> plain cs"

lemma plain_no_brace: "CHR ''{'' \<notin> set p \<Longrightarrow> plain p"
  by (induction p) auto

lemma plain_not_open: "plain (c # cs) \<Longrightarrow> \<not> HasPrefix (c # cs @ s) (CHR ''{'' # CHR ''{'' # x)"
  by (cases cs) (auto simp: HasPrefix_def split: if_splits)

lemma marker_at_plain: "plain (c # cs) \<Longrightarrow> marker_at (c # cs @ s) = None"
  by (simp add: marker_at_def plain_not_open del: plain.simps)

lemma marker_at_neq: "c \<noteq> CHR ''{'' \<Longrightarrow> marker_at (c # cs) = None"
  by (simp add: marker_at_def HasPrefix_Cons_neq)

lemma replace_markers_none: "replace_markers (\<lambda>_. None) s = s"
proof (induction "\<lambda>_ :: string. None :: string option" s rule: replace_markers.induct)
  case (2 c cs)
  then show ?case
    by (subst replace_markers.simps) (auto split: option.splits dest: marker_at_split)
qed simp

text \<open>Evaluators that agree on the expressions of a body give the same body; failures keep the text.\<close>

lemma replace_markers_text: "plain p \<Longrightarrow> replace_markers ev (p @ s) = p @ replace_markers ev s"
proof (induction p)
  case (Cons c cs)
  then show ?case using marker_at_plain [of c cs s] by (simp add: replace_markers.simps(2))
qed simp

lemma code_newline: "code_of c = 10 \<longleftrightarrow> c = CHR ''\<newline>''"
proof -
  have "code_of c = code_of (CHR ''\<newline>'') \<longleftrightarrow> c = CHR ''\<newline>''" by (rule of_char_eq_iff)
  then show ?thesis by simp
qed

lemma find_close_append:
  "CHR ''}'' \<notin> set e \<Longrightarrow> CHR ''\<newline>'' \<notin> set e \<Longrightarrow> find_close (e @ ''}}'' @ rest) = Some (e, rest)"
proof (induction e)
  case Nil
  then show ?case by (simp add: HasPrefix_def)
next
  case (Cons c e)
  then show ?case by (auto simp: HasPrefix_Cons_neq code_newline)
qed


lemma is_space_re_space: "re_space c \<Longrightarrow> is_space (code_of c)"
  by (auto simp: re_space_def is_space_def)

lemma dropWhile_dropWhile_weaker:
  "(\<And>x. P x \<Longrightarrow> Q x) \<Longrightarrow> dropWhile Q (dropWhile P xs) = dropWhile Q xs"
  by (induction xs) auto

lemma TrimSpace_re_space:
  assumes "is_ascii e"
  shows "TrimSpace (dropWhile re_space e) = TrimSpace e"
proof -
  have "is_ascii (dropWhile re_space e)"
    using assms by (auto simp: is_ascii_def dest: set_dropWhileD)
  then show ?thesis
    using assms
    by (simp add: TrimSpace_ascii dropWhile_dropWhile_weaker is_space_re_space)
qed

text \<open>The expression of a marker that the documentation describes: one line of text without a brace.\<close>

definition marker_expr :: "string \<Rightarrow> bool" where
  "marker_expr e \<longleftrightarrow> is_ascii e \<and> CHR ''}'' \<notin> set e \<and> CHR ''\<newline>'' \<notin> set e"

lemma marker_at_marker:
  assumes "marker_expr e"
  shows "marker_at (''{{script:'' @ e @ ''}}'' @ rest) = Some (''{{script:'' @ e @ ''}}'', dropWhile re_space e, rest)"
proof -
  have nb: "\<not> re_space CHR ''}''" by (simp add: re_space_def)
  have "dropWhile re_space (e @ ''}}'' @ rest) = dropWhile re_space e @ ''}}'' @ rest"
  proof (cases "\<forall>c \<in> set e. re_space c")
    case True
    then have "dropWhile re_space e = []" by simp
    with True nb show ?thesis by (simp add: dropWhile_append2)
  next
    case False
    then show ?thesis by (metis dropWhile_append1)
  qed
  moreover have "CHR ''}'' \<notin> set (dropWhile re_space e)" "CHR ''\<newline>'' \<notin> set (dropWhile re_space e)"
    using assms by (auto simp: marker_expr_def dest: set_dropWhileD)
  ultimately have "find_close (dropWhile re_space (e @ ''}}'' @ rest)) = Some (dropWhile re_space e, rest)"
    using find_close_append by metis
  then have "find_close (dropWhile re_space (drop 9 (''{{script:'' @ e @ ''}}'' @ rest)))
      = Some (dropWhile re_space e, rest)" by simp
  moreover have "take (length (t @ rest) - length rest) (t @ rest) = t" for t :: string
    by simp
  from this [of "''{{script:'' @ e @ ''}}''"]
  have "take (length (''{{script:'' @ e @ ''}}'' @ rest) - length rest) (''{{script:'' @ e @ ''}}'' @ rest)
      = ''{{script:'' @ e @ ''}}''" by (simp only: append_assoc)
  moreover have "HasPrefix (''{{script:'' @ e @ ''}}'' @ rest) ''{{script:''"
    by (rule HasPrefix_self)
  ultimately show ?thesis by (simp only: marker_at_def if_True option.map prod.case)
qed

lemma replace_markers_Some:
  "marker_at s = Some (t, e, rest) \<Longrightarrow> replace_markers ev s =
    (case ev (TrimSpace e) of None \<Rightarrow> t | Some out \<Rightarrow> out) @ replace_markers ev rest"
  by (cases s) (simp_all add: replace_markers.simps(2) marker_at_def HasPrefix_def)

lemma replace_markers_marker:
  assumes "marker_expr e"
  shows "replace_markers ev (''{{script:'' @ e @ ''}}'' @ rest) =
    (case ev (TrimSpace e) of None \<Rightarrow> ''{{script:'' @ e @ ''}}'' | Some out \<Rightarrow> out) @ replace_markers ev rest"
  using replace_markers_Some [OF marker_at_marker [OF assms]] assms
  by (simp only: TrimSpace_re_space marker_expr_def)

text \<open>A template action is no marker.\<close>

lemma replace_markers_actions:
  "replace_markers ev (''{{path}}'' @ s) = ''{{path}}'' @ replace_markers ev s"
  "replace_markers ev (''{{host}}'' @ s) = ''{{host}}'' @ replace_markers ev s"
  "replace_markers ev (''{{query.'' @ s) = ''{{query.'' @ replace_markers ev s"
  by (simp_all add: replace_markers.simps(2) marker_at_def HasPrefix_def)

section \<open>Templates\<close>

lemma replace_vars_text: "plain p \<Longrightarrow> replace_vars (p @ s) = p @ replace_vars s"
proof (induction p)
  case (Cons c cs)
  then show ?case using plain_not_open [of c cs s] by (simp add: replace_vars.simps(2))
qed simp

lemma replace_vars_actions:
  "replace_vars (''{{path}}'' @ s) = ''{{.path}}'' @ replace_vars s"
  "replace_vars (''{{host}}'' @ s) = ''{{.host}}'' @ replace_vars s"
  "replace_vars (''{{query.'' @ s) = ''{{.query.'' @ replace_vars s"
  by (simp_all add: replace_vars.simps(2) HasPrefix_def)

lemma tpl_pieces_text:
  "plain p \<Longrightarrow> tpl_pieces (p @ s) = map_option (\<lambda>ps. map Lit p @ ps) (tpl_pieces s)"
proof (induction p)
  case Nil
  then show ?case by (cases "tpl_pieces s") auto
next
  case (Cons c cs)
  then show ?case using plain_not_open [of c cs s]
    by (cases "tpl_pieces s") (simp_all add: tpl_pieces.simps(2))
qed

lemma split_close_append:
  "CHR ''}'' \<notin> set a \<Longrightarrow> split_close (a @ ''}}'' @ s) = Some (a, s)"
  by (induction a) (auto simp: HasPrefix_def)

lemma tpl_pieces_action:
  assumes "CHR ''}'' \<notin> set a" "field_of a = Some f"
  shows "tpl_pieces (''{{'' @ a @ ''}}'' @ s) = map_option (\<lambda>ps. Field f # ps) (tpl_pieces s)"
  using assms split_close_append [OF assms(1), of s]
  by (simp add: tpl_pieces.simps(2) HasPrefix_def)

lemma exec_pieces_lits: "exec_pieces d (map Lit p @ ps) = map_option (\<lambda>out. p @ out) (exec_pieces d ps)"
  by (cases "exec_pieces d ps"; induction p) auto

lemma tpl_pieces_no_action: "\<not> Contains s ''{{'' \<Longrightarrow> tpl_pieces s = Some (map Lit s)"
  by (induction s) (auto simp: tpl_pieces.simps(2))

text \<open>The short cut for bodies without an action agrees with the template engine.\<close>

lemma applyTpl_run:
  "applyTpl E s (Some r) =
     (let d = \<lparr>td_path = req_Path r, td_query = queryMap (sx_order E) r, td_host = req_Host r\<rparr>
      in case run_template E (replace_vars s) d of None \<Rightarrow> replace_vars s | Some out \<Rightarrow> out)"
proof (cases "Contains (replace_vars s) ''{{''")
  case True
  then have "s \<noteq> []" by auto
  with True show ?thesis by (simp add: applyTpl_def Let_def)
next
  case False
  have "exec_pieces d (map Lit p) = Some p" for d p
    using exec_pieces_lits [of d p "[]"] by simp
  with False show ?thesis
    by (simp add: applyTpl_def Let_def run_template_def tpl_pieces_no_action)
qed

lemma field_of_query:
  assumes "is_ident k"
  shows "field_of (''.query.'' @ k) = Some [''query'', k]"
proof -
  have id: "ident_start c \<or> is_digit c" if "c \<in> set k" for c
    using assms that by (simp add: is_ident_def list_all_iff)
  have "CHR ''.'' \<notin> set k"
    using id [of "CHR ''.''"] by (auto simp: ident_start_def is_digit_def)
  then have sp: "split_on CHR ''.'' (''query.'' @ k) = [''query'', k]"
    by (simp add: split_on_no_sep)
  have "\<not> tpl_space (last k)"
    using id [of "last k"] assms by (auto simp: is_ident_def tpl_space_def ident_start_def is_digit_def)
  then have "dropWhile tpl_space (rev k @ xs) = rev k @ xs" for xs
    using assms by (cases k rule: rev_cases) (auto simp: is_ident_def)
  then have "rev (dropWhile tpl_space (rev (dropWhile tpl_space (''.query.'' @ k)))) = ''.query.'' @ k"
    by (simp add: tpl_space_def)
  moreover have "is_ident ''query''" by (simp add: is_ident_def ident_start_def)
  ultimately show ?thesis using assms sp by (simp add: field_of_def)
qed

lemma field_of_simple: "field_of ''.path'' = Some [''path'']" "field_of ''.host'' = Some [''host'']"
  by (simp_all add: field_of_def tpl_space_def is_ident_def ident_start_def)


section \<open>Bodies\<close>

text \<open>
  The bodies of the documentation: text, inline scripts, and the three template forms; the source text
  of a body and what it stands for.
\<close>

datatype seg = Txt string | Inline string | TPath | THost | TQuery string

fun seg_src :: "seg \<Rightarrow> string" where
  "seg_src (Txt t) = t"
| "seg_src (Inline e) = ''{{script:'' @ e @ ''}}''"
| "seg_src TPath = ''{{path}}''"
| "seg_src THost = ''{{host}}''"
| "seg_src (TQuery k) = ''{{query.'' @ k @ ''}}''"

fun seg_ok :: "script_host \<Rightarrow> request \<Rightarrow> seg \<Rightarrow> bool" where
  "seg_ok E r (Txt t) \<longleftrightarrow> plain t"
| "seg_ok E r (Inline e) \<longleftrightarrow> marker_expr e \<and>
     (case evalExpr E (TrimSpace e) (Some r) of None \<Rightarrow> False | Some out \<Rightarrow> plain out)"
| "seg_ok E r (TQuery k) \<longleftrightarrow> is_ident k"
| "seg_ok E r _ \<longleftrightarrow> True"

text \<open>After the scripts have run: an inline script has become its result.\<close>

fun seg_run :: "script_host \<Rightarrow> request \<Rightarrow> seg \<Rightarrow> string" where
  "seg_run E r (Inline e) = (case evalExpr E (TrimSpace e) (Some r) of None \<Rightarrow> [] | Some out \<Rightarrow> out)"
| "seg_run E r s = seg_src s"

fun seg_out :: "script_host \<Rightarrow> request \<Rightarrow> seg \<Rightarrow> string" where
  "seg_out E r TPath = req_Path r"
| "seg_out E r THost = req_Host r"
| "seg_out E r (TQuery k) =
     (case mget (queryMap (sx_order E) r) k of None \<Rightarrow> ''<no value>'' | Some v \<Rightarrow> v)"
| "seg_out E r s = seg_run E r s"

fun seg_piece :: "script_host \<Rightarrow> request \<Rightarrow> seg \<Rightarrow> piece list" where
  "seg_piece E r TPath = [Field [''path'']]"
| "seg_piece E r THost = [Field [''host'']]"
| "seg_piece E r (TQuery k) = [Field [''query'', k]]"
| "seg_piece E r s = map Lit (seg_run E r s)"

fun seg_tpl :: "script_host \<Rightarrow> request \<Rightarrow> seg \<Rightarrow> string" where
  "seg_tpl E r TPath = ''{{.path}}''"
| "seg_tpl E r THost = ''{{.host}}''"
| "seg_tpl E r (TQuery k) = ''{{.query.'' @ k @ ''}}''"
| "seg_tpl E r s = seg_run E r s"

lemma ident_no_close: "is_ident k \<Longrightarrow> CHR ''}'' \<notin> set k"
  by (auto simp: is_ident_def list_all_iff ident_start_def is_digit_def)

lemma ident_plain: "is_ident k \<Longrightarrow> plain (k @ ''}}'')"
  by (rule plain_no_brace) (auto simp: is_ident_def list_all_iff ident_start_def is_digit_def)

lemma replace_markers_seg:
  assumes "seg_ok E r x"
  shows "replace_markers (\<lambda>e. evalExpr E e (Some r)) (seg_src x @ s) =
    seg_run E r x @ replace_markers (\<lambda>e. evalExpr E e (Some r)) s"
proof (cases x)
  case (Inline e)
  with assms show ?thesis
    using replace_markers_marker [of e "\<lambda>e. evalExpr E e (Some r)" s]
    by (auto split: option.splits)
next
  case (TQuery k)
  then have "plain (k @ ''}}'')" using assms by (simp add: ident_plain)
  from replace_markers_text [OF this]
  show ?thesis using TQuery replace_markers_actions(3) [of _ "k @ ''}}'' @ s"] by simp
qed (use assms replace_markers_text replace_markers_actions [of _ s] in \<open>auto\<close>)

lemma replace_vars_seg:
  assumes "seg_ok E r x"
  shows "replace_vars (seg_run E r x @ s) = seg_tpl E r x @ replace_vars s"
proof (cases x)
  case (Inline e)
  with assms show ?thesis by (auto simp: replace_vars_text split: option.splits)
next
  case (TQuery k)
  then have "plain (k @ ''}}'')" using assms by (simp add: ident_plain)
  from replace_vars_text [OF this]
  show ?thesis using TQuery replace_vars_actions(3) [of "k @ ''}}'' @ s"] by simp
qed (use assms replace_vars_text replace_vars_actions [of s] in \<open>auto\<close>)

lemma tpl_pieces_seg:
  assumes "seg_ok E r x"
  shows "tpl_pieces (seg_tpl E r x @ s) = map_option (\<lambda>ps. seg_piece E r x @ ps) (tpl_pieces s)"
proof (cases x)
  case (Inline e)
  with assms show ?thesis by (auto simp: tpl_pieces_text split: option.splits)
next
  case (TQuery k)
  with assms have k: "is_ident k" by simp
  then have "CHR ''}'' \<notin> set (''.query.'' @ k)" using ident_no_close by simp
  from tpl_pieces_action [OF this field_of_query [OF k], of s] show ?thesis by (simp add: TQuery)
next
  case TPath
  then show ?thesis using tpl_pieces_action [of "''.path''" "[''path'']" s] by (simp add: field_of_simple)
next
  case THost
  then show ?thesis using tpl_pieces_action [of "''.host''" "[''host'']" s] by (simp add: field_of_simple)
qed (use assms tpl_pieces_text in \<open>auto\<close>)

lemma exec_pieces_seg:
  assumes d: "d = \<lparr>td_path = req_Path r, td_query = queryMap (sx_order E) r, td_host = req_Host r\<rparr>"
  shows "exec_pieces d (seg_piece E r x @ ps) = map_option (\<lambda>out. seg_out E r x @ out) (exec_pieces d ps)"
  by (cases x) (auto simp: exec_pieces_lits exec_field_def d split: option.splits)

lemma body_src:
  assumes "list_all (seg_ok E r) xs"
  shows "replace_markers (\<lambda>e. evalExpr E e (Some r)) (concat (map seg_src xs)) = concat (map (seg_run E r) xs)"
    and "replace_vars (concat (map (seg_run E r) xs)) = concat (map (seg_tpl E r) xs)"
    and "tpl_pieces (concat (map (seg_tpl E r) xs)) = Some (concat (map (seg_piece E r) xs))"
  using assms
  by (induction xs) (simp_all add: replace_markers_seg replace_vars_seg tpl_pieces_seg)


lemma exec_segs:
  assumes "d = \<lparr>td_path = req_Path r, td_query = queryMap (sx_order E) r, td_host = req_Host r\<rparr>"
  shows "exec_pieces d (concat (map (seg_piece E r) xs)) = Some (concat (map (seg_out E r) xs))"
  by (induction xs) (simp_all add: exec_pieces_seg [OF assms])

text \<open>A body whose script or template fails.\<close>

lemma evalBody_no_script:
  "(\<And>e. evalExpr E e req = None) \<Longrightarrow> evalBody E s False req = applyTpl E s req"
  by (simp add: evalBody_def replace_markers_none)

section \<open>The query\<close>

lemma mget_queryMap:
  assumes "is_map_order ord"
  shows "mget (queryMap ord r) k =
    (case mgetd [] (parse_query (req_RawQuery r)) k of [] \<Rightarrow> None | v # _ \<Rightarrow> Some v)"
proof -
  define q where "q = parse_query (req_RawQuery r)"
  have step: "mget (fold (\<lambda>k m. case mgetd [] q k of [] \<Rightarrow> m | v # _ \<Rightarrow> mput k v m) ks m) k =
      (if k \<in> set ks then (case mgetd [] q k of [] \<Rightarrow> mget m k | v # _ \<Rightarrow> Some v) else mget m k)" for ks m
    by (induction ks arbitrary: m) (auto split: list.splits)
  have "k \<notin> set (mkeys q) \<Longrightarrow> mgetd [] q k = []"
    by (simp add: mgetd_def flip: mget_None_iff)
  then show ?thesis
    using step [of "ord (mkeys q)" "[]"] assms
    by (auto simp: queryMap_def q_def [symmetric] Let_def split: list.splits)
qed

section \<open>Properties\<close>

text \<open>
  C30: a mock or rewrite body written as the documentation describes (plain text, inline scripts of one ASCII
  line without a closing brace, \<open>{{path}}\<close>, \<open>{{host}}\<close> and \<open>{{query.k}}\<close>), all of whose scripts succeed, with text
  and results that have no two opening braces in a row and none at the end, evaluates to the same text with
  every script replaced by its result and every template by the request's value, whatever the text engine does
  on templates outside that fragment; the values of the request are not expanded again. (The result of a
  script that holds a template is, and the marker of a script that fails stays.)
\<close>

theorem evalBody_documented:
  assumes "list_all (seg_ok E r) xs"
  shows "evalBody E (concat (map seg_src xs)) False (Some r) = concat (map (seg_out E r) xs)"
  using assms exec_segs [OF refl, of r E xs]
  by (simp add: evalBody_def body_src applyTpl_run run_template_def Let_def)

text \<open>A request and a script host for the examples: every expression evaluates to a date.\<close>

definition ex_host :: script_host where
  "ex_host = \<lparr>sx_eval = (\<lambda>th env src. if src = ''date(0)'' then Some (SString ''2030-01-01'') else None),
     sx_exec = (\<lambda>th env src. None), sx_now = 0, sx_float = (\<lambda>x. []), sx_sprint = (\<lambda>v. []),
     sx_template = (\<lambda>s d. None), sx_order = (\<lambda>ks. ks)\<rparr>"

definition ex_request :: request where
  "ex_request = \<lparr>req_Method = ''GET'', req_Path = ''/v1'', req_RawQuery = ''id=7'', req_Host = ''h'',
     req_Header = [], req_Body = None, req_ContentLength = 0, req_GetBody = None\<rparr>"

theorem evalBody_documented_witness:
  "evalBody ex_host (concat (map seg_src
      [Txt ''{e:'', Inline '' date(0)'', Txt ''}'', TPath, THost])) False (Some ex_request)
   = ''{e:2030-01-01}/v1h''"
proof -
  have t: "TrimSpace '' date(0)'' = ''date(0)''"
    by (simp add: TrimSpace_ascii is_space_def)
  have e: "evalExpr ex_host (TrimSpace '' date(0)'') (Some ex_request) = Some ''2030-01-01''"
    unfolding t by (simp add: evalExpr_def ex_host_def stringify_def)
  have h: "list_all (seg_ok ex_host ex_request)
      [Txt ''{e:'', Inline '' date(0)'', Txt ''}'', TPath, THost]"
    using e by (simp add: marker_expr_def)
  show ?thesis
    unfolding evalBody_documented [OF h] using e by (simp add: ex_request_def)
qed

text \<open>
  A script that fails leaves the text of its body as it was, except that the template forms in the
  same body have already been rewritten to template actions: when the template engine rejects the body
  (an unevaluated marker is not a template) the result is the rewritten text.
\<close>

theorem failed_script_leaves_rewritten_text:
  assumes "\<forall>e. evalExpr E e (Some r) = None"
    and "run_template E (replace_vars s)
      \<lparr>td_path = req_Path r, td_query = queryMap (sx_order E) r, td_host = req_Host r\<rparr> = None"
  shows "evalBody E s False (Some r) = replace_vars s"
  using assms evalBody_no_script [of E "Some r" s] by (simp add: applyTpl_run Let_def)

text \<open>A script host on which every script and every template outside the fragment fails.\<close>

definition ex_failing_host :: script_host where
  "ex_failing_host = \<lparr>sx_eval = (\<lambda>th env src. None), sx_exec = (\<lambda>th env src. None), sx_now = 0,
     sx_float = (\<lambda>x. []), sx_sprint = (\<lambda>v. []), sx_template = (\<lambda>s d. None), sx_order = (\<lambda>ks. ks)\<rparr>"

theorem failed_script_leaves_rewritten_text_witness:
  "evalBody ex_failing_host ''{{path}} {{script: date(}}'' False (Some ex_request) = ''{{.path}} {{script: date(}}''"
proof -
  have v: "replace_vars ''{{path}} {{script: date(}}'' = ''{{.path}} {{script: date(}}''"
    by (simp add: replace_vars.simps(2) HasPrefix_def)
  have p: "tpl_pieces ''{{.path}} {{script: date(}}'' = None"
    by (simp add: tpl_pieces.simps(2) HasPrefix_def field_of_def tpl_space_def is_ident_def ident_start_def)
  have t: "run_template ex_failing_host (replace_vars ''{{path}} {{script: date(}}'') d = None" for d
    unfolding v run_template_def p by (simp add: ex_failing_host_def)
  have e: "\<forall>e. evalExpr ex_failing_host e (Some ex_request) = None"
    by (simp add: evalExpr_def ex_failing_host_def)
  show ?thesis
    unfolding failed_script_leaves_rewritten_text [OF e t] by (rule v)
qed

end
