(* ===== verification/Go_Utf8.thy ===== *)
theory Go_Utf8
  imports Go_Text
begin

text \<open>
  Facts on UTF-8: decoding is undone by encoding on every valid code point, and does not look past it.
\<close>

lemma char_of_code_add: "code_of c = k + x \<Longrightarrow> char_of (k + x) = c"
  by (metis char_of_char)

text \<open>The digits of a number in base 64.\<close>

lemma base64_digits:
  assumes "y < (64::nat)"
  shows "(x * 64 + y) div 64 = x" "(x * 64 + y) mod 64 = y"
  using assms by auto

lemma cont_split: "cont c lo hi \<Longrightarrow> 0x80 \<le> lo \<Longrightarrow> hi \<le> 0xBF \<Longrightarrow> \<exists>y < 64. code_of c = 0x80 + y \<and> char_of (0x80 + y) = c"
proof -
  assume "cont c lo hi" "0x80 \<le> lo" "hi \<le> 0xBF"
  then have "0x80 \<le> code_of c" "code_of c \<le> 0xBF" by (auto simp: cont_def)
  then have "code_of c = 0x80 + (code_of c - 0x80)" "code_of c - 0x80 < 64" by auto
  then show ?thesis using char_of_code_add by blast
qed

lemma second_range_bounds: "0x80 \<le> fst (second_range b)" "snd (second_range b) \<le> 0xBF"
  by (auto simp: second_range_def)

lemma decode_rune_sizes:
  assumes "decode_rune (c # cs) = (r, n)"
  shows "1 \<le> n" "n \<le> Suc (length cs)"
  using assms by (auto simp: decode_rune.simps(2) Let_def split: if_splits list.splits prod.splits)

text \<open>The decoder does not look past the code point.\<close>

lemma decode_rune_append:
  assumes "decode_rune (c # cs) = (r, n)" "\<not> (r = rune_error \<and> n = 1)"
  shows "decode_rune (c # take (n - 1) cs @ t) = (r, n)"
  using assms by (auto simp: decode_rune.simps(2) Let_def split: if_splits list.splits prod.splits)

lemma encode_decode_two:
  assumes "decode_rune (c # cs) = (r, n)" "\<not> (r = rune_error \<and> n = 1)" "0xC2 \<le> code_of c" "code_of c \<le> 0xDF"
  shows "encode_rune r = c # take (n - 1) cs"
proof -
  define b where "b = code_of c"
  have c: "c = char_of b" and b: "0xC2 \<le> b" "b \<le> 0xDF" by (simp_all add: b_def assms)
  obtain lo hi where lh: "second_range b = (lo, hi)" by (cases "second_range b")
  obtain x where x: "b = 0xC0 + x" "2 \<le> x" "x < 32" using b le_Suc_ex[of "0xC0" b] by auto
  obtain c1 cs' where cs: "cs = c1 # cs'" and k: "cont c1 lo hi"
    using assms(1,2) b by (auto simp: decode_rune.simps(2) Let_def lh b_def [symmetric] split: if_splits list.splits)
  obtain y where y: "y < 64" "code_of c1 = 0x80 + y" "char_of (0x80 + y) = c1"
    using cont_split [OF k] second_range_bounds [of b] lh by auto
  have "r = x * 64 + y" "n = 2"
    using assms(1,2) b k cs x y lh by (simp_all add: decode_rune.simps(2) Let_def b_def [symmetric])
  moreover have "x * 64 + y < 0x800" "\<not> x * 64 + y < 0x80" using x y by auto
  ultimately show ?thesis
    using x y by (simp add: encode_rune_def Let_def base64_digits c cs)
qed

lemma encode_decode_three:
  assumes "decode_rune (c # cs) = (r, n)" "\<not> (r = rune_error \<and> n = 1)" "0xE0 \<le> code_of c" "code_of c \<le> 0xEF"
  shows "encode_rune r = c # take (n - 1) cs"
proof -
  define b where "b = code_of c"
  have c: "c = char_of b" and b: "0xE0 \<le> b" "b \<le> 0xEF" by (simp_all add: b_def assms)
  obtain lo hi where lh: "second_range b = (lo, hi)" by (cases "second_range b")
  obtain x where x: "b = 0xE0 + x" "x < 16" using b le_Suc_ex[of "0xE0" b] by auto
  obtain c1 c2 cs' where cs: "cs = c1 # c2 # cs'" and k: "cont c1 lo hi" "cont c2 0x80 0xBF"
    using assms(1,2) b by (auto simp: decode_rune.simps(2) Let_def lh b_def [symmetric] split: if_splits list.splits)
  obtain y where y: "y < 64" "code_of c1 = 0x80 + y" "char_of (0x80 + y) = c1"
    using cont_split [OF k(1)] second_range_bounds [of b] lh by auto
  obtain z where z: "z < 64" "code_of c2 = 0x80 + z" "char_of (0x80 + z) = c2"
    using cont_split [OF k(2)] by auto
  have r: "r = (x * 64 + y) * 64 + z" "n = 3"
    using assms(1,2) b k cs x y z lh by (simp_all add: decode_rune.simps(2) Let_def b_def [symmetric])
  have lo: "x = 0 \<Longrightarrow> 32 \<le> y" "x = 13 \<Longrightarrow> y < 32"
    using k(1) lh x y by (auto simp: cont_def second_range_def split: if_splits)
  have big: "\<not> r < 0x800" using lo(1) r by (cases "x = 0") auto
  have small: "r < 0x10000" using x y z r by auto
  have sur: "\<not> (0xD800 \<le> r \<and> r \<le> 0xDFFF)"
  proof
    assume "0xD800 \<le> r \<and> r \<le> 0xDFFF"
    with r y z have "x = 13" by auto
    with lo(2) r z \<open>0xD800 \<le> r \<and> r \<le> 0xDFFF\<close> show False by auto
  qed
  have q: "r div 64 = x * 64 + y" "r mod 64 = z"
    unfolding r(1) by (rule base64_digits [OF z(1)])+
  have d: "r div 4096 = x" "r div 64 mod 64 = y" "r mod 64 = z"
    using q base64_digits [OF y(1), of x] div_mult2_eq [of r 64 64] by simp_all
  show ?thesis
    using big small sur d x y z r(2) by (auto simp: encode_rune_def Let_def c cs)
qed

lemma encode_decode_four:
  assumes "decode_rune (c # cs) = (r, n)" "\<not> (r = rune_error \<and> n = 1)" "0xF0 \<le> code_of c" "code_of c \<le> 0xF4"
  shows "encode_rune r = c # take (n - 1) cs"
proof -
  define b where "b = code_of c"
  have c: "c = char_of b" and b: "0xF0 \<le> b" "b \<le> 0xF4" by (simp_all add: b_def assms)
  obtain lo hi where lh: "second_range b = (lo, hi)" by (cases "second_range b")
  obtain x where x: "b = 0xF0 + x" "x < 5" using b le_Suc_ex[of "0xF0" b] by auto
  obtain c1 c2 c3 cs' where cs: "cs = c1 # c2 # c3 # cs'"
    and k: "cont c1 lo hi" "cont c2 0x80 0xBF" "cont c3 0x80 0xBF"
    using assms(1,2) b by (auto simp: decode_rune.simps(2) Let_def lh b_def [symmetric] split: if_splits list.splits)
  obtain y where y: "y < 64" "code_of c1 = 0x80 + y" "char_of (0x80 + y) = c1"
    using cont_split [OF k(1)] second_range_bounds [of b] lh by auto
  obtain z where z: "z < 64" "code_of c2 = 0x80 + z" "char_of (0x80 + z) = c2"
    using cont_split [OF k(2)] by auto
  obtain w where w: "w < 64" "code_of c3 = 0x80 + w" "char_of (0x80 + w) = c3"
    using cont_split [OF k(3)] by auto
  have r: "r = ((x * 64 + y) * 64 + z) * 64 + w" "n = 4"
    using assms(1,2) b k cs x y z w lh by (simp_all add: decode_rune.simps(2) Let_def b_def [symmetric])
  have lo: "x = 0 \<Longrightarrow> 16 \<le> y" "x = 4 \<Longrightarrow> y < 16"
    using k(1) lh x y by (auto simp: cont_def second_range_def split: if_splits)
  have big: "\<not> r < 0x10000" using lo(1) r by (cases "x = 0") auto
  have small: "r \<le> 0x10FFFF"
  proof (cases "x = 4")
    case True with lo(2) r z w show ?thesis by auto
  next
    case False with x r y z w show ?thesis by auto
  qed
  have q: "r div 64 = (x * 64 + y) * 64 + z" "r mod 64 = w"
    unfolding r(1) by (rule base64_digits [OF w(1)])+
  have q2: "r div 4096 = x * 64 + y"
    using q base64_digits(1) [OF z(1), of "x * 64 + y"] div_mult2_eq [of r 64 64] by simp
  have d: "r div 262144 = x" "r div 4096 mod 64 = y" "r div 64 mod 64 = z" "r mod 64 = w"
    using q q2 base64_digits [OF y(1), of x] base64_digits [OF z(1), of "x * 64 + y"]
      div_mult2_eq [of r 4096 64] by simp_all
  show ?thesis
    using big small d x y z w r(2) by (auto simp: encode_rune_def Let_def c cs)
qed

lemma encode_decode_rune:
  assumes "decode_rune (c # cs) = (r, n)" "\<not> (r = rune_error \<and> n = 1)"
  shows "encode_rune r = c # take (n - 1) cs"
proof -
  consider "code_of c < 0x80" | "0xC2 \<le> code_of c" "code_of c \<le> 0xDF" | "0xE0 \<le> code_of c" "code_of c \<le> 0xEF"
    | "0xF0 \<le> code_of c" "code_of c \<le> 0xF4"
    using assms by (auto simp: decode_rune.simps(2) Let_def split: if_splits prod.splits)
  then show ?thesis
  proof cases
    case 1
    with assms show ?thesis by (auto simp: decode_rune_ascii encode_rune_ascii)
  qed (use assms encode_decode_two encode_decode_three encode_decode_four in blast)+
qed


lemma decode_rune_high_bytes:
  assumes "decode_rune (c # cs) = (r, n)" "0x80 \<le> code_of c" "x \<in> set (take (n - 1) cs)"
  shows "0x80 \<le> code_of x"
proof -
  obtain lo hi where lh: "second_range (code_of c) = (lo, hi)" by (cases "second_range (code_of c)")
  then have "0x80 \<le> lo" using second_range_bounds [of "code_of c"] by simp
  with assms lh show ?thesis
    by (auto simp: decode_rune.simps(2) Let_def cont_def split: if_splits list.splits)
qed

lemma decode_rune_low:
  assumes "decode_rune (c # cs) = (r, n)" "r < 0x80"
  shows "code_of c = r \<and> n = 1"
proof (cases "code_of c < 0x80")
  case True
  with assms show ?thesis by (simp add: decode_rune_ascii)
next
  case False
  have "\<not> (r = rune_error \<and> n = 1)" using assms by (auto simp: rune_error_def)
  from encode_decode_rune [OF assms(1) this] assms(2) have "c = char_of r"
    by (simp add: encode_rune_ascii)
  with assms(2) have "code_of c = r" by simp
  with False assms(2) show ?thesis by simp
qed

text \<open>A string with its encoding errors replaced by U+FFFD.\<close>

definition sanitize :: "string \<Rightarrow> string" where
  "sanitize s = concat (map encode_rune (runes s))"

lemma sanitize_valid:
  assumes "utf8_valid s" shows "sanitize s = s"
proof -
  have "\<forall>(r, bs) \<in> set (chunks s). \<not> (r = rune_error \<and> length bs = 1) \<longrightarrow> encode_rune r = bs"
  proof (induction s rule: chunks.induct)
    case (2 c cs)
    obtain r n where d: "decode_rune (c # cs) = (r, n)" by (cases "decode_rune (c # cs)")
    have n: "1 \<le> n" "n \<le> Suc (length cs)" using decode_rune_sizes [OF d] by auto
    then have "n = 1 \<longleftrightarrow> length (c # take (n - 1) cs) = 1" by auto
    with 2 d encode_decode_rune [OF d] show ?case by (auto simp: chunks.simps(2))
  qed simp
  then have "map encode_rune (runes s) = map snd (chunks s)"
    using assms by (auto simp: runes_def utf8_valid_def)
  then show ?thesis by (simp add: sanitize_def concat_chunks)
qed

end
