(* ===== verification/Go_Json.thy ===== *)
theory Go_Json
  imports Go_Http Go_Utf8
begin

text \<open>
  The part of encoding/json that the program uses, on bytes: the scanner and the string decoder
  (escapes, surrogates, replacement of invalid UTF-8), the encoder (compact and indented, HTML-safe
  escapes), the decoding into structs, maps and \<open>any\<close>. The central fact is the round trip: what the
  encoder writes, the scanner reads back.

  Converting a number's text to a \<open>float64\<close> and printing that (which decoding into \<open>any\<close> and encoding
  again does; \<open>None\<close> is a number out of range) is the argument \<open>js_num\<close>, the conversion of that float to
  an \<open>int\<close> is \<open>js_int\<close>; the wording of an error, for a target type and a text, is \<open>js_err\<close>.
\<close>

datatype json =
    JNull
  | JBool bool
  | JNum string
  | JStr string
  | JArr "json list"
  | JObj "(string \<times> json) list"

record json_lib =
  js_num :: "string \<Rightarrow> string option"
  js_int :: "string \<Rightarrow> int"
  js_err :: "string \<Rightarrow> string \<Rightarrow> string"

section \<open>Encoding\<close>

definition hex4 :: "nat \<Rightarrow> string" where
  "hex4 r = [hex_char (r div 4096 mod 16), hex_char (r div 256 mod 16), hex_char (r div 16 mod 16), hex_char (r mod 16)]"

text \<open>The encoding of one code point \<open>r\<close>, read from the bytes \<open>bs\<close>.\<close>

definition esc_rune :: "nat \<Rightarrow> string \<Rightarrow> string" where
  "esc_rune r bs =
     (if r < 0x80 then
        (if r = 34 then [CHR 0x5C, CHR 0x22]
         else if r = 92 then [CHR 0x5C, CHR 0x5C]
         else if r = 8 then [CHR 0x5C, CHR ''b'']
         else if r = 12 then [CHR 0x5C, CHR ''f'']
         else if r = 10 then [CHR 0x5C, CHR ''n'']
         else if r = 13 then [CHR 0x5C, CHR ''r'']
         else if r = 9 then [CHR 0x5C, CHR ''t'']
         else if r < 32 \<or> r = 60 \<or> r = 62 \<or> r = 38 then CHR 0x5C # CHR ''u'' # hex4 r
         else bs)
      else if r = rune_error \<and> length bs = 1 then CHR 0x5C # CHR ''u'' # ''fffd''
      else if r = 0x2028 \<or> r = 0x2029 then CHR 0x5C # CHR ''u'' # hex4 r
      else bs)"

definition escape :: "string \<Rightarrow> string" where
  "escape s = concat (map (\<lambda>(r, bs). esc_rune r bs) (chunks s))"

definition quote_str :: "string \<Rightarrow> string" where
  "quote_str s = CHR 0x22 # escape s @ [CHR 0x22]"

text \<open>A line break with its indentation; nothing in the compact form.\<close>

definition nl :: "bool \<Rightarrow> nat \<Rightarrow> string" where
  "nl ind n = (if ind then CHR 0x0A # replicate (2 * n) CHR '' '' else [])"

definition colon :: "bool \<Rightarrow> string" where
  "colon ind = (if ind then '': '' else '':'')"

fun pr :: "bool \<Rightarrow> nat \<Rightarrow> json \<Rightarrow> string"
  and pr_elems :: "bool \<Rightarrow> nat \<Rightarrow> json list \<Rightarrow> string"
  and pr_members :: "bool \<Rightarrow> nat \<Rightarrow> (string \<times> json) list \<Rightarrow> string" where
  "pr ind n JNull = ''null''"
| "pr ind n (JBool b) = (if b then ''true'' else ''false'')"
| "pr ind n (JNum t) = t"
| "pr ind n (JStr s) = quote_str s"
| "pr ind n (JArr []) = ''[]''"
| "pr ind n (JArr (x # xs)) =
     ''['' @ nl ind (Suc n) @ pr ind (Suc n) x @ pr_elems ind (Suc n) xs @ nl ind n @ '']''"
| "pr ind n (JObj []) = ''{}''"
| "pr ind n (JObj ((k, v) # ms)) =
     ''{'' @ nl ind (Suc n) @ quote_str k @ colon ind @ pr ind (Suc n) v @ pr_members ind (Suc n) ms @ nl ind n @ ''}''"
| "pr_elems ind n [] = []"
| "pr_elems ind n (x # xs) = '','' @ nl ind n @ pr ind n x @ pr_elems ind n xs"
| "pr_members ind n [] = []"
| "pr_members ind n ((k, v) # ms) =
     '','' @ nl ind n @ quote_str k @ colon ind @ pr ind n v @ pr_members ind n ms"

text \<open>\<open>json.Marshal\<close>, and \<open>json.MarshalIndent\<close> with two blanks.\<close>

definition marshal :: "json \<Rightarrow> string" where
  "marshal v = pr False 0 v"

definition marshal_indent :: "json \<Rightarrow> string" where
  "marshal_indent v = pr True 0 v"

text \<open>Go maps are encoded with their keys in byte order.\<close>

definition obj_of :: "('v \<Rightarrow> json) \<Rightarrow> (string, 'v) gomap \<Rightarrow> json" where
  "obj_of f m = JObj (map (\<lambda>(k, v). (k, f v)) (sort_key fst m))"

fun sort_keys :: "json \<Rightarrow> json" where
  "sort_keys (JArr xs) = JArr (map sort_keys xs)"
| "sort_keys (JObj ms) = JObj (sort_key fst (map (\<lambda>(k, v). (k, sort_keys v)) ms))"
| "sort_keys v = v"

section \<open>Scanning\<close>

definition js_space :: "char \<Rightarrow> bool" where
  "js_space c \<longleftrightarrow> c = CHR '' '' \<or> c = CHR 0x09 \<or> c = CHR 0x0D \<or> c = CHR 0x0A"

definition skip_ws :: "string \<Rightarrow> string" where
  "skip_ws s = dropWhile js_space s"

text \<open>The raw text of a string after its opening quote.\<close>

fun scan_str :: "string \<Rightarrow> (string \<times> string) option" where
  "scan_str [] = None"
| "scan_str (c # cs) =
     (if c = CHR 0x22 then Some ([], cs)
      else if c = CHR 0x5C then
        (case cs of
           [] \<Rightarrow> None
         | e # r \<Rightarrow>
             if e \<in> set [CHR 0x22, CHR 0x5C, CHR ''/'', CHR ''b'', CHR ''f'', CHR ''n'', CHR ''r'', CHR ''t''] then
               map_option (\<lambda>(t, rest). (c # e # t, rest)) (scan_str r)
             else if e = CHR ''u'' then
               (case r of
                  h1 # h2 # h3 # h4 # r' \<Rightarrow>
                    if list_all (\<lambda>h. hex_val h \<noteq> None) [h1, h2, h3, h4] then
                      map_option (\<lambda>(t, rest). (c # e # h1 # h2 # h3 # h4 # t, rest)) (scan_str r')
                    else None
                | _ \<Rightarrow> None)
             else None)
      else if code_of c < 32 then None
      else map_option (\<lambda>(t, rest). (c # t, rest)) (scan_str cs))"

text \<open>The four hexadecimal digits of an escape at the start of a string.\<close>

fun get_u4 :: "string \<Rightarrow> (nat \<times> string) option" where
  "get_u4 (h1 # h2 # h3 # h4 # r) =
     (case (hex_val h1, hex_val h2, hex_val h3, hex_val h4) of
        (Some a, Some b, Some c, Some d) \<Rightarrow> Some (a * 4096 + b * 256 + c * 16 + d, r)
      | _ \<Rightarrow> None)"
| "get_u4 _ = None"

definition is_surrogate :: "nat \<Rightarrow> bool" where
  "is_surrogate r \<longleftrightarrow> 0xD800 \<le> r \<and> r \<le> 0xDFFF"

text \<open>A second escape that completes a surrogate pair.\<close>

definition low_surrogate :: "nat \<Rightarrow> string \<Rightarrow> (nat \<times> string) option" where
  "low_surrogate r s =
     (case s of
        b # u # t \<Rightarrow>
          if b = CHR 0x5C \<and> u = CHR ''u'' then
            (case get_u4 t of
               None \<Rightarrow> None
             | Some (r1, rest) \<Rightarrow>
                 if r < 0xDC00 \<and> 0xDC00 \<le> r1 \<and> r1 \<le> 0xDFFF
                 then Some ((r - 0xD800) * 1024 + (r1 - 0xDC00) + 0x10000, rest) else None)
          else None
      | _ \<Rightarrow> None)"

definition unescape_char :: "char \<Rightarrow> char" where
  "unescape_char e =
     (if e = CHR ''b'' then CHR 0x08 else if e = CHR ''f'' then CHR 0x0C else if e = CHR ''n'' then CHR 0x0A
      else if e = CHR ''r'' then CHR 0x0D else if e = CHR ''t'' then CHR 0x09 else e)"

lemma get_u4_length: "get_u4 s = Some (r, rest) \<Longrightarrow> length rest < length s"
  by (induction s rule: get_u4.induct) (auto split: option.splits)

lemma low_surrogate_length: "low_surrogate r s = Some (x, rest) \<Longrightarrow> length rest < length s"
  by (auto simp: low_surrogate_def split: list.splits if_splits option.splits dest!: get_u4_length)

text \<open>The decoder of a scanned string's raw text.\<close>

function unquote :: "string \<Rightarrow> string" where
  "unquote [] = []"
| "unquote (c # cs) =
     (if c = CHR 0x5C then
        (case cs of
           [] \<Rightarrow> []
         | e # r \<Rightarrow>
             if e = CHR ''u'' then
               (case get_u4 r of
                  None \<Rightarrow> []
                | Some (rr, rest) \<Rightarrow>
                    if is_surrogate rr then
                      (case low_surrogate rr rest of
                         Some (x, rest') \<Rightarrow> encode_rune x @ unquote rest'
                       | None \<Rightarrow> encode_rune rune_error @ unquote rest)
                    else encode_rune rr @ unquote rest)
             else if e \<in> set [CHR 0x22, CHR 0x5C, CHR ''/'', CHR 0x27, CHR ''b'', CHR ''f'', CHR ''n'', CHR ''r'', CHR ''t'']
             then unescape_char e # unquote r
             else [])
      else let (r, n) = decode_rune (c # cs) in encode_rune r @ unquote (drop (n - 1) cs))"
  by pat_completeness auto
termination
  by (relation "measure length") (auto dest!: get_u4_length low_surrogate_length)

declare unquote.simps(2) [simp del]

subsection \<open>Numbers\<close>

definition scan_int :: "string \<Rightarrow> (string \<times> string) option" where
  "scan_int s =
     (case s of
        [] \<Rightarrow> None
      | c # cs \<Rightarrow>
          if c = CHR ''0'' then Some ([c], cs)
          else if is_digit c then Some (c # takeWhile is_digit cs, dropWhile is_digit cs)
          else None)"

definition scan_frac :: "string \<Rightarrow> (string \<times> string) option" where
  "scan_frac s =
     (case s of
        c # cs \<Rightarrow>
          if c = CHR ''.'' then
            (if takeWhile is_digit cs = [] then None
             else Some (c # takeWhile is_digit cs, dropWhile is_digit cs))
          else Some ([], s)
      | [] \<Rightarrow> Some ([], s))"

definition scan_exp :: "string \<Rightarrow> (string \<times> string) option" where
  "scan_exp s =
     (case s of
        c # cs \<Rightarrow>
          if c = CHR ''e'' \<or> c = CHR ''E'' then
            (let (sg, ds) = (case cs of d # ds \<Rightarrow> if d = CHR ''+'' \<or> d = CHR ''-'' then ([d], ds) else ([], cs)
                             | [] \<Rightarrow> ([], cs))
             in if takeWhile is_digit ds = [] then None
                else Some (c # sg @ takeWhile is_digit ds, dropWhile is_digit ds))
          else Some ([], s)
      | [] \<Rightarrow> Some ([], s))"

definition scan_num :: "string \<Rightarrow> (string \<times> string) option" where
  "scan_num s =
     (let (sg, s) = (case s of c # cs \<Rightarrow> if c = CHR ''-'' then ([c], cs) else ([], s) | [] \<Rightarrow> ([], s))
      in case scan_int s of
           None \<Rightarrow> None
         | Some (i, s) \<Rightarrow>
             (case scan_frac s of
                None \<Rightarrow> None
              | Some (f, s) \<Rightarrow>
                  (case scan_exp s of None \<Rightarrow> None | Some (e, s) \<Rightarrow> Some (sg @ i @ f @ e, s))))"

subsection \<open>Values\<close>

definition max_depth :: nat where "max_depth = 10000"

text \<open>
  The scanner: a value, the elements of an array after its opening bracket (or a comma), the members of
  an object. The first argument is fuel (every call consumes a byte or spends fuel on a strictly smaller
  part; \<open>parse_fuel\<close> shows that \<open>fuel_of\<close> is enough), the second the number of brackets already open.
\<close>

fun parse_val :: "nat \<Rightarrow> nat \<Rightarrow> string \<Rightarrow> (json \<times> string) option"
  and parse_elems :: "nat \<Rightarrow> nat \<Rightarrow> string \<Rightarrow> (json list \<times> string) option"
  and parse_members :: "nat \<Rightarrow> nat \<Rightarrow> string \<Rightarrow> ((string \<times> json) list \<times> string) option" where
  "parse_val 0 d s = None"
| "parse_val (Suc n) d s =
     (case skip_ws s of
        [] \<Rightarrow> None
      | c # cs \<Rightarrow>
          if c = CHR 0x22 then map_option (\<lambda>(t, r). (JStr (unquote t), r)) (scan_str cs)
          else if c = CHR ''['' then
            (if max_depth \<le> d then None
             else case skip_ws cs of
                    [] \<Rightarrow> None
                  | c' # r \<Rightarrow> if c' = CHR '']'' then Some (JArr [], r)
                              else map_option (\<lambda>(xs, r). (JArr xs, r)) (parse_elems n (Suc d) cs))
          else if c = CHR ''{'' then
            (if max_depth \<le> d then None
             else case skip_ws cs of
                    [] \<Rightarrow> None
                  | c' # r \<Rightarrow> if c' = CHR ''}'' then Some (JObj [], r)
                              else map_option (\<lambda>(ms, r). (JObj ms, r)) (parse_members n (Suc d) cs))
          else if HasPrefix (c # cs) ''null'' then Some (JNull, drop 4 (c # cs))
          else if HasPrefix (c # cs) ''true'' then Some (JBool True, drop 4 (c # cs))
          else if HasPrefix (c # cs) ''false'' then Some (JBool False, drop 5 (c # cs))
          else map_option (\<lambda>(t, r). (JNum t, r)) (scan_num (c # cs)))"
| "parse_elems 0 d s = None"
| "parse_elems (Suc n) d s =
     (case parse_val n d s of
        None \<Rightarrow> None
      | Some (v, r) \<Rightarrow>
          (case skip_ws r of
             [] \<Rightarrow> None
           | c # r' \<Rightarrow>
               if c = CHR '','' then map_option (\<lambda>(vs, r). (v # vs, r)) (parse_elems n d r')
               else if c = CHR '']'' then Some ([v], r')
               else None))"
| "parse_members 0 d s = None"
| "parse_members (Suc n) d s =
     (case skip_ws s of
        [] \<Rightarrow> None
      | q # s1 \<Rightarrow>
          if q \<noteq> CHR 0x22 then None
          else
            (case scan_str s1 of
               None \<Rightarrow> None
             | Some (k, s2) \<Rightarrow>
                 (case skip_ws s2 of
                    [] \<Rightarrow> None
                  | c # s3 \<Rightarrow>
                      if c \<noteq> CHR '':'' then None
                      else
                        (case parse_val n d s3 of
                           None \<Rightarrow> None
                         | Some (v, r) \<Rightarrow>
                             (case skip_ws r of
                                [] \<Rightarrow> None
                              | c # r' \<Rightarrow>
                                  if c = CHR '','' then
                                    map_option (\<lambda>(ms, r). ((unquote k, v) # ms, r)) (parse_members n d r')
                                  else if c = CHR ''}'' then Some ([(unquote k, v)], r')
                                  else None)))))"

definition fuel_of :: "string \<Rightarrow> nat" where
  "fuel_of s = 2 * length s + 2"

text \<open>The first value of a stream (\<open>Decoder.Decode\<close>), and a whole text (\<open>Unmarshal\<close>).\<close>

definition decode_first :: "string \<Rightarrow> (json \<times> string) option" where
  "decode_first s = parse_val (fuel_of s) 0 s"

definition parse_all :: "string \<Rightarrow> json option" where
  "parse_all s =
     (case decode_first s of
        None \<Rightarrow> None
      | Some (v, r) \<Rightarrow> if skip_ws r = [] then Some v else None)"

end
