(* ===== verification/Go_Json_Facts.thy ===== *)
theory Go_Json_Facts
  imports Go_Json
begin

text \<open>
  The round trip of JSON: scanning what the encoder wrote, compact or indented, gives the value back
  (with encoding errors in strings replaced), for any fuel above the size of the value.
\<close>

section \<open>Strings\<close>

lemma hex_val_hex_char: "d < 16 \<Longrightarrow> hex_val (hex_char d) = Some d"
  by (auto simp: hex_val_def hex_char_def Let_def)

lemma hex4_value:
  fixes r :: nat
  assumes "r < 0x10000"
  shows "r div 4096 mod 16 * 4096 + r div 256 mod 16 * 256 + r div 16 mod 16 * 16 + r mod 16 = r"
proof -
  have "r div 256 = r div 16 div 16" "r div 4096 = r div 256 div 16"
    using div_mult2_eq [of r 16 16] div_mult2_eq [of r 256 16] by simp_all
  moreover have "r div 4096 mod 16 = r div 4096" using assms by simp
  ultimately show ?thesis
    using div_mult_mod_eq [of r 16] div_mult_mod_eq [of "r div 16" 16] div_mult_mod_eq [of "r div 256" 16]
    by linarith
qed

lemma get_u4_hex4: "r < 0x10000 \<Longrightarrow> get_u4 (hex4 r @ t) = Some (r, t)"
  using hex4_value [of r] by (simp add: hex4_def hex_val_hex_char)

text \<open>One piece of the encoder's output: a code point with the bytes it was read from.\<close>

definition is_chunk :: "nat \<Rightarrow> string \<Rightarrow> bool" where
  "is_chunk r bs \<longleftrightarrow> (\<exists>c cs n. decode_rune (c # cs) = (r, n) \<and> bs = c # take (n - 1) cs)"

lemma chunks_are_chunks: "\<forall>(r, bs) \<in> set (chunks s). is_chunk r bs"
proof (induction s rule: chunks.induct)
  case (2 c cs)
  obtain r n where d: "decode_rune (c # cs) = (r, n)" by (cases "decode_rune (c # cs)")
  then have "is_chunk r (c # take (n - 1) cs)" unfolding is_chunk_def by blast
  with 2 d show ?case by (simp add: chunks.simps(2))
qed simp

lemma unquote_raw:
  assumes "decode_rune (c # cs) = (r, n)" "\<not> (r = rune_error \<and> n = 1)" "r \<noteq> 92"
  shows "unquote (c # take (n - 1) cs @ t) = encode_rune r @ unquote t"
proof -
  have "c \<noteq> CHR 0x5C"
  proof
    assume c: "c = CHR 0x5C"
    have "decode_rune (c # cs) = (92, 1)" by (simp add: c decode_rune_ascii)
    with assms show False by simp
  qed
  moreover have "length (take (n - 1) cs) = n - 1" using decode_rune_sizes [OF assms(1)] by simp
  ultimately show ?thesis
    using decode_rune_append [OF assms(1,2), of t] by (simp add: unquote.simps(2))
qed

lemma unquote_u4:
  assumes "r < 0x10000" "\<not> is_surrogate r"
  shows "unquote (CHR 0x5C # CHR ''u'' # hex4 r @ t) = encode_rune r @ unquote t"
  using assms by (simp add: unquote.simps(2) get_u4_hex4)

lemma char_of_lits:
  "char_of (34 :: nat) = CHR 0x22" "char_of (92 :: nat) = CHR 0x5C" "char_of (8 :: nat) = CHR 0x08"
  "char_of (12 :: nat) = CHR 0x0C" "char_of (10 :: nat) = CHR 0x0A" "char_of (13 :: nat) = CHR 0x0D"
  "char_of (9 :: nat) = CHR 0x09" "char_of (102 :: nat) = CHR ''f''" "char_of (100 :: nat) = CHR ''d''"
  by (simp_all add: char_of_def bit_Suc_0_iff)

lemma hex4_rune_error: "''fffd'' = hex4 rune_error"
  by (simp add: hex4_def rune_error_def hex_char_def char_of_lits)

lemma unquote_simple:
  "e \<in> set [CHR 0x22, CHR 0x5C, CHR ''b'', CHR ''f'', CHR ''n'', CHR ''r'', CHR ''t''] \<Longrightarrow>
     unquote (CHR 0x5C # e # t) = unescape_char e # unquote t"
  by (auto simp: unquote.simps(2))

lemma unquote_esc_rune:
  assumes "is_chunk r bs"
  shows "unquote (esc_rune r bs @ t) = encode_rune r @ unquote t"
proof -
  obtain c cs n where d: "decode_rune (c # cs) = (r, n)" and bs: "bs = c # take (n - 1) cs"
    using assms by (auto simp: is_chunk_def)
  have n: "1 \<le> n" "n \<le> Suc (length cs)" using decode_rune_sizes [OF d] by auto
  then have len: "length bs = n" by (simp add: bs)
  show ?thesis
  proof (cases "r < 0x80")
    case True
    consider "r \<in> {34, 92, 8, 12, 10, 13, 9}"
      | "r \<notin> {34, 92, 8, 12, 10, 13, 9}" "r < 32 \<or> r = 60 \<or> r = 62 \<or> r = 38"
      | "\<not> (r < 32 \<or> r = 60 \<or> r = 62 \<or> r = 38)" "r \<noteq> 34" "r \<noteq> 92" by auto
    then show ?thesis
    proof cases
      case 1
      then show ?thesis
        by (elim insertE emptyE)
          (simp_all add: esc_rune_def unquote_simple unescape_char_def encode_rune_ascii char_of_lits)
    next
      case 2
      then have "unquote (CHR 0x5C # CHR ''u'' # hex4 r @ t) = encode_rune r @ unquote t"
        using True by (intro unquote_u4) (auto simp: is_surrogate_def)
      with 2 True show ?thesis by (auto simp: esc_rune_def)
    next
      case 3
      then have "esc_rune r bs = bs" using True by (simp add: esc_rune_def)
      moreover have "\<not> (r = rune_error \<and> n = 1)" using True by (auto simp: rune_error_def)
      ultimately show ?thesis using unquote_raw [OF d _ 3(3)] bs by simp
    qed
  next
    case False
    consider "r = rune_error" "n = 1" | "r = 0x2028 \<or> r = 0x2029"
      | "\<not> (r = rune_error \<and> n = 1)" "r \<noteq> 0x2028" "r \<noteq> 0x2029" by auto
    then show ?thesis
    proof cases
      case 1
      then have "esc_rune r bs = CHR 0x5C # CHR ''u'' # hex4 r"
        using False len by (simp add: esc_rune_def hex4_rune_error)
      with 1 show ?thesis
        using unquote_u4 [of r t] by (simp add: rune_error_def is_surrogate_def)
    next
      case 2
      then have "esc_rune r bs = CHR 0x5C # CHR ''u'' # hex4 r"
        using False by (auto simp: esc_rune_def rune_error_def)
      with 2 show ?thesis using unquote_u4 [of r t] by (auto simp: is_surrogate_def)
    next
      case 3
      then have "esc_rune r bs = bs" using False len by (auto simp: esc_rune_def)
      then show ?thesis using unquote_raw [OF d 3(1)] False bs by simp
    qed
  qed
qed

lemma unquote_escape_append: "unquote (escape s @ []) = sanitize s"
proof -
  have "unquote (concat (map (\<lambda>(r, bs). esc_rune r bs) ps) @ t) = concat (map encode_rune (map fst ps)) @ unquote t"
    if "\<forall>(r, bs) \<in> set ps. is_chunk r bs" for ps t
    using that by (induction ps) (auto simp: unquote_esc_rune)
  from this [OF chunks_are_chunks, of s "[]"] show ?thesis
    by (simp add: escape_def sanitize_def runes_def)
qed

lemma unquote_escape: "unquote (escape s) = sanitize s"
  using unquote_escape_append by simp

text \<open>The scanner finds the closing quote of an encoded string.\<close>

lemma scan_str_raw:
  assumes "\<forall>c \<in> set bs. c \<noteq> CHR 0x22 \<and> c \<noteq> CHR 0x5C \<and> \<not> code_of c < 32"
  shows "scan_str (bs @ t) = map_option (\<lambda>(u, rest). (bs @ u, rest)) (scan_str t)"
  using assms by (cases "scan_str t"; induction bs) auto

lemma scan_str_u4:
  "scan_str (CHR 0x5C # CHR ''u'' # hex4 r @ t) =
     map_option (\<lambda>(u, rest). (CHR 0x5C # CHR ''u'' # hex4 r @ u, rest)) (scan_str t)"
  by (simp add: hex4_def hex_val_hex_char)

lemma chunk_bytes:
  assumes "decode_rune (c # cs) = (r, n)" "\<not> r < 0x80" "x \<in> set (c # take (n - 1) cs)"
  shows "0x80 \<le> code_of x"
proof -
  have "0x80 \<le> code_of c"
    using assms(1,2) by (cases "code_of c < 0x80") (auto simp: decode_rune_ascii)
  then show ?thesis using decode_rune_high_bytes [OF assms(1)] assms(3) by auto
qed

lemma scan_str_esc_rune:
  assumes "is_chunk r bs"
  shows "scan_str (esc_rune r bs @ t) = map_option (\<lambda>(u, rest). (esc_rune r bs @ u, rest)) (scan_str t)"
proof -
  obtain c cs n where d: "decode_rune (c # cs) = (r, n)" and bs: "bs = c # take (n - 1) cs"
    using assms by (auto simp: is_chunk_def)
  show ?thesis
  proof (cases "r < 0x80")
    case True
    with decode_rune_low [OF d] have c: "code_of c = r" "bs = [c]" by (auto simp: bs)
    consider "r \<in> {34, 92, 8, 12, 10, 13, 9}"
      | "r \<notin> {34, 92, 8, 12, 10, 13, 9}" "r < 32 \<or> r = 60 \<or> r = 62 \<or> r = 38"
      | "\<not> (r < 32 \<or> r = 60 \<or> r = 62 \<or> r = 38)" "r \<noteq> 34" "r \<noteq> 92" by auto
    then show ?thesis
    proof cases
      case 1
      then show ?thesis by (elim insertE emptyE) (simp_all add: esc_rune_def)
    next
      case 2
      then have "esc_rune r bs = CHR 0x5C # CHR ''u'' # hex4 r" using True by (auto simp: esc_rune_def)
      then show ?thesis using scan_str_u4 [of r t] by simp
    next
      case 3
      then have "esc_rune r bs = bs" using True by (simp add: esc_rune_def)
      moreover have "c \<noteq> CHR 0x22" "c \<noteq> CHR 0x5C" using 3 c by auto
      ultimately show ?thesis using 3 c scan_str_raw [of "[c]" t] by simp
    qed
  next
    case False
    have b: "x \<noteq> CHR 0x22 \<and> x \<noteq> CHR 0x5C \<and> \<not> code_of x < 32" if "x \<in> set bs" for x
      using chunk_bytes [OF d False] that bs by fastforce
    have "esc_rune r bs = bs \<or> (\<exists>q. esc_rune r bs = CHR 0x5C # CHR ''u'' # hex4 q)"
      using False hex4_rune_error by (auto simp: esc_rune_def)
    then show ?thesis
      using scan_str_raw [of bs t] b scan_str_u4 by auto
  qed
qed

lemma scan_str_escape: "scan_str (escape s @ CHR 0x22 # rest) = Some (escape s, rest)"
proof -
  have "scan_str (concat (map (\<lambda>(r, bs). esc_rune r bs) ps) @ t) =
      map_option (\<lambda>(u, rest). (concat (map (\<lambda>(r, bs). esc_rune r bs) ps) @ u, rest)) (scan_str t)"
    if "\<forall>(r, bs) \<in> set ps. is_chunk r bs" for ps t
    using that by (cases "scan_str t"; induction ps) (auto simp: scan_str_esc_rune)
  from this [OF chunks_are_chunks, of s "CHR 0x22 # rest"] show ?thesis
    by (simp add: escape_def)
qed


section \<open>Numbers\<close>

text \<open>What may follow a value: the end, white space, or a separator.\<close>

definition delim :: "string \<Rightarrow> bool" where
  "delim s \<longleftrightarrow> (case s of [] \<Rightarrow> True | c # _ \<Rightarrow> js_space c \<or> c \<in> {CHR '','', CHR '']'', CHR ''}''})"

definition num_ok :: "string \<Rightarrow> bool" where
  "num_ok t \<longleftrightarrow> scan_num t = Some (t, [])"

lemma delim_no_digit: "delim (c # s) \<Longrightarrow> \<not> is_digit c \<and> c \<notin> {CHR ''.'', CHR ''e'', CHR ''E''}"
  by (auto simp: delim_def js_space_def is_digit_def)

lemma span_digits_append:
  assumes "delim r"
  shows "takeWhile is_digit (s @ r) = takeWhile is_digit s"
    and "dropWhile is_digit (s @ r) = dropWhile is_digit s @ r"
proof -
  have r: "takeWhile is_digit r = [] \<and> dropWhile is_digit r = r"
    using assms delim_no_digit by (cases r) auto
  show "takeWhile is_digit (s @ r) = takeWhile is_digit s"
    using r by (induction s) auto
  show "dropWhile is_digit (s @ r) = dropWhile is_digit s @ r"
    using r by (induction s) auto
qed

lemma scan_int_append:
  "scan_int s = Some (i, s') \<Longrightarrow> delim r \<Longrightarrow> scan_int (s @ r) = Some (i, s' @ r)"
  by (auto simp: scan_int_def span_digits_append split: list.splits if_splits)

lemma scan_frac_append:
  assumes "scan_frac s = Some (f, s')" "delim r"
  shows "scan_frac (s @ r) = Some (f, s' @ r)"
proof (cases s)
  case Nil
  with assms delim_no_digit show ?thesis by (cases r) (auto simp: scan_frac_def)
next
  case (Cons c cs)
  with assms show ?thesis by (auto simp: scan_frac_def span_digits_append split: if_splits)
qed

lemma scan_exp_append:
  assumes "scan_exp s = Some (e, s')" "delim r"
  shows "scan_exp (s @ r) = Some (e, s' @ r)"
proof (cases s)
  case Nil
  with assms delim_no_digit show ?thesis by (cases r) (auto simp: scan_exp_def)
next
  case (Cons c cs)
  show ?thesis
  proof (cases "cs = [] \<and> (c = CHR ''e'' \<or> c = CHR ''E'')")
    case True
    with assms Cons show ?thesis by (simp add: scan_exp_def)
  next
    case False
    with assms Cons show ?thesis
      by (cases cs) (auto simp: scan_exp_def span_digits_append Let_def split: if_splits)
  qed
qed

lemma scan_num_append:
  assumes "scan_num t = Some (t', r')" "delim r"
  shows "scan_num (t @ r) = Some (t', r' @ r)"
proof -
  obtain sg u where u: "(case t of c # cs \<Rightarrow> if c = CHR ''-'' then ([c], cs) else ([], t) | [] \<Rightarrow> ([], t)) = (sg, u)"
    by (cases "case t of c # cs \<Rightarrow> if c = CHR ''-'' then ([c], cs) else ([], t) | [] \<Rightarrow> ([], t)")
  have "t \<noteq> []" using assms by (auto simp: scan_num_def scan_int_def)
  then have ur: "(case t @ r of c # cs \<Rightarrow> if c = CHR ''-'' then ([c], cs) else ([], t @ r) | [] \<Rightarrow> ([], t @ r)) = (sg, u @ r)"
    using u by (cases t) (auto split: if_splits)
  from assms(1) obtain i s1 f s2 e where
    "scan_int u = Some (i, s1)" "scan_frac s1 = Some (f, s2)" "scan_exp s2 = Some (e, r')" "t' = sg @ i @ f @ e"
    unfolding scan_num_def u by (auto split: option.splits)
  then show ?thesis
    unfolding scan_num_def ur using assms(2)
    by (simp add: scan_int_append scan_frac_append scan_exp_append)
qed

lemma scan_num_first: "scan_num (c # cs) = Some x \<Longrightarrow> is_digit c \<or> c = CHR ''-''"
  by (auto simp: scan_num_def scan_int_def is_digit_def split: if_splits option.splits)

lemma scan_num_digits:
  assumes "ds \<noteq> []" "\<forall>c \<in> set ds. is_digit c" "hd ds = CHR ''0'' \<Longrightarrow> ds = ''0''"
  shows "num_ok ds"
proof -
  obtain c cs where ds: "ds = c # cs" using assms(1) by (cases ds) auto
  have d: "takeWhile is_digit cs = cs" "dropWhile is_digit cs = []" "is_digit c"
    using assms(2) ds by simp_all
  then have "c \<noteq> CHR ''-''" by (auto simp: is_digit_def)
  moreover have "scan_int ds = Some (ds, [])" using d assms(3) ds by (auto simp: scan_int_def)
  ultimately show ?thesis
    using ds by (simp add: num_ok_def scan_num_def scan_frac_def scan_exp_def)
qed

lemma dec_nat_hd: "0 < n \<Longrightarrow> hd (dec_nat n) \<noteq> CHR ''0''"
proof (induction n rule: dec_nat.induct)
  case (1 n)
  show ?case
  proof (cases "n < 10")
    case True
    have "code_of (digit_char n) = 48 + n" using True by (rule code_digit_char)
    with "1.prems" have "digit_char n \<noteq> CHR ''0''" by auto
    with True show ?thesis by (subst dec_nat.simps) simp
  next
    case False
    then have "hd (dec_nat (n div 10)) \<noteq> CHR ''0''" using 1 by auto
    with False show ?thesis by (subst dec_nat.simps) simp
  qed
qed

lemma num_ok_dec_nat: "num_ok (dec_nat n)"
proof (cases n)
  case 0
  have "dec_nat 0 = ''0''" by (subst dec_nat.simps) (simp add: digit_char_def char_of_def bit_Suc_0_iff)
  then show ?thesis using 0 scan_num_digits [of "''0''"] by (simp add: is_digit_def)
next
  case (Suc m)
  then show ?thesis using scan_num_digits [of "dec_nat n"] dec_nat_digits dec_nat_hd [of n] by simp
qed

lemma num_ok_dec_int: "num_ok (dec_int i)"
proof (cases "i < 0")
  case False
  then show ?thesis by (simp add: dec_int_def num_ok_dec_nat)
next
  case True
  define n where "n = nat (- i)"
  have n: "num_ok (dec_nat n)" by (rule num_ok_dec_nat)
  have "dec_nat n \<noteq> []" "hd (dec_nat n) \<noteq> CHR ''-''"
    using dec_nat_digits [of n] by (cases "dec_nat n"; auto simp: is_digit_def)+
  then have "scan_num (CHR ''-'' # dec_nat n) = map_option (\<lambda>(t, r). (CHR ''-'' # t, r)) (scan_num (dec_nat n))"
    by (cases "dec_nat n") (auto simp: scan_num_def split: option.splits)
  with n True show ?thesis by (simp add: num_ok_def dec_int_def n_def)
qed


section \<open>Values\<close>

fun clean :: "json \<Rightarrow> json" where
  "clean (JStr s) = JStr (sanitize s)"
| "clean (JArr xs) = JArr (map clean xs)"
| "clean (JObj ms) = JObj (map (\<lambda>(k, v). (sanitize k, clean v)) ms)"
| "clean v = v"

text \<open>Numbers are number tokens, and all strings and keys are valid UTF-8.\<close>

fun nums_ok :: "json \<Rightarrow> bool" where
  "nums_ok (JNum t) \<longleftrightarrow> num_ok t"
| "nums_ok (JArr xs) \<longleftrightarrow> list_all nums_ok xs"
| "nums_ok (JObj ms) \<longleftrightarrow> list_all (\<lambda>(k, v). nums_ok v) ms"
| "nums_ok v \<longleftrightarrow> True"

fun texts_ok :: "json \<Rightarrow> bool" where
  "texts_ok (JStr s) \<longleftrightarrow> utf8_valid s"
| "texts_ok (JArr xs) \<longleftrightarrow> list_all texts_ok xs"
| "texts_ok (JObj ms) \<longleftrightarrow> list_all (\<lambda>(k, v). utf8_valid k \<and> texts_ok v) ms"
| "texts_ok v \<longleftrightarrow> True"

fun depth :: "json \<Rightarrow> nat" where
  "depth (JArr xs) = Suc (fold max (map depth xs) 0)"
| "depth (JObj ms) = Suc (fold max (map (\<lambda>(k, v). depth v) ms) 0)"
| "depth v = 0"

fun weight :: "json \<Rightarrow> nat" where
  "weight (JArr xs) = Suc (sum_list (map (\<lambda>x. Suc (weight x)) xs))"
| "weight (JObj ms) = Suc (sum_list (map (\<lambda>(k, v). Suc (weight v)) ms))"
| "weight v = 1"

lemma clean_texts_ok: "texts_ok v \<Longrightarrow> clean v = v"
  by (induction v rule: clean.induct)
    (auto simp: sanitize_valid list_all_iff map_idI split: prod.splits)

lemma skip_ws_nl [simp]: "skip_ws (nl ind n @ s) = skip_ws s"
proof -
  have "dropWhile js_space (replicate k CHR '' '' @ s) = dropWhile js_space s" for k
    by (induction k) (auto simp: js_space_def)
  then show ?thesis by (simp add: skip_ws_def nl_def js_space_def)
qed

lemma skip_ws_Cons: "\<not> js_space c \<Longrightarrow> skip_ws (c # s) = c # s"
  by (simp add: skip_ws_def)

lemma delim_nl: "delim s \<Longrightarrow> delim (nl ind n @ s)"
  by (simp add: nl_def delim_def js_space_def)

lemma delim_sep [simp]:
  "delim []" "delim (CHR '','' # s)" "delim (CHR '']'' # s)" "delim (CHR ''}'' # s)"
  by (simp_all add: delim_def)

lemma skip_ws_colon_space: "skip_ws (colon ind @ s) = CHR '':'' # (if ind then CHR '' '' # s else s)"
  by (simp add: colon_def skip_ws_def js_space_def)

lemma parse_val_skip_ws: "skip_ws s = skip_ws t \<Longrightarrow> parse_val n d s = parse_val n d t"
  by (cases n) simp_all

lemma parse_elems_skip_ws: "skip_ws s = skip_ws t \<Longrightarrow> parse_elems n d s = parse_elems n d t"
  by (cases n) (simp_all add: parse_val_skip_ws [of s t])

lemma parse_members_skip_ws: "skip_ws s = skip_ws t \<Longrightarrow> parse_members n d s = parse_members n d t"
  by (cases n) simp_all

lemma skip_ws_pr:
  assumes "nums_ok v"
  shows "\<exists>c cs. pr ind n v = c # cs \<and> \<not> js_space c \<and> c \<noteq> CHR '']'' \<and> c \<noteq> CHR ''}''"
proof -
  have t: "\<exists>c cs. t = c # cs \<and> (is_digit c \<or> c = CHR ''-'')" if "num_ok t" for t
    using that scan_num_first by (cases t) (auto simp: num_ok_def scan_num_def scan_int_def)
  show ?thesis
  proof (cases v)
    case (JNum x)
    then show ?thesis using t [of x] assms by (auto simp: js_space_def is_digit_def)
  next
    case (JArr xs)
    then show ?thesis by (cases xs) (auto simp: js_space_def)
  next
    case (JObj ms)
    then show ?thesis by (cases ms) (auto simp: js_space_def)
  qed (auto simp: js_space_def quote_str_def)
qed

lemma fold_max_le: "fold max xs (a :: nat) \<le> k \<longleftrightarrow> a \<le> k \<and> (\<forall>x \<in> set xs. x \<le> k)"
  by (induction xs arbitrary: a) auto

text \<open>The three readings, stated for the rest of the input that follows.\<close>

definition reads :: "bool \<Rightarrow> nat \<Rightarrow> json \<Rightarrow> bool" where
  "reads ind n v \<longleftrightarrow> (\<forall>fuel d rest. weight v \<le> fuel \<longrightarrow> d + depth v \<le> max_depth \<longrightarrow> nums_ok v \<longrightarrow> delim rest \<longrightarrow>
     parse_val fuel d (pr ind n v @ rest) = Some (clean v, rest))"

text \<open>The elements after a comma, up to the closing bracket.\<close>

definition reads_elems :: "bool \<Rightarrow> nat \<Rightarrow> json list \<Rightarrow> bool" where
  "reads_elems ind n xs \<longleftrightarrow> (\<forall>fuel d m rest. xs \<noteq> [] \<longrightarrow> sum_list (map (\<lambda>x. Suc (weight x)) xs) \<le> fuel \<longrightarrow>
     (\<forall>x \<in> set xs. d + depth x \<le> max_depth) \<longrightarrow> list_all nums_ok xs \<longrightarrow>
     parse_elems fuel d (drop 1 (pr_elems ind n xs @ nl ind m @ CHR '']'' # rest)) = Some (map clean xs, rest))"

definition reads_members :: "bool \<Rightarrow> nat \<Rightarrow> (string \<times> json) list \<Rightarrow> bool" where
  "reads_members ind n ms \<longleftrightarrow> (\<forall>fuel d m rest. ms \<noteq> [] \<longrightarrow> sum_list (map (\<lambda>(k, v). Suc (weight v)) ms) \<le> fuel \<longrightarrow>
     (\<forall>(k, v) \<in> set ms. d + depth v \<le> max_depth) \<longrightarrow> list_all (\<lambda>(k, v). nums_ok v) ms \<longrightarrow>
     parse_members fuel d (drop 1 (pr_members ind n ms @ nl ind m @ CHR ''}'' # rest)) =
       Some (map (\<lambda>(k, v). (sanitize k, clean v)) ms, rest))"

lemma reads_elems_Cons:
  assumes x: "reads ind n x" and xs: "reads_elems ind n xs"
  shows "reads_elems ind n (x # xs)"
  unfolding reads_elems_def
proof (intro allI impI)
  fix fuel d m rest
  assume fuel: "sum_list (map (\<lambda>x. Suc (weight x)) (x # xs)) \<le> fuel"
    and dep: "\<forall>y \<in> set (x # xs). d + depth y \<le> max_depth" and nums: "list_all nums_ok (x # xs)"
  from fuel obtain f where f: "fuel = Suc f" by (cases fuel) auto
  define tail where "tail = pr_elems ind n xs @ nl ind m @ CHR '']'' # rest"
  have "delim tail"
    by (cases xs) (simp_all add: tail_def delim_nl)
  then have val: "parse_val f d (pr ind n x @ tail) = Some (clean x, tail)"
    using x fuel dep nums f unfolding reads_def by simp
  have start: "drop 1 (pr_elems ind n (x # xs) @ nl ind m @ CHR '']'' # rest) = nl ind n @ pr ind n x @ tail"
    by (simp add: tail_def)
  have "parse_elems (Suc f) d (pr ind n x @ tail) = Some (map clean (x # xs), rest)"
  proof (cases xs)
    case Nil
    then have "skip_ws tail = CHR '']'' # rest" by (simp add: tail_def skip_ws_Cons js_space_def)
    with val Nil show ?thesis by simp
  next
    case (Cons y ys)
    have sk: "skip_ws tail = CHR '','' # drop 1 tail"
      by (simp add: tail_def Cons skip_ws_Cons js_space_def)
    have "parse_elems f d (drop 1 tail) = Some (map clean xs, rest)"
      using xs fuel dep nums f Cons unfolding reads_elems_def tail_def by simp
    with val sk show ?thesis by simp
  qed
  then show "parse_elems fuel d (drop 1 (pr_elems ind n (x # xs) @ nl ind m @ CHR '']'' # rest)) =
      Some (map clean (x # xs), rest)"
    unfolding start f
    using parse_elems_skip_ws [of "nl ind n @ pr ind n x @ tail" "pr ind n x @ tail" "Suc f" d]
    by (simp del: parse_elems.simps)
qed

lemma reads_members_Cons:
  assumes x: "reads ind n v" and xs: "reads_members ind n ms"
  shows "reads_members ind n ((k, v) # ms)"
  unfolding reads_members_def
proof (intro allI impI)
  fix fuel d m rest
  assume fuel: "sum_list (map (\<lambda>(k, v). Suc (weight v)) ((k, v) # ms)) \<le> fuel"
    and dep: "\<forall>(k, w) \<in> set ((k, v) # ms). d + depth w \<le> max_depth"
    and nums: "list_all (\<lambda>(k, w). nums_ok w) ((k, v) # ms)"
  from fuel obtain f where f: "fuel = Suc f" by (cases fuel) auto
  define tail where "tail = pr_members ind n ms @ nl ind m @ CHR ''}'' # rest"
  define body where "body = quote_str k @ colon ind @ pr ind n v @ tail"
  have "delim tail"
    by (cases ms) (auto simp: tail_def delim_nl)
  then have "parse_val f d (pr ind n v @ tail) = Some (clean v, tail)"
    using x fuel dep nums f unfolding reads_def by simp
  then have val: "parse_val f d ((if ind then CHR '' '' # pr ind n v @ tail else pr ind n v @ tail)) = Some (clean v, tail)"
    using parse_val_skip_ws [of "CHR '' '' # pr ind n v @ tail" "pr ind n v @ tail" f d]
    by (auto simp: skip_ws_def js_space_def)
  have start: "drop 1 (pr_members ind n ((k, v) # ms) @ nl ind m @ CHR ''}'' # rest) = nl ind n @ body"
    by (simp add: tail_def body_def)
  have sb: "skip_ws body = CHR 0x22 # escape k @ CHR 0x22 # colon ind @ pr ind n v @ tail"
    by (simp add: body_def quote_str_def skip_ws_Cons js_space_def)
  have "parse_members (Suc f) d body = Some (map (\<lambda>(k, v). (sanitize k, clean v)) ((k, v) # ms), rest)"
  proof (cases ms)
    case Nil
    then have "skip_ws tail = CHR ''}'' # rest" by (simp add: tail_def skip_ws_Cons js_space_def)
    with val Nil sb show ?thesis
      by (simp add: scan_str_escape skip_ws_colon_space unquote_escape)
  next
    case (Cons y ys)
    have sk: "skip_ws tail = CHR '','' # drop 1 tail"
      by (cases y) (simp add: tail_def Cons skip_ws_Cons js_space_def)
    have "parse_members f d (drop 1 tail) = Some (map (\<lambda>(k, v). (sanitize k, clean v)) ms, rest)"
      using xs fuel dep nums f Cons unfolding reads_members_def tail_def by simp
    with val sk sb show ?thesis
      by (simp add: scan_str_escape skip_ws_colon_space unquote_escape)
  qed
  then show "parse_members fuel d (drop 1 (pr_members ind n ((k, v) # ms) @ nl ind m @ CHR ''}'' # rest)) =
      Some (map (\<lambda>(k, v). (sanitize k, clean v)) ((k, v) # ms), rest)"
    unfolding start f
    using parse_members_skip_ws [of "nl ind n @ body" body "Suc f" d]
    by (simp del: parse_members.simps)
qed


lemma reads_simple:
  "reads ind n JNull" "reads ind n (JBool b)" "reads ind n (JStr s)"
proof -
  show "reads ind n JNull"
    unfolding reads_def
    by (intro allI impI) (case_tac fuel; simp add: skip_ws_Cons js_space_def HasPrefix_def)
  show "reads ind n (JBool b)"
    unfolding reads_def
    by (intro allI impI, case_tac fuel) (cases b; simp add: skip_ws_Cons js_space_def HasPrefix_def)+
  show "reads ind n (JStr s)"
    unfolding reads_def
    by (intro allI impI)
      (case_tac fuel; simp add: skip_ws_Cons js_space_def quote_str_def scan_str_escape unquote_escape)
qed

lemma reads_num: "reads ind n (JNum t)"
  unfolding reads_def
proof (intro allI impI)
  fix fuel d rest
  assume a: "weight (JNum t) \<le> fuel" "nums_ok (JNum t)" "delim rest"
  then obtain f where f: "fuel = Suc f" by (cases fuel) auto
  have t: "scan_num t = Some (t, [])" using a by (simp add: num_ok_def)
  then obtain c cs where c: "t = c # cs" by (cases t) (auto simp: scan_num_def scan_int_def)
  with t have cd: "is_digit c \<or> c = CHR ''-''" using scan_num_first by metis
  then have ns: "\<not> js_space c" "c \<notin> {CHR 0x22, CHR ''['', CHR ''{'', CHR ''n'', CHR ''t'', CHR ''f''}"
    by (auto simp: js_space_def is_digit_def)
  have "scan_num (c # cs @ rest) = Some (t, rest)"
    using scan_num_append [OF t a(3)] c by simp
  with ns c show "parse_val fuel d (pr ind n (JNum t) @ rest) = Some (clean (JNum t), rest)"
    by (simp add: f skip_ws_Cons HasPrefix_def)
qed

lemma reads_arr_Nil: "reads ind n (JArr [])"
  unfolding reads_def
  by (intro allI impI) (case_tac fuel; simp add: skip_ws_Cons js_space_def)

lemma reads_obj_Nil: "reads ind n (JObj [])"
  unfolding reads_def
  by (intro allI impI) (case_tac fuel; simp add: skip_ws_Cons js_space_def)

lemma add_depth_le:
  "d + Suc (fold max (ks :: nat list) 0) \<le> k \<longleftrightarrow> Suc d \<le> k \<and> (\<forall>x \<in> set ks. Suc d + x \<le> k)"
proof (cases "Suc d \<le> k")
  case True
  then have m: "Suc d + x \<le> k \<longleftrightarrow> x \<le> k - Suc d" for x by auto
  have "d + Suc (fold max ks 0) \<le> k \<longleftrightarrow> fold max ks 0 \<le> k - Suc d" using True by auto
  also have "\<dots> \<longleftrightarrow> (\<forall>x \<in> set ks. x \<le> k - Suc d)" by (simp add: fold_max_le)
  finally show ?thesis using True by (simp only: m simp_thms)
qed simp

lemma depth_JArr: "d + depth (JArr xs) \<le> k \<longleftrightarrow> Suc d \<le> k \<and> (\<forall>x \<in> set xs. Suc d + depth x \<le> k)"
  using add_depth_le [of d "map depth xs" k] by simp

lemma depth_JObj: "d + depth (JObj ms) \<le> k \<longleftrightarrow> Suc d \<le> k \<and> (\<forall>(x, v) \<in> set ms. Suc d + depth v \<le> k)"
  using add_depth_le [of d "map (\<lambda>(x, v). depth v) ms" k] by (simp add: split_beta)

lemma reads_arr:
  assumes "reads_elems ind (Suc n) (x # xs)"
  shows "reads ind n (JArr (x # xs))"
  unfolding reads_def
proof (intro allI impI)
  fix fuel d rest
  assume w: "weight (JArr (x # xs)) \<le> fuel" and dep: "d + depth (JArr (x # xs)) \<le> max_depth"
    and nums: "nums_ok (JArr (x # xs))"
  from w obtain f where f: "fuel = Suc f" by (cases fuel) auto
  define body where "body = drop 1 (pr_elems ind (Suc n) (x # xs) @ nl ind n @ CHR '']'' # rest)"
  have "parse_elems f (Suc d) body = Some (map clean (x # xs), rest)"
    using assms w dep nums unfolding reads_elems_def body_def depth_JArr f by simp
  moreover have "pr ind n (JArr (x # xs)) @ rest = CHR ''['' # body"
    by (simp add: body_def)
  moreover obtain c cs where "skip_ws body = c # cs" "c \<noteq> CHR '']''"
    using skip_ws_pr [of x ind "Suc n"] nums by (auto simp: body_def skip_ws_Cons)
  ultimately show "parse_val fuel d (pr ind n (JArr (x # xs)) @ rest) = Some (clean (JArr (x # xs)), rest)"
    using dep unfolding depth_JArr by (simp add: f skip_ws_Cons js_space_def)
qed

lemma reads_obj:
  assumes "reads_members ind (Suc n) ((k, v) # ms)"
  shows "reads ind n (JObj ((k, v) # ms))"
  unfolding reads_def
proof (intro allI impI)
  fix fuel d rest
  assume w: "weight (JObj ((k, v) # ms)) \<le> fuel" and dep: "d + depth (JObj ((k, v) # ms)) \<le> max_depth"
    and nums: "nums_ok (JObj ((k, v) # ms))"
  from w obtain f where f: "fuel = Suc f" by (cases fuel) auto
  define body where "body = drop 1 (pr_members ind (Suc n) ((k, v) # ms) @ nl ind n @ CHR ''}'' # rest)"
  have "parse_members f (Suc d) body = Some (map (\<lambda>(k, v). (sanitize k, clean v)) ((k, v) # ms), rest)"
    using assms w dep nums unfolding reads_members_def body_def depth_JObj f by simp
  moreover have "pr ind n (JObj ((k, v) # ms)) @ rest = CHR ''{'' # body"
    by (simp add: body_def)
  moreover obtain c cs where "skip_ws body = c # cs" "c \<noteq> CHR ''}''"
    by (auto simp: body_def quote_str_def skip_ws_Cons js_space_def)
  ultimately show "parse_val fuel d (pr ind n (JObj ((k, v) # ms)) @ rest) = Some (clean (JObj ((k, v) # ms)), rest)"
    using dep unfolding depth_JObj by (simp add: f skip_ws_Cons js_space_def)
qed

lemma reads_all:
  "reads ind n v" "reads_elems ind n xs" "reads_members ind n ms"
proof (induction ind n v and ind n xs and ind n ms rule: pr_pr_elems_pr_members.induct)
  case (9 ind n)
  show ?case by (simp add: reads_elems_def)
next
  case (11 ind n)
  show ?case by (simp add: reads_members_def)
qed (simp_all add: reads_simple reads_num reads_arr_Nil reads_obj_Nil reads_arr reads_obj
      reads_elems_Cons reads_members_Cons del: pr.simps pr_elems.simps pr_members.simps)

text \<open>The fuel of \<open>decode_first\<close> is enough for everything the encoder writes.\<close>

lemma length_pr:
  "nums_ok v \<Longrightarrow> weight v \<le> length (pr ind n v)"
  "list_all nums_ok xs \<Longrightarrow> sum_list (map (\<lambda>x. Suc (weight x)) xs) \<le> length (pr_elems ind n xs)"
  "list_all (\<lambda>(k, v). nums_ok v) ms \<Longrightarrow>
     sum_list (map (\<lambda>(k, v). Suc (weight v)) ms) \<le> length (pr_members ind n ms)"
proof (induction ind n v and ind n xs and ind n ms rule: pr_pr_elems_pr_members.induct)
  case (3 ind n t)
  then show ?case using skip_ws_pr [of "JNum t" ind n] by (cases t) auto
qed (auto simp: quote_str_def)

theorem parse_pr:
  assumes "nums_ok v" "depth v \<le> max_depth" "delim rest"
  shows "decode_first (pr ind n v @ rest) = Some (clean v, rest)"
proof -
  have "weight v \<le> fuel_of (pr ind n v @ rest)"
    using length_pr(1) [OF assms(1), of ind n] by (simp add: fuel_of_def)
  then show ?thesis
    using reads_all(1) [of ind n v] assms unfolding reads_def decode_first_def by simp
qed

text \<open>The encodings that the program writes are read back.\<close>

lemma parse_all_marshal:
  assumes "nums_ok v" "texts_ok v" "depth v \<le> max_depth"
  shows "parse_all (marshal v) = Some v" "parse_all (marshal_indent v) = Some v"
  using parse_pr [OF assms(1,3), of "[]"] clean_texts_ok [OF assms(2)]
  by (simp_all add: parse_all_def marshal_def marshal_indent_def skip_ws_def)

text \<open>Reordering members for the encoding keeps the conditions of the round trip.\<close>

lemma set_sort_key_eq [simp]: "set (sort_key f xs) = set xs"
  by simp

lemma nums_ok_obj_of: "(\<And>k v. (k, v) \<in> set m \<Longrightarrow> nums_ok (f v)) \<Longrightarrow> nums_ok (obj_of f m)"
  by (auto simp: obj_of_def list_all_iff)

lemma texts_ok_obj_of:
  "(\<And>k v. (k, v) \<in> set m \<Longrightarrow> utf8_valid k \<and> texts_ok (f v)) \<Longrightarrow> texts_ok (obj_of f m)"
  by (auto simp: obj_of_def list_all_iff)

lemma depth_obj_of: "(\<And>k v. (k, v) \<in> set m \<Longrightarrow> Suc (depth (f v)) \<le> n) \<Longrightarrow> 1 \<le> n \<Longrightarrow> depth (obj_of f m) \<le> n"
  using add_depth_le [of 0 "map (\<lambda>(k, v). depth v) (map (\<lambda>(k, v). (k, f v)) (sort_key fst m))" n]
  by (auto simp: obj_of_def)


section \<open>The scanner's fuel\<close>

lemma length_skip_ws: "length (skip_ws s) \<le> length s"
  unfolding skip_ws_def by (induction s) auto

lemma skip_ws_Cons_length: "skip_ws s = c # cs \<Longrightarrow> length cs < length s"
  using length_skip_ws [of s] by simp

lemma scan_str_length: "scan_str s = Some (t, r) \<Longrightarrow> length r < length s"
proof (induction s arbitrary: t r rule: length_induct)
  case (1 s)
  then obtain c cs where s: "s = c # cs" by (cases s) auto
  have sub: "length r < length s"
    if m: "map_option (\<lambda>(u, rest). (g u, rest)) (scan_str s') = Some (t, r)"
      and l: "length s' < length s" for g s'
  proof -
    obtain u where "scan_str s' = Some (u, r)" using m by (cases "scan_str s'") auto
    with l 1(1) have "length r < length s'" by blast
    with l show ?thesis by simp
  qed
  note prem = 1(2) [unfolded s scan_str.simps]
  show ?case
  proof (cases "c = CHR 0x22 \<or> c \<noteq> CHR 0x5C")
    case True
    then show ?thesis using prem sub [of "\<lambda>u. c # u" cs] s by (auto split: if_splits)
  next
    case False
    then obtain e q where cs: "cs = e # q" using prem by (cases cs) auto
    define E where "E = (e \<in> set [CHR 0x22, CHR 0x5C, CHR ''/'', CHR ''b'', CHR ''f'', CHR ''n'', CHR ''r'', CHR ''t''])"
    show ?thesis
    proof (cases E)
      case True
      with False prem cs have "map_option (\<lambda>(u, rest). (c # e # u, rest)) (scan_str q) = Some (t, r)"
        unfolding E_def by (simp only: if_True if_False simp_thms list.case) (simp split: if_splits)
      from sub [OF this] s cs show ?thesis by simp
    next
      case nE: False
      with False prem cs obtain h1 h2 h3 h4 q' where q: "q = h1 # h2 # h3 # h4 # q'"
        and "map_option (\<lambda>(u, rest). (c # e # h1 # h2 # h3 # h4 # u, rest)) (scan_str q') = Some (t, r)"
        unfolding E_def
        by (simp only: if_True if_False simp_thms list.case) (auto split: if_splits list.splits)
      from sub [OF this(2)] s cs q show ?thesis by simp
    qed
  qed
qed

lemma dropWhile_length: "length (dropWhile P s) \<le> length s"
  by (induction s) auto

lemma scan_num_length: "scan_num s = Some (t, r) \<Longrightarrow> length r < length s"
proof -
  have i: "scan_int s = Some (t, r) \<Longrightarrow> length r < length s" for s t r
    using dropWhile_length [of is_digit] by (auto simp: scan_int_def le_imp_less_Suc split: list.splits if_splits)
  have f: "scan_frac s = Some (t, r) \<Longrightarrow> length r \<le> length s" for s t r
    using dropWhile_length [of is_digit] by (auto simp: scan_frac_def le_SucI split: list.splits if_splits)
  have e: "scan_exp s = Some (t, r) \<Longrightarrow> length r \<le> length s" for s t r
    using dropWhile_length [of is_digit]
    by (auto simp: scan_exp_def Let_def le_SucI split: list.splits if_splits)
  assume "scan_num s = Some (t, r)"
  then show ?thesis
    by (auto simp: scan_num_def split: list.splits if_splits option.splits dest!: i f e)
qed

lemma parse_length:
  "parse_val n d s = Some (v, r) \<Longrightarrow> length r < length s"
  "parse_elems n d s = Some (xs, r) \<Longrightarrow> length r < length s"
  "parse_members n d s = Some (ms, r) \<Longrightarrow> length r < length s"
proof (induction n d s and n d s and n d s arbitrary: v r and xs r and ms r
    rule: parse_val_parse_elems_parse_members.induct)
  case (2 n d s)
  then show ?case
    by (auto split: list.splits if_splits dest!: skip_ws_Cons_length scan_str_length scan_num_length) fastforce+
next
  case (4 n d s)
  then show ?case
    by (auto split: list.splits if_splits option.splits dest!: skip_ws_Cons_length) fastforce+
next
  case (6 n d s)
  then show ?case
    by (auto split: list.splits if_splits option.splits dest!: skip_ws_Cons_length scan_str_length) fastforce+
qed auto


text \<open>Any fuel above the bound reads the same: \<open>fuel_of\<close> is enough for every text.\<close>

lemma parse_val_step:
  assumes "\<And>t e. length t < length s \<Longrightarrow> parse_elems n e t = parse_elems m e t"
    and "\<And>t e. length t < length s \<Longrightarrow> parse_members n e t = parse_members m e t"
  shows "parse_val (Suc n) d s = parse_val (Suc m) d s"
proof (cases "skip_ws s")
  case (Cons c cs)
  have "parse_elems n (Suc d) cs = parse_elems m (Suc d) cs" "parse_members n (Suc d) cs = parse_members m (Suc d) cs"
    using assms skip_ws_Cons_length [OF Cons] by simp_all
  then show ?thesis by (cases "skip_ws cs") (simp_all add: Cons)
qed simp

lemma parse_elems_step:
  assumes "parse_val n d s = parse_val m d s" "\<And>t. length t < length s \<Longrightarrow> parse_elems n d t = parse_elems m d t"
  shows "parse_elems (Suc n) d s = parse_elems (Suc m) d s"
proof (cases "parse_val m d s")
  case (Some x)
  obtain u r where x: "x = (u, r)" by (cases x)
  show ?thesis
  proof (cases "skip_ws r")
    case (Cons c cs)
    then have "parse_elems n d cs = parse_elems m d cs"
      using assms(2) [of cs] parse_length(1) [of m d s u r] Some x skip_ws_Cons_length [OF Cons] by simp
    then show ?thesis by (simp add: assms(1) Some x Cons)
  qed (simp add: assms(1) Some x)
qed (simp add: assms(1))

lemma parse_members_step:
  assumes "\<And>t. length t < length s \<Longrightarrow> parse_val n d t = parse_val m d t"
    and "\<And>t. length t < length s \<Longrightarrow> parse_members n d t = parse_members m d t"
  shows "parse_members (Suc n) d s = parse_members (Suc m) d s"
proof -
  have len: "length s3 < length s"
    if "skip_ws s = q # s1" "scan_str s1 = Some (k, s2)" "skip_ws s2 = c # s3" for q s1 k s2 c s3
    using skip_ws_Cons_length [OF that(1)] scan_str_length [OF that(2)] skip_ws_Cons_length [OF that(3)] by linarith
  have mem: "parse_members n d r' = parse_members m d r'"
    if "skip_ws s = q # s1" "scan_str s1 = Some (k, s2)" "skip_ws s2 = c # s3" "parse_val m d s3 = Some (u, r)" "skip_ws r = c' # r'"
    for q s1 k s2 c s3 u r c' r'
    using assms(2) [of r'] len [OF that(1-3)] parse_length(1) [OF that(4)] skip_ws_Cons_length [OF that(5)] by linarith
  have val: "parse_val n d s3 = parse_val m d s3"
    if "skip_ws s = q # s1" "scan_str s1 = Some (k, s2)" "skip_ws s2 = c # s3" for q s1 k s2 c s3
    by (rule assms(1) [OF len [OF that]])
  show ?thesis
    by (simp add: val mem cong: list.case_cong option.case_cong prod.case_cong if_cong)
qed

lemma parse_fuel_all:
  "(2 * length s + 1 \<le> n \<longrightarrow> 2 * length s + 1 \<le> m \<longrightarrow> parse_val n d s = parse_val m d s)
   \<and> (2 * length s + 2 \<le> n \<longrightarrow> 2 * length s + 2 \<le> m \<longrightarrow> parse_elems n d s = parse_elems m d s)
   \<and> (2 * length s + 2 \<le> n \<longrightarrow> 2 * length s + 2 \<le> m \<longrightarrow> parse_members n d s = parse_members m d s)"
proof (induction n arbitrary: m d s)
  case (Suc n)
  show ?case
  proof (cases m)
    case m: (Suc m')
    have ih: "2 * length t + 1 \<le> n \<Longrightarrow> 2 * length t + 1 \<le> m' \<Longrightarrow> parse_val n e t = parse_val m' e t"
      "2 * length t + 2 \<le> n \<Longrightarrow> 2 * length t + 2 \<le> m' \<Longrightarrow> parse_elems n e t = parse_elems m' e t"
      "2 * length t + 2 \<le> n \<Longrightarrow> 2 * length t + 2 \<le> m' \<Longrightarrow> parse_members n e t = parse_members m' e t" for t e
      using Suc.IH [of t m' e] by blast+
    show ?thesis
      unfolding m
      by (intro conjI impI parse_val_step parse_elems_step parse_members_step; rule ih; simp)
  qed simp
qed simp

lemma parse_fuel:
  "2 * length s + 1 \<le> n \<Longrightarrow> 2 * length s + 1 \<le> m \<Longrightarrow> parse_val n d s = parse_val m d s"
  using parse_fuel_all by blast

theorem decode_first_any_fuel:
  "2 * length s + 1 \<le> n \<Longrightarrow> parse_val n 0 s = decode_first s"
  unfolding decode_first_def by (rule parse_fuel) (simp_all add: fuel_of_def)

end
