(* ===== verification/Json_Valid.thy ===== *)
theory Json_Valid
  imports Go_Json_Facts
begin

text \<open>
  What a scanned value is: its strings are valid UTF-8 (the decoder replaces what is not) and it is not
  nested deeper than the scanner's limit.
\<close>

lemma code_char_of: "k < 256 \<Longrightarrow> code_of (char_of k) = k"
  by simp

lemma three_digits:
  fixes r :: nat
  shows "r div 4096 * 4096 + r div 64 mod 64 * 64 + r mod 64 = r"
proof -
  have "r div 4096 = r div 64 div 64" by (simp add: div_mult2_eq)
  then have "r div 4096 * 4096 + r div 64 mod 64 * 64 = (r div 64 div 64 * 64 + r div 64 mod 64) * 64"
    by (simp only: add_mult_distrib)
  also have "\<dots> = r div 64 * 64" by (simp only: div_mult_mod_eq)
  finally show ?thesis by simp
qed

lemma four_digits:
  fixes r :: nat
  shows "r div 262144 * 262144 + r div 4096 mod 64 * 4096 + r div 64 mod 64 * 64 + r mod 64 = r"
proof -
  have "r div 262144 = r div 4096 div 64" by (simp add: div_mult2_eq)
  then have "r div 262144 * 262144 + r div 4096 mod 64 * 4096 = (r div 4096 div 64 * 64 + r div 4096 mod 64) * 4096"
    by (simp only: add_mult_distrib)
  also have "\<dots> = r div 4096 * 4096" by (simp only: div_mult_mod_eq)
  finally show ?thesis using three_digits [of r] by simp
qed

lemma second_digit:
  fixes r :: nat
  shows "0x800 \<le> r \<Longrightarrow> r div 4096 = 0 \<Longrightarrow> 32 \<le> r div 64 mod 64"
    "r < 0xD800 \<Longrightarrow> r div 4096 = 13 \<Longrightarrow> r div 64 mod 64 < 32"
    "0x10000 \<le> r \<Longrightarrow> r div 262144 = 0 \<Longrightarrow> 16 \<le> r div 4096 mod 64"
    "r < 0x110000 \<Longrightarrow> r div 262144 = 4 \<Longrightarrow> r div 4096 mod 64 < 16"
  using three_digits [of r] four_digits [of r] mod_less_divisor [of 64 r] mod_less_divisor [of 64 "r div 64"]
    mod_less_divisor [of 64 "r div 4096"]
  by linarith+

definition scalar :: "nat \<Rightarrow> bool" where
  "scalar r \<longleftrightarrow> r < 0xD800 \<or> (0xDFFF < r \<and> r \<le> 0x10FFFF)"

lemma decode_three:
  assumes "a < 16" "b < 64" "c < 64" "a = 0 \<Longrightarrow> 32 \<le> b" "a = 13 \<Longrightarrow> b < 32"
  shows "decode_rune (char_of (0xE0 + a) # char_of (0x80 + b) # char_of (0x80 + c) # t) = (a * 4096 + b * 64 + c, 3)"
proof -
  have e: "code_of (char_of (0xE0 + a)) = 0xE0 + a" "code_of (char_of (0x80 + b)) = 0x80 + b"
    "code_of (char_of (0x80 + c)) = 0x80 + c" using assms by (simp_all add: code_char_of)
  show ?thesis using assms(1-3) assms(4,5)
    by (cases "a = 0"; cases "a = 13") (simp_all add: decode_rune.simps(2) Let_def e cont_def second_range_def)
qed

lemma decode_four:
  assumes "a < 5" "b < 64" "c < 64" "d < 64" "a = 0 \<Longrightarrow> 16 \<le> b" "a = 4 \<Longrightarrow> b < 16"
  shows "decode_rune (char_of (0xF0 + a) # char_of (0x80 + b) # char_of (0x80 + c) # char_of (0x80 + d) # t)
    = (a * 262144 + b * 4096 + c * 64 + d, 4)"
proof -
  have e: "code_of (char_of (0xF0 + a)) = 0xF0 + a" "code_of (char_of (0x80 + b)) = 0x80 + b"
    "code_of (char_of (0x80 + c)) = 0x80 + c" "code_of (char_of (0x80 + d)) = 0x80 + d"
    using assms by (simp_all add: code_char_of)
  show ?thesis using assms(1-4) assms(5,6)
    by (cases "a = 0"; cases "a = 4") (simp_all add: decode_rune.simps(2) Let_def e cont_def second_range_def)
qed

lemma decode_encode_rune:
  assumes "scalar r"
  shows "decode_rune (encode_rune r @ t) = (r, length (encode_rune r))"
proof -
  have e: "\<not> (0x10FFFF < r \<or> (0xD800 \<le> r \<and> r \<le> 0xDFFF))" using assms by (auto simp: scalar_def)
  consider "r < 0x80" | "0x80 \<le> r" "r < 0x800" | "0x800 \<le> r" "r < 0x10000" | "0x10000 \<le> r" "r < 0x110000"
    using assms unfolding scalar_def by linarith
  then show ?thesis
  proof cases
    case 1
    then show ?thesis using e by (simp add: encode_rune_def decode_rune_ascii)
  next
    case 2
    then have "2 \<le> r div 64" "r div 64 < 32" by (simp_all add: div_less_iff_less_mult less_eq_div_iff_mult_less_eq)
    then show ?thesis using 2 e
      by (simp add: encode_rune_def decode_rune.simps(2) Let_def cont_def code_char_of second_range_def)
  next
    case 3
    have "r div 4096 = 13 \<Longrightarrow> r < 0xD800"
      using e three_digits [of r] mod_less_divisor [of 64 r] mod_less_divisor [of 64 "r div 64"] by linarith
    moreover have "r div 4096 < 16" using 3 by (simp add: div_less_iff_less_mult)
    ultimately have "decode_rune (char_of (0xE0 + r div 4096) # char_of (0x80 + r div 64 mod 64) # char_of (0x80 + r mod 64) # t)
        = (r div 4096 * 4096 + r div 64 mod 64 * 64 + r mod 64, 3)"
      using second_digit(1,2) [of r] 3 by (intro decode_three) simp_all
    then show ?thesis using 3 e by (cases "0xD800 \<le> r") (simp_all add: encode_rune_def three_digits)
  next
    case 4
    have "r div 262144 < 5" using 4 by (simp add: div_less_iff_less_mult)
    then have "decode_rune (char_of (0xF0 + r div 262144) # char_of (0x80 + r div 4096 mod 64)
          # char_of (0x80 + r div 64 mod 64) # char_of (0x80 + r mod 64) # t)
        = (r div 262144 * 262144 + r div 4096 mod 64 * 4096 + r div 64 mod 64 * 64 + r mod 64, 4)"
      using second_digit(3,4) [of r] 4 by (intro decode_four) simp_all
    then show ?thesis using 4 e by (cases "0xD800 \<le> r") (simp_all add: encode_rune_def four_digits)
  qed
qed

lemma encode_rune_error: "\<not> scalar r \<Longrightarrow> encode_rune r = encode_rune rune_error"
  by (auto simp: encode_rune_def scalar_def rune_error_def)

lemma encode_rune_nonempty: "encode_rune r \<noteq> []"
  by (simp add: encode_rune_def Let_def)

lemma utf8_valid_encode: "utf8_valid t \<Longrightarrow> utf8_valid (encode_rune r @ t)"
proof -
  assume t: "utf8_valid t"
  define r' where "r' = (if scalar r then r else rune_error)"
  have r': "encode_rune r = encode_rune r'" "scalar r'"
    using encode_rune_error [of r] by (simp_all add: r'_def scalar_def rune_error_def)
  obtain c cs where e: "encode_rune r' = c # cs" using encode_rune_nonempty by (cases "encode_rune r'") auto
  have "decode_rune (c # cs @ t) = (r', Suc (length cs))" using decode_encode_rune [OF r'(2), of t] e by simp
  then have "chunks (c # cs @ t) = (r', c # cs) # chunks t" by (simp add: chunks.simps(2))
  moreover have "r' = rune_error \<Longrightarrow> length (c # cs) \<noteq> 1"
    using e by (auto simp: encode_rune_def rune_error_def)
  ultimately show ?thesis using t by (auto simp: utf8_valid_def r'(1) e)
qed

lemma utf8_valid_Nil [simp]: "utf8_valid []"
  by (simp add: utf8_valid_def)

lemma unescape_char_ascii:
  "e \<in> set [CHR 0x22, CHR 0x5C, CHR ''/'', CHR 0x27, CHR ''b'', CHR ''f'', CHR ''n'', CHR ''r'', CHR ''t''] \<Longrightarrow>
     code_of (unescape_char e) < 0x80"
  unfolding list.set by (elim insertE emptyE; hypsubst; simp add: unescape_char_def)

lemma utf8_valid_unquote: "utf8_valid (unquote s)"
proof (induction s rule: unquote.induct)
  case (2 c cs)
  show ?case
  proof (cases "c = CHR 0x5C")
    case True
    show ?thesis
    proof (cases cs)
      case (Cons e r)
      show ?thesis
      proof (cases "e = CHR ''u''")
        case u: True
        then show ?thesis using 2 True Cons
          by (auto simp: unquote.simps(2) utf8_valid_encode split: option.splits)
      next
        case False
        define E where "E \<longleftrightarrow> e \<in> set [CHR 0x22, CHR 0x5C, CHR ''/'', CHR 0x27, CHR ''b'', CHR ''f'', CHR ''n'', CHR ''r'', CHR ''t'']"
        have u: "unquote (c # cs) = (if E then unescape_char e # unquote r else [])"
          unfolding unquote.simps(2) True Cons list.case E_def [symmetric] using False by simp
        have "E \<Longrightarrow> code_of (unescape_char e) < 0x80" unfolding E_def by (rule unescape_char_ascii)
        then have "E \<Longrightarrow> encode_rune (code_of (unescape_char e)) = [unescape_char e]" by (simp add: encode_rune_ascii)
        then have "utf8_valid (unescape_char e # unquote r)" if E
          using utf8_valid_encode [OF "2.IH"(4) [OF True Cons False that [unfolded E_def]], of "code_of (unescape_char e)"] that
          by simp
        then show ?thesis by (simp add: u)
      qed
    qed (simp add: unquote.simps(2) True)
  next
    case False
    then show ?thesis using 2 by (auto simp: unquote.simps(2) utf8_valid_encode split: prod.splits)
  qed
qed simp

section \<open>Scanned values\<close>

lemma parse_texts_ok:
  "parse_val n d s = Some (v, r) \<Longrightarrow> texts_ok v"
  "parse_elems n d s = Some (xs, r) \<Longrightarrow> list_all texts_ok xs"
  "parse_members n d s = Some (ms, r) \<Longrightarrow> list_all (\<lambda>(k, v). utf8_valid k \<and> texts_ok v) ms"
proof (induction n d s and n d s and n d s arbitrary: v r and xs r and ms r
    rule: parse_val_parse_elems_parse_members.induct)
  case (2 n d s)
  then show ?case by (auto simp: utf8_valid_unquote split: list.splits if_splits)
next
  case (4 n d s)
  then show ?case by (auto split: list.splits if_splits option.splits)
next
  case (6 n d s)
  then show ?case by (auto simp: utf8_valid_unquote split: list.splits if_splits option.splits)
qed auto

lemma parse_depth:
  "parse_val n d s = Some (v, r) \<Longrightarrow> d \<le> max_depth \<Longrightarrow> d + depth v \<le> max_depth"
  "parse_elems n d s = Some (xs, r) \<Longrightarrow> d \<le> max_depth \<Longrightarrow> \<forall>x \<in> set xs. d + depth x \<le> max_depth"
  "parse_members n d s = Some (ms, r) \<Longrightarrow> d \<le> max_depth \<Longrightarrow> \<forall>(k, v) \<in> set ms. d + depth v \<le> max_depth"
proof (induction n d s and n d s and n d s arbitrary: v r and xs r and ms r
    rule: parse_val_parse_elems_parse_members.induct)
  case (2 n d s)
  have a: "d + depth (JArr xs) \<le> max_depth \<longleftrightarrow> Suc d \<le> max_depth \<and> (\<forall>x \<in> set xs. Suc d + depth x \<le> max_depth)" for xs
    by (rule depth_JArr)
  have o: "d + depth (JObj ms) \<le> max_depth \<longleftrightarrow> Suc d \<le> max_depth \<and> (\<forall>(x, v) \<in> set ms. Suc d + depth v \<le> max_depth)" for ms
    by (rule depth_JObj)
  show ?case using 2
    by (auto simp: a o simp del: depth.simps(1,2) split: list.splits if_splits)
next
  case (4 n d s)
  then show ?case by (auto split: list.splits if_splits option.splits)
next
  case (6 n d s)
  then show ?case by (fastforce split: list.splits if_splits option.splits)
qed auto

lemma parse_all_valid:
  assumes "parse_all s = Some v"
  shows "texts_ok v" "depth v \<le> max_depth"
proof -
  obtain r where "decode_first s = Some (v, r)"
    using assms by (auto simp: parse_all_def split: option.splits if_splits)
  then show "texts_ok v" "depth v \<le> max_depth"
    using parse_texts_ok(1) parse_depth(1) [of "fuel_of s" 0 s v r] by (auto simp: decode_first_def)
qed

end
