(* ===== verification/Go_Decode.thy ===== *)
theory Go_Decode
  imports Go_Json_Facts
begin

text \<open>
  How encoding/json stores a scanned value in Go data: into \<open>any\<close>, into fields of basic types, into
  string maps and into structs (a member goes to the field of exactly its name, else to the first field
  whose name folds to it; unknown members are skipped). A type mismatch is remembered and decoding goes
  on, so a decoder returns the target's new value and whether all went well.
\<close>

section \<open>Into \<open>any\<close>\<close>

text \<open>A number becomes a \<open>float64\<close> (written here by the text it is encoded as), an object a map.\<close>

fun any_of :: "json_lib \<Rightarrow> json \<Rightarrow> json" where
  "any_of L (JNum t) = (case js_num L t of None \<Rightarrow> JNull | Some t' \<Rightarrow> JNum t')"
| "any_of L (JArr xs) = JArr (map (any_of L) xs)"
| "any_of L (JObj ms) = JObj (fold (\<lambda>(k, v) m. mput k v m) (map (\<lambda>(k, v). (k, any_of L v)) ms) [])"
| "any_of L v = v"

fun any_ok :: "json_lib \<Rightarrow> json \<Rightarrow> bool" where
  "any_ok L (JNum t) \<longleftrightarrow> js_num L t \<noteq> None"
| "any_ok L (JArr xs) \<longleftrightarrow> list_all (any_ok L) xs"
| "any_ok L (JObj ms) \<longleftrightarrow> list_all (\<lambda>(k, v). any_ok L v) ms"
| "any_ok L v \<longleftrightarrow> True"

text \<open>A target of type \<open>any\<close>: a number that does not convert leaves it as it is.\<close>

definition dec_any :: "json_lib \<Rightarrow> json \<Rightarrow> json \<Rightarrow> json \<times> bool" where
  "dec_any L v old =
     (case v of JNum t \<Rightarrow> (case js_num L t of None \<Rightarrow> (old, False) | Some t' \<Rightarrow> (JNum t', True))
      | _ \<Rightarrow> (any_of L v, any_ok L v))"

text \<open>A target of type \<open>map[string]any\<close>; \<open>None\<close> is the nil map.\<close>

definition dec_any_map :: "json_lib \<Rightarrow> json \<Rightarrow> (string, json) gomap option \<times> bool" where
  "dec_any_map L v =
     (case v of
        JNull \<Rightarrow> (None, True)
      | JObj ms \<Rightarrow> (Some (fold (\<lambda>(k, v) m. mput k v m) (map (\<lambda>(k, v). (k, any_of L v)) ms) []), any_ok L v)
      | _ \<Rightarrow> (None, False))"

section \<open>Into basic types\<close>

definition dec_string :: "json \<Rightarrow> string \<Rightarrow> string \<times> bool" where
  "dec_string v old = (case v of JStr s \<Rightarrow> (s, True) | JNull \<Rightarrow> (old, True) | _ \<Rightarrow> (old, False))"

definition dec_bool :: "json \<Rightarrow> bool \<Rightarrow> bool \<times> bool" where
  "dec_bool v old = (case v of JBool b \<Rightarrow> (b, True) | JNull \<Rightarrow> (old, True) | _ \<Rightarrow> (old, False))"

text \<open>\<open>strconv.ParseInt(t, 10, 64)\<close> of a number token.\<close>

definition parse_int64 :: "string \<Rightarrow> int option" where
  "parse_int64 t =
     (let (neg, ds) = (case t of c # cs \<Rightarrow> if c = CHR ''-'' then (True, cs) else (False, t) | [] \<Rightarrow> (False, t));
          i = (if neg then - int (digits_val ds) else int (digits_val ds))
      in if ds \<noteq> [] \<and> list_all is_digit ds \<and> - (2 ^ 63) \<le> i \<and> i < 2 ^ 63 then Some i else None)"

definition dec_int64 :: "json \<Rightarrow> int \<Rightarrow> int \<times> bool" where
  "dec_int64 v old =
     (case v of
        JNum t \<Rightarrow> (case parse_int64 t of None \<Rightarrow> (old, False) | Some i \<Rightarrow> (i, True))
      | JNull \<Rightarrow> (old, True)
      | _ \<Rightarrow> (old, False))"

text \<open>
  A \<open>map[string]T\<close>: every member is decoded into a fresh zero value, which is stored also when the
  decoding failed; the members are added to the map that is there, \<open>null\<close> makes it nil.
\<close>

definition dec_map :: "(json \<Rightarrow> 'v \<Rightarrow> 'v \<times> bool) \<Rightarrow> 'v \<Rightarrow> json \<Rightarrow> (string, 'v) gomap option
    \<Rightarrow> (string, 'v) gomap option \<times> bool" where
  "dec_map dec z v old =
     (case v of
        JNull \<Rightarrow> (None, True)
      | JObj ms \<Rightarrow>
          (Some (fold (\<lambda>(k, x) m. mput k (fst (dec x z)) m) ms (case old of None \<Rightarrow> [] | Some m \<Rightarrow> m)),
           list_all (\<lambda>(k, x). snd (dec x z)) ms)
      | _ \<Rightarrow> (old, False))"

text \<open>A slice: the elements are decoded into zero values.\<close>

definition dec_slice :: "(json \<Rightarrow> 'v \<Rightarrow> 'v \<times> bool) \<Rightarrow> 'v \<Rightarrow> json \<Rightarrow> 'v list \<times> bool" where
  "dec_slice dec z v =
     (case v of
        JNull \<Rightarrow> ([], True)
      | JArr xs \<Rightarrow> (map (\<lambda>x. fst (dec x z)) xs, list_all (\<lambda>x. snd (dec x z)) xs)
      | _ \<Rightarrow> ([], False))"

section \<open>Into structs\<close>

definition field_name :: "unicode \<Rightarrow> string list \<Rightarrow> string \<Rightarrow> string option" where
  "field_name u fs k = (if k \<in> set fs then Some k else find (\<lambda>f. EqualFold u f k) fs)"

text \<open>\<open>set f v z\<close> decodes \<open>v\<close> into the field \<open>f\<close> of \<open>z\<close>.\<close>

definition dec_member :: "unicode \<Rightarrow> string list \<Rightarrow> (string \<Rightarrow> json \<Rightarrow> 'a \<Rightarrow> 'a \<times> bool)
    \<Rightarrow> string \<times> json \<Rightarrow> 'a \<times> bool \<Rightarrow> 'a \<times> bool" where
  "dec_member u fs st kv zok =
     (case (kv, zok) of
        ((k, v), (z, ok)) \<Rightarrow>
          (case field_name u fs k of
             None \<Rightarrow> (z, ok)
           | Some f \<Rightarrow> (case st f v z of (z', ok') \<Rightarrow> (z', ok \<and> ok'))))"

definition dec_members :: "unicode \<Rightarrow> string list \<Rightarrow> (string \<Rightarrow> json \<Rightarrow> 'a \<Rightarrow> 'a \<times> bool)
    \<Rightarrow> (string \<times> json) list \<Rightarrow> 'a \<Rightarrow> 'a \<times> bool" where
  "dec_members u fs st ms z =
     fold (dec_member u fs st) ms (z, True)"

definition dec_struct :: "unicode \<Rightarrow> string list \<Rightarrow> (string \<Rightarrow> json \<Rightarrow> 'a \<Rightarrow> 'a \<times> bool)
    \<Rightarrow> json \<Rightarrow> 'a \<Rightarrow> 'a \<times> bool" where
  "dec_struct u fs st v z =
     (case v of
        JNull \<Rightarrow> (z, True)
      | JObj ms \<Rightarrow> dec_members u fs st ms z
      | _ \<Rightarrow> (z, False))"

section \<open>Unmarshal and Decode\<close>

text \<open>
  A syntax error leaves the target as it is; the error's text is that of \<open>js_err\<close> for the target type's
  name. \<open>Unmarshal\<close> reads a whole text, \<open>Decoder.Decode\<close> the first value of a stream.
\<close>

definition Unmarshal :: "json_lib \<Rightarrow> string \<Rightarrow> (json \<Rightarrow> 'a \<times> bool) \<Rightarrow> 'a \<Rightarrow> string \<Rightarrow> 'a \<times> string option" where
  "Unmarshal L ty dec z s =
     (case parse_all s of
        None \<Rightarrow> (z, Some (js_err L ty s))
      | Some v \<Rightarrow> (case dec v of (x, ok) \<Rightarrow> (x, if ok then None else Some (js_err L ty s))))"

definition Decode :: "json_lib \<Rightarrow> string \<Rightarrow> (json \<Rightarrow> 'a \<times> bool) \<Rightarrow> 'a \<Rightarrow> string \<Rightarrow> 'a \<times> string option" where
  "Decode L ty dec z s =
     (case decode_first s of
        None \<Rightarrow> (z, Some (js_err L ty s))
      | Some (v, _) \<Rightarrow> (case dec v of (x, ok) \<Rightarrow> (x, if ok then None else Some (js_err L ty s))))"

section \<open>Optional members and lists\<close>

text \<open>Members with \<open>omitempty\<close>; a list is encoded when every element is, a nil slice is \<open>null\<close>.\<close>

definition opt_str :: "string \<Rightarrow> string \<Rightarrow> (string \<times> json) list" where
  "opt_str k s = (if s = [] then [] else [(k, JStr s)])"

definition opt_flag :: "string \<Rightarrow> bool \<Rightarrow> (string \<times> json) list" where
  "opt_flag k b = (if b then [(k, JBool True)] else [])"

fun list_json :: "('a \<Rightarrow> json option) \<Rightarrow> 'a list \<Rightarrow> json list option" where
  "list_json f [] = Some []"
| "list_json f (x # xs) =
     (case f x of None \<Rightarrow> None | Some j \<Rightarrow> map_option (\<lambda>js. j # js) (list_json f xs))"

definition nil_slice :: "json list \<Rightarrow> json" where
  "nil_slice js = (if js = [] then JNull else JArr js)"

lemma nums_ok_members:
  "list_all (\<lambda>(k, v). nums_ok v) (opt_str k s)" "list_all (\<lambda>(k, v). nums_ok v) (opt_flag k b)"
  by (simp_all add: opt_str_def opt_flag_def)

lemma list_json_Some: "list_json f xs = Some js \<longleftrightarrow> map f xs = map Some js"
  by (induction xs arbitrary: js) (auto simp: Cons_eq_map_conv split: option.splits)

lemma list_json_total: "(\<And>x. x \<in> set xs \<Longrightarrow> f x \<noteq> None) \<Longrightarrow> list_json f xs = Some (map (the \<circ> f) xs)"
  by (induction xs) (fastforce split: option.splits)+

section \<open>Facts\<close>

lemma field_name_exact: "f \<in> set fs \<Longrightarrow> field_name u fs f = Some f"
  by (simp add: field_name_def)

lemma dec_members_Nil [simp]: "dec_members u fs st [] z = (z, True)"
  by (simp add: dec_members_def)

lemma fold_dec_member:
  "fold (dec_member u fs st) ms (z, b) = (case fold (dec_member u fs st) ms (z, True) of (z', ok) \<Rightarrow> (z', b \<and> ok))"
proof (induction ms arbitrary: z b)
  case (Cons kv ms)
  obtain k v where kv: "kv = (k, v)" by (cases kv)
  obtain z1 b1 where s: "dec_member u fs st kv (z, True) = (z1, b1)" by fastforce
  then have "dec_member u fs st kv (z, b) = (z1, b \<and> b1)"
    by (auto simp: kv dec_member_def split: option.splits prod.splits)
  with s Cons [of z1 "b \<and> b1"] Cons [of z1 b1] show ?case
    by (simp only: fold_Cons o_apply) (simp split: prod.splits)
qed simp

lemma dec_members_Cons:
  assumes "field_name u fs k = Some f" "st f v z = (z', ok')"
  shows "dec_members u fs st ((k, v) # ms) z =
     (case dec_members u fs st ms z' of (x, ok) \<Rightarrow> (x, ok' \<and> ok))"
  using assms fold_dec_member [of u fs st ms z' ok'] by (simp add: dec_members_def dec_member_def)

lemma dec_members_skip:
  "field_name u fs k = None \<Longrightarrow> dec_members u fs st ((k, v) # ms) z = dec_members u fs st ms z"
  by (simp add: dec_members_def dec_member_def)

text \<open>An encoded integer is decoded to itself.\<close>

lemma list_all_digits_dec_nat: "list_all is_digit (dec_nat n)"
  using dec_nat_digits by (simp add: list_all_iff)

lemma dec_nat_no_minus: "dec_nat n = c # cs \<Longrightarrow> c \<noteq> CHR ''-''"
  using dec_nat_digits [of n] by (auto simp: is_digit_def)

lemma parse_int64_dec_int:
  assumes "- (2 ^ 63) \<le> i" "i < 2 ^ 63"
  shows "parse_int64 (dec_int i) = Some i"
proof (cases "i < 0")
  case True
  then show ?thesis using assms by (simp add: parse_int64_def dec_int_def list_all_digits_dec_nat)
next
  case False
  obtain c cs where d: "dec_nat (nat i) = c # cs" using dec_nat_nonempty by (cases "dec_nat (nat i)") auto
  then show ?thesis
    using False assms dec_nat_no_minus [OF d] list_all_digits_dec_nat [of "nat i"]
      digits_val_dec_nat [of "nat i"]
    by (simp add: parse_int64_def dec_int_def del: digits_val_dec_nat)
qed

text \<open>Building a map from entries with distinct keys keeps the entries in order.\<close>

lemma mput_new: "k \<notin> set (mkeys m) \<Longrightarrow> mput k v m = m @ [(k, v)]"
  unfolding mput_def mkeys_def by (induction m) auto

lemma fold_mput_append:
  "distinct (map fst xs) \<Longrightarrow> set (map fst xs) \<inter> set (mkeys m) = {} \<Longrightarrow>
     fold (\<lambda>(k, v) m. mput k (g v) m) xs m = m @ map (\<lambda>(k, v). (k, g v)) xs"
proof (induction xs arbitrary: m)
  case (Cons kv xs)
  obtain k v where kv: "kv = (k, v)" by (cases kv)
  have "fold (\<lambda>(k, v) m. mput k (g v) m) xs (mput k (g v) m) =
      mput k (g v) m @ map (\<lambda>(k, v). (k, g v)) xs"
    using Cons.prems by (intro Cons.IH) (auto simp: kv)
  then show ?case using Cons.prems by (simp add: kv mput_new)
qed simp

lemma fold_mput_id: "distinct (map fst xs) \<Longrightarrow> fold (\<lambda>(k, v) m. mput k (g v) m) xs [] = map (\<lambda>(k, v). (k, g v)) xs"
  using fold_mput_append [of xs "[]" g] by simp

lemma distinct_sort_key_fst: "mok m \<Longrightarrow> distinct (map fst (sort_key fst m))"
proof -
  assume "mok m"
  then have "distinct (map fst m)" by (simp add: mok_def mkeys_def)
  moreover have "mset (map fst (sort_key fst m)) = mset (map fst m)" by simp
  ultimately show ?thesis by (metis mset_eq_imp_distinct_iff)
qed

lemma mok_sort: "mok m \<Longrightarrow> mok (sort_key fst m)"
  using distinct_sort_key_fst by (simp add: mok_def mkeys_def)

lemma mget_sort:
  assumes "mok m"
  shows "mget (sort_key fst m) k = mget m k"
proof -
  have "mget (sort_key fst m) k = Some v \<longleftrightarrow> mget m k = Some v" for v
    using mget_iff_in_set [OF assms] mget_iff_in_set [OF mok_sort [OF assms]] by simp
  then show ?thesis by (metis not_Some_eq)
qed

lemma sort_key_map_snd: "sort_key fst (map (\<lambda>(k, v). (k, f v)) m) = map (\<lambda>(k, v). (k, f v)) (sort_key fst m)"
proof -
  have i: "insort_key fst (k, f v) (map (\<lambda>(k, v). (k, f v)) xs) = map (\<lambda>(k, v). (k, f v)) (insort_key fst (k, v) xs)"
    for k v xs by (induction xs) auto
  show ?thesis by (induction m) (auto simp: i)
qed

text \<open>A map written by \<open>obj_of\<close> is read back, in the order of its keys.\<close>

lemma dec_map_obj_of:
  assumes "mok m" and "\<And>k v. (k, v) \<in> set m \<Longrightarrow> dec (f v) z = (v, True)"
  shows "dec_map dec z (obj_of f m) None = (Some (sort_key fst m), True)"
proof -
  define ms where "ms = map (\<lambda>(k, v). (k, f v)) (sort_key fst m)"
  have d: "distinct (map fst ms)"
    using distinct_sort_key_fst [OF assms(1)] by (simp add: ms_def o_def case_prod_unfold)
  have "fold (\<lambda>(k, x) m. mput k (fst (dec x z)) m) ms [] = map (\<lambda>(k, x). (k, fst (dec x z))) ms"
    by (rule fold_mput_id [OF d])
  also have "\<dots> = sort_key fst m"
    using assms(2) by (auto simp: ms_def o_def case_prod_unfold intro!: map_idI)
  finally show ?thesis
    using assms(2) by (simp add: dec_map_def obj_of_def ms_def [symmetric] list_all_iff) (auto simp: ms_def)
qed

end
