(* ===== verification/Go_Reply.thy ===== *)
theory Go_Reply
  imports Go_Http Go_Json
begin

text \<open>
  The reply of an HTTP handler, as net/http builds it: the status (200 unless the handler sets one), the
  headers and the body. \<open>http_Error\<close> is \<open>http.Error\<close>.
\<close>

record reply =
  rp_Status :: int
  rp_Header :: header
  rp_Body :: string

definition new_reply :: reply where
  "new_reply = \<lparr>rp_Status = 200, rp_Header = [], rp_Body = []\<rparr>"

definition reply_set :: "string \<Rightarrow> string \<Rightarrow> reply \<Rightarrow> reply" where
  "reply_set k v w = w\<lparr>rp_Header := Header_Set k v (rp_Header w)\<rparr>"

definition reply_write :: "string \<Rightarrow> reply \<Rightarrow> reply" where
  "reply_write b w = w\<lparr>rp_Body := rp_Body w @ b\<rparr>"

definition http_Error :: "string \<Rightarrow> int \<Rightarrow> reply \<Rightarrow> reply" where
  "http_Error msg code w =
     reply_write (msg @ [CHR 0x0A])
       (reply_set ''X-Content-Type-Options'' ''nosniff''
         (reply_set ''Content-Type'' ''text/plain; charset=utf-8'' w)\<lparr>rp_Status := code\<rparr>)"

lemma http_Error_status [simp]: "rp_Status (http_Error msg code w) = code"
  by (simp add: http_Error_def reply_set_def reply_write_def)

lemma reply_simps [simp]:
  "rp_Status (reply_set k v w) = rp_Status w" "rp_Status (reply_write b w) = rp_Status w"
  "rp_Body (reply_set k v w) = rp_Body w" "rp_Body (reply_write b w) = rp_Body w @ b"
  "rp_Status new_reply = 200" "rp_Body new_reply = []" "rp_Header new_reply = []"
  by (simp_all add: reply_set_def reply_write_def new_reply_def)

text \<open>A \<open>map[string]any\<close> of the given entries: members in the order of the keys.\<close>

abbreviation map_json :: "(string \<times> json) list \<Rightarrow> json" where
  "map_json ms \<equiv> obj_of (\<lambda>j. j) ms"

text \<open>Text that the encoder writes as it is.\<close>

definition json_plain :: "char \<Rightarrow> bool" where
  "json_plain c \<longleftrightarrow> (let b = code_of c in 32 \<le> b \<and> b < 128 \<and> b \<noteq> 34 \<and> b \<noteq> 92 \<and> b \<noteq> 60 \<and> b \<noteq> 62 \<and> b \<noteq> 38)"

lemma escape_plain: "list_all json_plain s \<Longrightarrow> escape s = s"
proof (induction s)
  case (Cons c s)
  then have "code_of c < 128" "esc_rune (code_of c) [c] = [c]"
    by (auto simp: json_plain_def esc_rune_def Let_def)
  with Cons show ?case by (simp add: escape_def chunks_Cons_ascii)
qed (simp add: escape_def)

lemma quote_plain: "list_all json_plain s \<Longrightarrow> quote_str s = CHR 0x22 # s @ [CHR 0x22]"
  by (simp add: quote_str_def escape_plain)

end
