(* ===== verification/Rewrite.thy ===== *)
theory Rewrite
  imports Render Json_Valid Go_Decode Go_Reply
begin

text \<open>
  Rules as JSON (the struct tags of rules.go) and the rewriting of requests (\<open>applyRewrite\<close>).
  \<^item> The encoding and decoding of rules, with their round trip: what \<open>rules.json\<close>, the admin API and MCP
    exchange.
  \<^item> A rewritten request has a consistent body: the length, the content and \<open>GetBody\<close> agree; merging
    keys into a JSON body touches the listed keys only.
\<close>

section \<open>Rules as JSON\<close>

definition rule_json :: "rule \<Rightarrow> json" where
  "rule_json r =
     JObj (opt_str ''id'' (ru_ID r) @
       [(''host'', JStr (ru_Host r)), (''path'', JStr (ru_Path r)), (''method'', JStr (ru_Method r)),
        (''status'', JNum (dec_int (ru_Status r))), (''body'', JStr (ru_Body r)),
        (''content_type'', JStr (ru_Type r))] @
       opt_str ''action'' (ru_Action r) @
       (if ru_RewriteJSON r = [] then [] else [(''rewrite_json'', obj_of JStr (ru_RewriteJSON r))]) @
       opt_str ''rewrite_body'' (ru_RewriteBody r) @
       opt_str ''script'' (ru_Script r))"

definition rule_fields :: "string list" where
  "rule_fields = [''id'', ''host'', ''path'', ''method'', ''status'', ''body'', ''content_type'', ''action'',
     ''rewrite_json'', ''rewrite_body'', ''script'']"

definition set_rule_field :: "string \<Rightarrow> json \<Rightarrow> rule \<Rightarrow> rule \<times> bool" where
  "set_rule_field f v r =
     (if f = ''id'' then (case dec_string v (ru_ID r) of (x, ok) \<Rightarrow> (r\<lparr>ru_ID := x\<rparr>, ok))
      else if f = ''host'' then (case dec_string v (ru_Host r) of (x, ok) \<Rightarrow> (r\<lparr>ru_Host := x\<rparr>, ok))
      else if f = ''path'' then (case dec_string v (ru_Path r) of (x, ok) \<Rightarrow> (r\<lparr>ru_Path := x\<rparr>, ok))
      else if f = ''method'' then (case dec_string v (ru_Method r) of (x, ok) \<Rightarrow> (r\<lparr>ru_Method := x\<rparr>, ok))
      else if f = ''status'' then (case dec_int64 v (ru_Status r) of (x, ok) \<Rightarrow> (r\<lparr>ru_Status := x\<rparr>, ok))
      else if f = ''body'' then (case dec_string v (ru_Body r) of (x, ok) \<Rightarrow> (r\<lparr>ru_Body := x\<rparr>, ok))
      else if f = ''content_type'' then (case dec_string v (ru_Type r) of (x, ok) \<Rightarrow> (r\<lparr>ru_Type := x\<rparr>, ok))
      else if f = ''action'' then (case dec_string v (ru_Action r) of (x, ok) \<Rightarrow> (r\<lparr>ru_Action := x\<rparr>, ok))
      else if f = ''rewrite_json'' then
        (case dec_map dec_string [] v (Some (ru_RewriteJSON r)) of
           (m, ok) \<Rightarrow> (r\<lparr>ru_RewriteJSON := (case m of None \<Rightarrow> [] | Some m \<Rightarrow> m)\<rparr>, ok))
      else if f = ''rewrite_body'' then (case dec_string v (ru_RewriteBody r) of (x, ok) \<Rightarrow> (r\<lparr>ru_RewriteBody := x\<rparr>, ok))
      else if f = ''script'' then (case dec_string v (ru_Script r) of (x, ok) \<Rightarrow> (r\<lparr>ru_Script := x\<rparr>, ok))
      else (r, True))"

definition dec_rule :: "unicode \<Rightarrow> json \<Rightarrow> rule \<Rightarrow> rule \<times> bool" where
  "dec_rule u v r = dec_struct u rule_fields set_rule_field v r"

section \<open>Rewriting a request\<close>

text \<open>
  \<open>applyRewrite\<close>. The body is read through a limit of 1 MiB. \<open>json.Marshal\<close> of a map of decoded values
  cannot fail, so the branch of its error does not occur.
\<close>

definition body_limit :: nat where "body_limit = 2 ^ 20"

definition read_object :: "json_lib \<Rightarrow> string \<Rightarrow> (string, json) gomap" where
  "read_object L raw =
     (case parse_all raw of
        None \<Rightarrow> []
      | Some v \<Rightarrow>
          (case dec_any_map L v of
             (Some m, True) \<Rightarrow> m
           | _ \<Rightarrow> []))"

definition merge_keys :: "script_host \<Rightarrow> rule \<Rightarrow> request \<Rightarrow> (string, json) gomap \<Rightarrow> (string, json) gomap" where
  "merge_keys E r req obj =
     fold (\<lambda>k m. mput k (JStr (evalJSONValue E (mgetd [] (ru_RewriteJSON r) k) (Some req))) m)
       (sx_order E (mkeys (ru_RewriteJSON r))) obj"

definition encode_object :: "(string, json) gomap \<Rightarrow> string" where
  "encode_object obj = marshal (obj_of sort_keys obj)"

definition applyRewrite :: "json_lib \<Rightarrow> script_host \<Rightarrow> request \<Rightarrow> rule \<Rightarrow> request" where
  "applyRewrite L E req r =
     (if ru_RewriteBody r \<noteq> [] \<or> ru_Script r \<noteq> [] then
        let src = (if ru_Script r \<noteq> [] then ru_Script r else ru_RewriteBody r);
            body = evalBody E src (ru_Script r \<noteq> []) (Some req)
        in req\<lparr>req_Body := Some body, req_ContentLength := int (length body), req_GetBody := Some body\<rparr>
      else if ru_RewriteJSON r = [] then req
      else
        let raw = (case req_Body req of None \<Rightarrow> [] | Some b \<Rightarrow> take body_limit b);
            obj = merge_keys E r req (read_object L raw);
            out = encode_object obj
        in req\<lparr>req_Body := Some out, req_ContentLength := int (length out),
               req_Header := Header_Set ''Content-Type'' ''application/json'' (req_Header req),
               req_GetBody := Some out\<rparr>)"

section \<open>Facts\<close>

lemma rewrite_frame:
  "req_Method (applyRewrite L E req r) = req_Method req" "req_Path (applyRewrite L E req r) = req_Path req"
  "req_RawQuery (applyRewrite L E req r) = req_RawQuery req" "req_Host (applyRewrite L E req r) = req_Host req"
  by (simp_all add: applyRewrite_def Let_def)

lemma mget_merge_keys:
  assumes "is_map_order (sx_order E)"
  shows "mget (merge_keys E r req obj) k =
     (case mget (ru_RewriteJSON r) k of
        Some v \<Rightarrow> Some (JStr (evalJSONValue E v (Some req)))
      | None \<Rightarrow> mget obj k)"
  using assms mget_None_iff [of "ru_RewriteJSON r" k]
  by (cases "mget (ru_RewriteJSON r) k") (auto simp: merge_keys_def mget_fold_keys mgetd_def dest: mget_SomeD)

lemma mok_read_object: "mok (read_object L raw)"
  by (auto simp: read_object_def dec_any_map_def intro!: mok_fold_pairs
      split: option.splits json.splits prod.splits bool.splits)

lemma mok_merge_keys: "mok obj \<Longrightarrow> mok (merge_keys E r req obj)"
  by (simp add: merge_keys_def mok_fold_keys)

section \<open>Rules survive their encoding\<close>

lemma dec_members_append:
  "dec_members u fs st (ms @ ms') z =
     (case dec_members u fs st ms z of (z', ok) \<Rightarrow>
        (case dec_members u fs st ms' z' of (z'', ok') \<Rightarrow> (z'', ok \<and> ok')))"
proof (cases "dec_members u fs st ms z")
  case (Pair z' ok)
  then show ?thesis using fold_dec_member [of u fs st ms' z' ok] by (simp add: dec_members_def)
qed

lemma rule_field_str:
  "dec_string (JStr s) old = (s, True)" "dec_map dec z JNull old' = (None, True)"
  by (simp_all add: dec_string_def dec_map_def)

lemma dec_rule_one:
  assumes "k \<in> set rule_fields" "set_rule_field k v r = (r', ok)"
  shows "dec_members u rule_fields set_rule_field [(k, v)] r = (r', ok)"
  using dec_members_Cons [of u rule_fields k k set_rule_field v r r' ok "[]"] assms
  by (simp add: field_name_exact)

lemma dec_rule_opt:
  assumes "k \<in> set rule_fields" "s \<noteq> [] \<Longrightarrow> set_rule_field k (JStr s) r = (r', True)" "s = [] \<Longrightarrow> r' = r"
  shows "dec_members u rule_fields set_rule_field (opt_str k s) r = (r', True)"
  using assms dec_rule_one [of k "JStr s" r r' True u] by (auto simp: opt_str_def)

lemma dec_rule_rule_json:
  assumes "fits_int64 (ru_Status r)" "mok (ru_RewriteJSON r)"
  shows "dec_rule u (rule_json r) zero_rule = (r\<lparr>ru_RewriteJSON := sort_key fst (ru_RewriteJSON r)\<rparr>, True)"
proof -
  have st: "dec_int64 (JNum (dec_int (ru_Status r))) i = (ru_Status r, True)" for i
    using assms(1) by (simp add: dec_int64_def parse_int64_dec_int fits_int64_def)
  have mp: "dec_map dec_string [] (obj_of JStr (ru_RewriteJSON r)) (Some []) =
      (Some (sort_key fst (ru_RewriteJSON r)), True)"
    using dec_map_obj_of [OF assms(2), of dec_string JStr "[]"]
    by (simp add: rule_field_str dec_map_def obj_of_def)
  have opt: "dec_members u rule_fields set_rule_field (opt_str ''id'' s) z = (z\<lparr>ru_ID := s\<rparr>, True)"
    if "ru_ID z = []" for s z
    by (rule dec_rule_opt) (use that in \<open>auto simp: rule_fields_def set_rule_field_def rule_field_str\<close>)
  have opt_a: "dec_members u rule_fields set_rule_field (opt_str ''action'' s) z = (z\<lparr>ru_Action := s\<rparr>, True)"
    if "ru_Action z = []" for s z
    by (rule dec_rule_opt) (use that in \<open>auto simp: rule_fields_def set_rule_field_def rule_field_str\<close>)
  have opt_b: "dec_members u rule_fields set_rule_field (opt_str ''rewrite_body'' s) z = (z\<lparr>ru_RewriteBody := s\<rparr>, True)"
    if "ru_RewriteBody z = []" for s z
    by (rule dec_rule_opt) (use that in \<open>auto simp: rule_fields_def set_rule_field_def rule_field_str\<close>)
  have opt_s: "dec_members u rule_fields set_rule_field (opt_str ''script'' s) z = (z\<lparr>ru_Script := s\<rparr>, True)"
    if "ru_Script z = []" for s z
    by (rule dec_rule_opt) (use that in \<open>auto simp: rule_fields_def set_rule_field_def rule_field_str\<close>)
  have mid: "dec_members u rule_fields set_rule_field
      [(''host'', JStr a), (''path'', JStr b), (''method'', JStr c), (''status'', JNum (dec_int (ru_Status r))),
       (''body'', JStr d), (''content_type'', JStr e)] z =
      (z\<lparr>ru_Host := a, ru_Path := b, ru_Method := c, ru_Status := ru_Status r, ru_Body := d, ru_Type := e\<rparr>, True)"
    for a b c d e z
    by (simp add: dec_members_Cons [OF field_name_exact] rule_fields_def set_rule_field_def rule_field_str st)
  have rj: "dec_members u rule_fields set_rule_field
      (if ru_RewriteJSON r = [] then [] else [(''rewrite_json'', obj_of JStr (ru_RewriteJSON r))]) z =
      (z\<lparr>ru_RewriteJSON := sort_key fst (ru_RewriteJSON r)\<rparr>, True)" if "ru_RewriteJSON z = []" for z
  proof (cases "ru_RewriteJSON r = []")
    case False
    have "set_rule_field ''rewrite_json'' (obj_of JStr (ru_RewriteJSON r)) z =
        (z\<lparr>ru_RewriteJSON := sort_key fst (ru_RewriteJSON r)\<rparr>, True)"
      using that by (simp add: set_rule_field_def mp)
    from dec_rule_one [OF _ this] show ?thesis using False by (simp add: rule_fields_def)
  qed (use that in simp)
  show ?thesis
    unfolding dec_rule_def dec_struct_def rule_json_def json.case zero_rule_def
    by (simp only: dec_members_append opt opt_a opt_b opt_s mid rj prod.case rule.select_convs rule.update_convs) simp
qed

section \<open>Decoded values\<close>

lemma set_fold_pairs: "x \<in> set (fold (\<lambda>(k, v) m. mput k v m) kvs m) \<Longrightarrow> x \<in> set kvs \<or> x \<in> set m"
proof (induction kvs arbitrary: m)
  case (Cons kv kvs)
  have "x \<in> set (mput k v m) \<Longrightarrow> x = (k, v) \<or> x \<in> set m" for k v
    unfolding mput_def by (induction m) (auto split: if_splits)
  with Cons show ?case by (cases kv) fastforce
qed simp

definition good :: "nat \<Rightarrow> json \<Rightarrow> bool" where
  "good n v \<longleftrightarrow> nums_ok v \<and> texts_ok v \<and> depth v \<le> n"

lemma depth_obj_le: "depth (JObj ms) \<le> n \<longleftrightarrow> 1 \<le> n \<and> (\<forall>(k, v) \<in> set ms. Suc (depth v) \<le> n)"
  using depth_JObj [of 0 ms n] by simp

lemma depth_arr_le: "depth (JArr xs) \<le> n \<longleftrightarrow> 1 \<le> n \<and> (\<forall>v \<in> set xs. Suc (depth v) \<le> n)"
  using depth_JArr [of 0 xs n] by simp

lemma good_obj: "good n (JObj ms) \<longleftrightarrow> 1 \<le> n \<and> (\<forall>(k, v) \<in> set ms. utf8_valid k \<and> good (n - 1) v)"
  unfolding good_def depth_obj_le by (cases n) (auto simp: list_all_iff simp del: depth.simps)

lemma good_arr: "good n (JArr xs) \<longleftrightarrow> 1 \<le> n \<and> (\<forall>v \<in> set xs. good (n - 1) v)"
  unfolding good_def depth_arr_le by (cases n) (auto simp: list_all_iff simp del: depth.simps)

definition js_num_ok :: "json_lib \<Rightarrow> bool" where
  "js_num_ok L \<longleftrightarrow> (\<forall>t t'. js_num L t = Some t' \<longrightarrow> num_ok t')"

lemma good_any_of:
  "js_num_ok L \<Longrightarrow> texts_ok v \<Longrightarrow> depth v \<le> n \<Longrightarrow> good n (any_of L v)"
proof (induction L v arbitrary: n rule: any_of.induct)
  case (1 L t)
  then show ?case by (cases "js_num L t") (auto simp: good_def js_num_ok_def)
next
  case (2 L xs)
  then show ?case
    by (auto simp: good_arr depth_arr_le list_all_iff simp del: depth.simps)
next
  case (3 L ms)
  have "utf8_valid k \<and> good (n - 1) v" if mem: "(k, v) \<in> set (fold (\<lambda>(k, v) m. mput k v m) (map (\<lambda>(k, v). (k, any_of L v)) ms) [])" for k v
  proof -
    obtain w where w: "(k, w) \<in> set ms" "v = any_of L w" using set_fold_pairs [OF mem] by auto
    have "depth w \<le> n - 1" "texts_ok w" "utf8_valid k"
      using 3(3,4) w(1) by (auto simp: depth_obj_le list_all_iff simp del: depth.simps)
    with 3(1) [OF w(1) refl 3(2)] w(2) show ?thesis by simp
  qed
  then show ?case using 3(4) by (auto simp: good_obj depth_obj_le simp del: depth.simps)
qed (auto simp: good_def)

lemma good_sort_keys: "good n v \<Longrightarrow> good n (sort_keys v)"
proof (induction v arbitrary: n rule: sort_keys.induct)
  case (1 xs)
  then show ?case by (auto simp: good_arr)
next
  case (2 ms)
  then show ?case by (fastforce simp: good_obj)
qed auto

lemma good_clean: "good n v \<Longrightarrow> clean v = v"
  by (simp add: good_def clean_texts_ok)

lemma good_mono: "good m v \<Longrightarrow> m \<le> n \<Longrightarrow> good n v"
  by (simp add: good_def)

lemma rule_json_nums: "nums_ok (rule_json r)"
proof -
  have "nums_ok (obj_of JStr m)" for m by (rule nums_ok_obj_of) simp
  then show ?thesis by (simp add: rule_json_def nums_ok_members num_ok_dec_int)
qed

lemma rule_json_depth: "depth (rule_json r) \<le> 2"
proof -
  have "depth (obj_of JStr m) \<le> 1" for m by (rule depth_obj_of) simp_all
  then show ?thesis unfolding rule_json_def depth_obj_le by (auto simp: opt_str_def)
qed

section \<open>Properties\<close>

text \<open>
  A rewritten request is consistent and goes where it went: either it is the request that came in, or
  its body, the copy that \<open>GetBody\<close> gives for a replay and its content length agree; its method, path,
  query and host are never changed, and of its headers at most \<open>Content-Type\<close>.
\<close>

theorem rewritten_request_consistent:
  "applyRewrite L E req r = req
   \<or> (\<exists>b. req_Body (applyRewrite L E req r) = Some b \<and> req_GetBody (applyRewrite L E req r) = Some b
        \<and> req_ContentLength (applyRewrite L E req r) = int (length b)
        \<and> req_Method (applyRewrite L E req r) = req_Method req \<and> req_Path (applyRewrite L E req r) = req_Path req
        \<and> req_RawQuery (applyRewrite L E req r) = req_RawQuery req \<and> req_Host (applyRewrite L E req r) = req_Host req
        \<and> (\<exists>ct. req_Header (applyRewrite L E req r) \<in> {req_Header req, Header_Set ''Content-Type'' ct (req_Header req)}))"
  by (auto simp: applyRewrite_def Let_def)

text \<open>The text of an object with valid keys and values parses to an object with the same entries.\<close>

lemma parse_encoded:
  assumes "mok m" "\<And>k v. (k, v) \<in> set m \<Longrightarrow> utf8_valid k \<and> ((\<exists>s. v = JStr s) \<or> good (max_depth - 1) v)"
  shows "\<exists>ms. parse_all (marshal (obj_of sort_keys m)) = Some (JObj ms)
    \<and> (\<forall>k. map_of ms k = map_option (\<lambda>v. clean (sort_keys v)) (mget m k))"
proof -
  define ms where "ms = map (\<lambda>(k, v). (k, clean (sort_keys v))) (sort_key fst m)"
  define j where "j = obj_of sort_keys m"
  have "nums_ok j"
    unfolding j_def
    by (rule nums_ok_obj_of) (use assms(2) good_sort_keys in \<open>fastforce simp: good_def\<close>)
  moreover have "depth j \<le> max_depth"
    unfolding j_def
    by (rule depth_obj_of) (use assms(2) good_sort_keys in \<open>fastforce simp: good_def max_depth_def\<close>)+
  ultimately have "parse_all (marshal j) = Some (clean j)"
    using parse_pr [of j "[]" False 0] by (simp add: parse_all_def marshal_def skip_ws_def)
  moreover have "clean j = JObj ms"
    using assms(2) by (auto simp: j_def obj_of_def ms_def sanitize_valid)
  moreover have "map_of ms k = map_option (\<lambda>v. clean (sort_keys v)) (mget m k)" for k
    using mget_sort [OF assms(1), of k] by (simp add: ms_def map_of_map mget_def)
  ultimately show ?thesis by (auto simp: j_def)
qed

text \<open>The entries of a merged object: what the rule lists, and the rest of the body.\<close>

lemma mget_merged:
  assumes "is_map_order (sx_order E)" "parse_all b = Some (JObj ms)" "any_ok L (JObj ms)"
  shows "mget (merge_keys E r req (read_object L b)) k =
    (case mget (ru_RewriteJSON r) k of Some v \<Rightarrow> Some (JStr (evalJSONValue E v (Some req)))
     | None \<Rightarrow> map_option (any_of L) (map_of (rev ms) k))"
proof -
  have "read_object L b = fold (\<lambda>(k, v) m. mput k v m) (map (\<lambda>(k, v). (k, any_of L v)) ms) []"
    using assms(2,3) by (simp add: read_object_def dec_any_map_def)
  then show ?thesis
    unfolding mget_merge_keys [OF assms(1)] by (simp add: gomap.get_put_list rev_map map_of_map split: option.splits)
qed

lemma good_members:
  assumes "js_num_ok L" "parse_all b = Some (JObj ms)" "map_of (rev ms) k = Some w"
  shows "utf8_valid k \<and> good (max_depth - 1) (any_of L w)"
proof -
  have "(k, w) \<in> set ms" using map_of_SomeD [OF assms(3)] by simp
  then have "depth w \<le> max_depth - 1" "texts_ok w" "utf8_valid k"
    using parse_all_valid [OF assms(2)] by (auto simp: depth_obj_le list_all_iff simp del: depth.simps)
  then show ?thesis using good_any_of [OF assms(1)] by simp
qed

text \<open>
  C29: merging \<open>rewrite_json\<close>, whose keys are UTF-8, under a rule without script and \<open>rewrite_body\<close>, into a
  JSON object body of at most 1 MiB whose numbers are in the range of \<open>float64\<close>, yields the text of an object that has,
  under every listed key, the string its value evaluates to, under every other key the value that was
  there (the last one, when a key occurred twice; numbers as \<open>float64\<close>), and no other keys.
\<close>

theorem rewrite_json_merges:
  assumes "ru_RewriteBody r = []" "ru_Script r = []" "ru_RewriteJSON r \<noteq> []"
    and "is_map_order (sx_order E)" "js_num_ok L" "\<forall>k \<in> set (mkeys (ru_RewriteJSON r)). utf8_valid k"
    and "req_Body req = Some b" "length b \<le> body_limit" "parse_all b = Some (JObj ms)" "any_ok L (JObj ms)"
  shows "\<exists>out ms'. req_Body (applyRewrite L E req r) = Some out \<and> parse_all out = Some (JObj ms')
    \<and> (\<forall>k. map_of ms' k =
          (case mget (ru_RewriteJSON r) k of
             Some v \<Rightarrow> Some (JStr (sanitize (evalJSONValue E v (Some req))))
           | None \<Rightarrow> map_option (\<lambda>v. sort_keys (any_of L v)) (map_of (rev ms) k)))"
proof -
  let ?m = "merge_keys E r req (read_object L b)"
  note get = mget_merged [OF assms(4,9,10), of r req]
  note goodv = good_members [OF assms(5,9)]
  have ok: "mok ?m" by (intro mok_merge_keys mok_read_object)
  have entry: "utf8_valid k \<and> ((\<exists>s. v = JStr s) \<or> good (max_depth - 1) v)" if "(k, v) \<in> set ?m" for k v
  proof (cases "mget (ru_RewriteJSON r) k")
    case None
    have "mget ?m k = Some v" using that mget_iff_in_set [OF ok, of k v] by simp
    then show ?thesis using None get [of k] goodv by auto
  next
    case (Some x)
    then show ?thesis
      using that get [of k] mget_iff_in_set [OF ok, of k v] assms(6) mget_SomeD [OF Some] by auto
  qed
  obtain ms' where p: "parse_all (marshal (obj_of sort_keys ?m)) = Some (JObj ms')"
    and m: "map_of ms' k = map_option (\<lambda>v. clean (sort_keys v)) (mget ?m k)" for k
    using parse_encoded [OF ok entry] by blast
  have b: "req_Body (applyRewrite L E req r) = Some (marshal (obj_of sort_keys ?m))"
    using assms(1-3,7,8) by (simp add: applyRewrite_def Let_def encode_object_def)
  have "clean (sort_keys (any_of L w)) = sort_keys (any_of L w)" if "map_of (rev ms) k = Some w" for k w
    using goodv [OF that] good_clean good_sort_keys by fastforce
  then have e: "map_option (\<lambda>v. clean (sort_keys v)) (map_option (any_of L) (map_of (rev ms) k))
      = map_option (\<lambda>v. sort_keys (any_of L v)) (map_of (rev ms) k)" for k
    by (cases "map_of (rev ms) k") auto
  show ?thesis
    using p b by (auto simp: m get e split: option.splits)
qed

definition ex_lib :: json_lib where
  "ex_lib = \<lparr>js_num = (\<lambda>t. if num_ok t then Some t else None), js_int = (\<lambda>t. 0), js_err = (\<lambda>ty s. ''json: bad input'')\<rparr>"

lemma js_num_ok_ex_lib: "js_num_ok ex_lib"
  by (simp add: js_num_ok_def ex_lib_def)

text \<open>Tables that change nothing beyond ASCII.\<close>

definition ex_unicode :: unicode where
  "ex_unicode = \<lparr>uc_upper = (\<lambda>r. r), uc_lower = (\<lambda>r. r), uc_fold = (\<lambda>r. r)\<rparr>"

definition ex_rewrite :: rule where
  "ex_rewrite = zero_rule\<lparr>ru_ID := ''1'', ru_Action := ''rewrite'', ru_Status := 200, ru_RewriteJSON := [(''b'', ''x'')]\<rparr>"

definition ex_post :: request where
  "ex_post = ex_request\<lparr>req_Method := ''POST'', req_Body := Some (marshal (JObj [(''a'', JBool True)]))\<rparr>"

theorem rewrite_json_merges_witness:
  "\<exists>out ms'. req_Body (applyRewrite ex_lib ex_host ex_post ex_rewrite) = Some out
     \<and> parse_all out = Some (JObj ms') \<and> map_of ms' ''a'' = Some (JBool True) \<and> map_of ms' ''c'' = None"
proof -
  have v: "utf8_valid ''a''" "utf8_valid ''b''" by (simp_all add: utf8_valid_ascii)
  have p: "parse_all (marshal (JObj [(''a'', JBool True)])) = Some (JObj [(''a'', JBool True)])"
    by (rule parse_all_marshal(1)) (simp_all add: v max_depth_def)
  have l: "length (marshal (JObj [(''a'', JBool True)])) \<le> body_limit"
    by (simp add: marshal_def quote_plain json_plain_def nl_def colon_def body_limit_def)
  have "is_map_order (sx_order ex_host)" by (simp add: ex_host_def is_map_order_id)
  from rewrite_json_merges [OF _ _ _ this js_num_ok_ex_lib _ _ l p, of ex_rewrite ex_post]
  show ?thesis by (fastforce simp: ex_rewrite_def ex_post_def zero_rule_def mget_Cons mkeys_def v)
qed

text \<open>
  A body that is not a JSON object within the first 1 MiB is not kept: the upstream gets an object of
  the listed keys only.
\<close>

theorem rewrite_json_drops_other_bodies:
  assumes "ru_RewriteBody r = []" "ru_Script r = []" "ru_RewriteJSON r \<noteq> []" "req_Body req = Some b"
    and "case parse_all (take body_limit b) of Some (JObj ms) \<Rightarrow> \<not> any_ok L (JObj ms) | _ \<Rightarrow> True"
  shows "req_Body (applyRewrite L E req r) = Some (encode_object (merge_keys E r req []))"
proof -
  have "read_object L (take body_limit b) = []"
    using assms(5) by (auto simp: read_object_def dec_any_map_def split: option.splits json.splits)
  then show ?thesis using assms(1-4) by (simp add: applyRewrite_def Let_def)
qed

text \<open>
  A rule survives \<open>rules.json\<close>, the admin API and MCP: encoding it, compactly or indented, and decoding
  the text gives the same rule, without an error (its \<open>rewrite_json\<close> in the order of the keys).
\<close>

theorem rule_roundtrip:
  assumes "fits_int64 (ru_Status r)" "mok (ru_RewriteJSON r)" "texts_ok (rule_json r)"
  shows "Unmarshal L ty (\<lambda>v. dec_rule u v zero_rule) zero_rule (marshal (rule_json r))
      = (r\<lparr>ru_RewriteJSON := sort_key fst (ru_RewriteJSON r)\<rparr>, None)
    \<and> Unmarshal L ty (\<lambda>v. dec_rule u v zero_rule) zero_rule (marshal_indent (rule_json r))
      = (r\<lparr>ru_RewriteJSON := sort_key fst (ru_RewriteJSON r)\<rparr>, None)"
  using dec_rule_rule_json [OF assms(1,2)] parse_all_marshal [OF rule_json_nums assms(3)] rule_json_depth [of r]
  by (simp add: Unmarshal_def max_depth_def)

theorem rewrite_json_drops_other_bodies_witness:
  "req_Body (applyRewrite ex_lib ex_host (ex_post\<lparr>req_Body := Some []\<rparr>) ex_rewrite)
     = Some (encode_object (merge_keys ex_host ex_rewrite (ex_post\<lparr>req_Body := Some []\<rparr>) []))"
  by (rule rewrite_json_drops_other_bodies [where b = "[]"])
    (simp_all add: ex_rewrite_def zero_rule_def ex_post_def parse_all_def decode_first_def fuel_of_def numeral_2_eq_2
      skip_ws_def)

theorem rule_roundtrip_witness:
  "Unmarshal ex_lib ''Rule'' (\<lambda>v. dec_rule ex_unicode v zero_rule) zero_rule (marshal (rule_json ex_rewrite)) = (ex_rewrite, None)"
proof -
  have "texts_ok (rule_json ex_rewrite)"
    by (simp add: ex_rewrite_def zero_rule_def rule_json_def opt_str_def obj_of_def utf8_valid_ascii)
  moreover have "fits_int64 (ru_Status ex_rewrite)" "mok (ru_RewriteJSON ex_rewrite)"
    "sort_key fst (ru_RewriteJSON ex_rewrite) = ru_RewriteJSON ex_rewrite"
    by (simp_all add: ex_rewrite_def zero_rule_def fits_int64_def mok_def mkeys_def)
  ultimately show ?thesis using rule_roundtrip [of ex_rewrite ex_lib "''Rule''"] by simp
qed

end
