(* ===== verification/Go_Os.thy ===== *)
theory Go_Os
  imports Go_Text
begin

text \<open>
  The operating system as the program uses it: files by path, directories, programs that can be run, and
  the paths of path/filepath on Unix. Every access can fail; which ones fail, and with which message, is
  part of the state. A failing write may leave a prefix of the new content behind.
\<close>

section \<open>Files\<close>

datatype write_fault = OpenFails | WriteFails nat

record os =
  os_files :: "(string, string) gomap"
  os_dirs :: "string list"
  os_unreadable :: "string \<Rightarrow> bool"
  os_wfault :: "string \<Rightarrow> write_fault option"
  os_dfault :: "string \<Rightarrow> bool"
  os_err :: "string \<Rightarrow> string"
  os_goos :: string
  os_uid :: int
  os_path :: "string \<Rightarrow> bool"
  os_run :: "string list \<Rightarrow> string \<times> string option"

definition ReadFile :: "os \<Rightarrow> string \<Rightarrow> string option" where
  "ReadFile s p = (if os_unreadable s p then None else mget (os_files s) p)"

definition WriteFile :: "os \<Rightarrow> string \<Rightarrow> string \<Rightarrow> os \<times> string option" where
  "WriteFile s p b =
     (case os_wfault s p of
        None \<Rightarrow> (s\<lparr>os_files := mput p b (os_files s)\<rparr>, None)
      | Some OpenFails \<Rightarrow> (s, Some (os_err s p))
      | Some (WriteFails n) \<Rightarrow> (s\<lparr>os_files := mput p (take n b) (os_files s)\<rparr>, Some (os_err s p)))"

text \<open>A directory and those above it.\<close>

definition above :: "string \<Rightarrow> string list" where
  "above p = p # map (\<lambda>i. take i p) (filter (\<lambda>i. 0 < i \<and> p ! i = CHR ''/'') [0..<length p])"

definition MkdirAll :: "os \<Rightarrow> string \<Rightarrow> os \<times> string option" where
  "MkdirAll s p =
     (if os_dfault s p then (s, Some (os_err s p))
      else (s\<lparr>os_dirs := above p @ os_dirs s\<rparr>, None))"

text \<open>\<open>os.Stat\<close> of a path: nothing there (or not accessible), a file, a directory.\<close>

datatype file_kind = Absent | IsFile | IsDir

definition Stat :: "os \<Rightarrow> string \<Rightarrow> file_kind" where
  "Stat s p =
     (if p \<in> set (os_dirs s) then IsDir else if mget (os_files s) p \<noteq> None then IsFile else Absent)"

section \<open>Paths\<close>

text \<open>One component of a path, after the components kept so far.\<close>

definition path_step :: "bool \<Rightarrow> string list \<Rightarrow> string \<Rightarrow> string list" where
  "path_step rooted st c =
     (if c = [] \<or> c = ''.'' then st
      else if c = ''..'' then
        (if st \<noteq> [] \<and> last st \<noteq> ''..'' then butlast st else if rooted then st else st @ [c])
      else st @ [c])"

definition path_parts :: "string \<Rightarrow> string list" where
  "path_parts p = foldl (path_step (HasPrefix p ''/'')) [] (split_on CHR ''/'' p)"

definition Clean :: "string \<Rightarrow> string" where
  "Clean p =
     (if HasPrefix p ''/'' then CHR ''/'' # join ''/'' (path_parts p)
      else if path_parts p = [] then ''.'' else join ''/'' (path_parts p))"

text \<open>\<open>filepath.Join\<close>: leading empty elements are dropped.\<close>

definition Join :: "string list \<Rightarrow> string" where
  "Join es = (case dropWhile (\<lambda>e. e = []) es of [] \<Rightarrow> [] | es' \<Rightarrow> Clean (join ''/'' es'))"

definition Dir :: "string \<Rightarrow> string" where
  "Dir p = Clean (rev (dropWhile (\<lambda>c. c \<noteq> CHR ''/'') (rev p)))"

section \<open>Facts\<close>

lemma WriteFile_ok:
  "os_wfault s p = None \<Longrightarrow> WriteFile s p b = (s\<lparr>os_files := mput p b (os_files s)\<rparr>, None)"
  by (simp add: WriteFile_def)

lemma WriteFile_frame [simp]:
  "os_unreadable (fst (WriteFile s p b)) = os_unreadable s" "os_wfault (fst (WriteFile s p b)) = os_wfault s"
  "os_dfault (fst (WriteFile s p b)) = os_dfault s" "os_dirs (fst (WriteFile s p b)) = os_dirs s"
  "os_goos (fst (WriteFile s p b)) = os_goos s" "os_uid (fst (WriteFile s p b)) = os_uid s"
  "os_path (fst (WriteFile s p b)) = os_path s" "os_run (fst (WriteFile s p b)) = os_run s"
  by (simp_all add: WriteFile_def split: option.splits write_fault.splits)

lemma MkdirAll_frame [simp]:
  "os_files (fst (MkdirAll s p)) = os_files s"
  "os_unreadable (fst (MkdirAll s p)) = os_unreadable s" "os_wfault (fst (MkdirAll s p)) = os_wfault s"
  "os_dfault (fst (MkdirAll s p)) = os_dfault s"
  "os_goos (fst (MkdirAll s p)) = os_goos s" "os_uid (fst (MkdirAll s p)) = os_uid s"
  "os_path (fst (MkdirAll s p)) = os_path s" "os_run (fst (MkdirAll s p)) = os_run s"
  by (simp_all add: MkdirAll_def)

lemma ReadFile_MkdirAll [simp]: "ReadFile (fst (MkdirAll s p)) q = ReadFile s q"
  by (simp add: ReadFile_def)

lemma ReadFile_WriteFile_other: "q \<noteq> p \<Longrightarrow> ReadFile (fst (WriteFile s p b)) q = ReadFile s q"
  by (simp add: ReadFile_def WriteFile_def split: option.splits write_fault.splits)

lemma ReadFile_WriteFile:
  "snd (WriteFile s p b) = None \<Longrightarrow> \<not> os_unreadable s p \<Longrightarrow> ReadFile (fst (WriteFile s p b)) p = Some b"
  by (auto simp: ReadFile_def WriteFile_def split: option.splits write_fault.splits)

text \<open>The last component of a joined path is the name that was joined, when it is a proper name.\<close>

definition file_name :: "string \<Rightarrow> bool" where
  "file_name n \<longleftrightarrow> n \<noteq> [] \<and> n \<noteq> ''.'' \<and> n \<noteq> ''..'' \<and> CHR ''/'' \<notin> set n"

lemma path_step_parts: "x \<in> set (path_step rooted st c) \<Longrightarrow> x \<in> set st \<or> x = c"
  by (auto simp: path_step_def dest: in_set_butlastD split: if_splits)

lemma foldl_parts:
  "x \<in> set (foldl (path_step rooted) st cs) \<Longrightarrow> x \<in> set st \<or> x \<in> set cs"
  by (induction cs arbitrary: st) (auto dest: path_step_parts)

lemma path_parts_no_slash: "x \<in> set (path_parts p) \<Longrightarrow> CHR ''/'' \<notin> set x"
  unfolding path_parts_def using foldl_parts split_on_parts by fastforce

lemma split_on_snoc: "c \<notin> set n \<Longrightarrow> split_on c (p @ c # n) = split_on c p @ [n]"
proof (induction p)
  case (Cons x p)
  then show ?case by (cases "split_on c p") (auto simp: split_on_no_sep)
qed (simp add: split_on_no_sep)

lemma HasPrefix_slash_append: "d \<noteq> [] \<Longrightarrow> HasPrefix (d @ s) ''/'' = HasPrefix d ''/''"
  by (cases d) (auto simp: HasPrefix_def)

lemma path_parts_join:
  assumes "d \<noteq> []" "file_name n"
  shows "path_parts (d @ CHR ''/'' # n) = path_parts d @ [n]"
  using assms HasPrefix_slash_append [OF assms(1), of "CHR ''/'' # n"]
  by (simp add: path_parts_def split_on_snoc file_name_def path_step_def)

lemma Join_name:
  assumes "file_name n"
  shows "Join [d, n] = (if d = [] then n else if HasPrefix d ''/'' then CHR ''/'' # join ''/'' (path_parts d @ [n])
     else join ''/'' (path_parts d @ [n]))"
proof (cases "d = []")
  case True
  have "HasPrefix n ''/'' = False" using assms by (cases n) (auto simp: HasPrefix_def file_name_def)
  then have "path_parts n = [n]" using assms
    by (simp add: path_parts_def file_name_def split_on_no_sep path_step_def)
  then show ?thesis using True assms \<open>HasPrefix n ''/'' = False\<close>
    by (simp add: Join_def Clean_def file_name_def)
next
  case False
  then show ?thesis
    using path_parts_join [OF False assms] HasPrefix_slash_append [OF False, of "CHR ''/'' # n"]
    by (simp add: Join_def Clean_def)
qed

lemma Join_inject:
  assumes "file_name a" "file_name b" "Join [d, a] = Join [d, b]"
  shows "a = b"
proof (cases "d = []")
  case False
  have parts: "\<forall>x \<in> set (path_parts d @ [n]). CHR ''/'' \<notin> set x" if "file_name n" for n
    using that path_parts_no_slash [of _ d] by (auto simp: file_name_def)
  have "join ''/'' (path_parts d @ [a]) = join ''/'' (path_parts d @ [b])"
    using assms False by (auto simp: Join_name split: if_splits)
  then have "split_on CHR ''/'' (join ''/'' (path_parts d @ [a])) = split_on CHR ''/'' (join ''/'' (path_parts d @ [b]))"
    by simp
  then have "path_parts d @ [a] = path_parts d @ [b]"
    using split_on_join [OF _ parts [OF assms(1)]] split_on_join [OF _ parts [OF assms(2)]] by simp
  then show ?thesis by simp
qed (use assms in \<open>simp add: Join_name\<close>)

end
