(* ===== verification/Config.thy ===== *)
theory Config
  imports Registry Rewrite Go_Os
begin

text \<open>
  The persisted state (config.go): \<open>state.json\<close> and \<open>rules.json\<close> in the data directory. What
  \<open>savePersist\<close> wrote, \<open>loadPersist\<close> reads back, at the level of the bytes of the files.
\<close>

section \<open>Operations\<close>

text \<open>\<open>pe_States = None\<close> is the nil map.\<close>

record persisted =
  pe_States :: "(string, DomainState) gomap option"
  pe_PinBypass :: bool

definition state_path :: "string \<Rightarrow> string" where
  "state_path dir = Join [dir, ''state.json'']"

definition rules_path :: "string \<Rightarrow> string" where
  "rules_path dir = Join [dir, ''rules.json'']"

definition persisted_json :: "persisted \<Rightarrow> json" where
  "persisted_json p =
     JObj ((''states'', case pe_States p of None \<Rightarrow> JNull | Some m \<Rightarrow> obj_of JStr m)
           # opt_flag ''pin_bypass'' (pe_PinBypass p))"

definition set_persisted_field :: "string \<Rightarrow> json \<Rightarrow> persisted \<Rightarrow> persisted \<times> bool" where
  "set_persisted_field f v p =
     (if f = ''states'' then (case dec_map dec_string [] v (pe_States p) of (m, ok) \<Rightarrow> (p\<lparr>pe_States := m\<rparr>, ok))
      else if f = ''pin_bypass'' then (case dec_bool v (pe_PinBypass p) of (b, ok) \<Rightarrow> (p\<lparr>pe_PinBypass := b\<rparr>, ok))
      else (p, True))"

definition zero_persisted :: persisted where
  "zero_persisted = \<lparr>pe_States = None, pe_PinBypass = False\<rparr>"

definition dec_persisted :: "unicode \<Rightarrow> json \<Rightarrow> persisted \<times> bool" where
  "dec_persisted u v = dec_struct u [''states'', ''pin_bypass''] set_persisted_field v zero_persisted"

definition persistExists :: "os \<Rightarrow> string \<Rightarrow> bool" where
  "persistExists s dir \<longleftrightarrow> Stat s (state_path dir) \<noteq> Absent"

definition load_state_file :: "json_lib \<Rightarrow> unicode \<Rightarrow> string map_order \<Rightarrow> string option \<Rightarrow> registry \<Rightarrow> registry" where
  "load_state_file L u ord b reg =
     (case b of
        None \<Rightarrow> reg
      | Some b \<Rightarrow>
          (case Unmarshal L ''persisted'' (dec_persisted u) zero_persisted b of
             (p, None) \<Rightarrow> (case pe_States p of None \<Rightarrow> reg | Some m \<Rightarrow> loadStates ord reg m)
           | (p, Some err) \<Rightarrow> reg))"

definition load_rules_file :: "json_lib \<Rightarrow> unicode \<Rightarrow> entropy \<Rightarrow> string option \<Rightarrow> rule_engine \<Rightarrow> rule_engine" where
  "load_rules_file L u rnd b e =
     (case b of
        None \<Rightarrow> e
      | Some b \<Rightarrow>
          (case Unmarshal L ''Rule'' (dec_slice (dec_rule u) zero_rule) [] b of
             (rs, None) \<Rightarrow> Set rnd e rs
           | (rs, Some err) \<Rightarrow> e))"

definition loadPersist :: "json_lib \<Rightarrow> unicode \<Rightarrow> string map_order \<Rightarrow> entropy \<Rightarrow> os \<Rightarrow> string
    \<Rightarrow> registry \<Rightarrow> rule_engine \<Rightarrow> os \<times> registry \<times> rule_engine \<times> string option" where
  "loadPersist L u ord rnd s dir reg e =
     (case MkdirAll s dir of
        (s, Some err) \<Rightarrow> (s, reg, e, Some err)
      | (s, None) \<Rightarrow>
          (let reg = load_state_file L u ord (ReadFile s (state_path dir)) reg;
               e = load_rules_file L u rnd (ReadFile s (rules_path dir)) e
           in (s, reg, e, None)))"

definition state_text :: "string map_order \<Rightarrow> registry \<Rightarrow> string" where
  "state_text ord reg = marshal_indent (persisted_json \<lparr>pe_States = Some (snapshot ord reg), pe_PinBypass = False\<rparr>)"

definition rules_text :: "rule_engine \<Rightarrow> string" where
  "rules_text e = marshal_indent (nil_slice (map rule_json (All e)))"

text \<open>\<open>json.MarshalIndent\<close> of these types cannot fail.\<close>

definition savePersist :: "string map_order \<Rightarrow> os \<Rightarrow> string \<Rightarrow> registry \<Rightarrow> rule_engine \<Rightarrow> os \<times> string option" where
  "savePersist ord s dir reg e =
     (case MkdirAll s dir of
        (s, Some err) \<Rightarrow> (s, Some err)
      | (s, None) \<Rightarrow>
          (case WriteFile s (state_path dir) (state_text ord reg) of
             (s, Some err) \<Rightarrow> (s, Some err)
           | (s, None) \<Rightarrow> WriteFile s (rules_path dir) (rules_text e)))"

section \<open>Facts\<close>

lemma file_names: "file_name ''state.json''" "file_name ''rules.json''"
  by (simp_all add: file_name_def)

lemma paths_differ: "state_path dir \<noteq> rules_path dir"
  using Join_inject [OF file_names, of dir] by (auto simp: state_path_def rules_path_def)

text \<open>The data that the files hold without loss: valid UTF-8 everywhere, statuses that are \<open>int\<close>s.\<close>

definition storable_rule :: "rule \<Rightarrow> bool" where
  "storable_rule r \<longleftrightarrow> fits_int64 (ru_Status r) \<and> mok (ru_RewriteJSON r) \<and> texts_ok (rule_json r)"

definition storable :: "registry \<Rightarrow> rule_engine \<Rightarrow> bool" where
  "storable reg e \<longleftrightarrow>
     list_all (\<lambda>(h, st). utf8_valid h \<and> utf8_valid st) (states reg) \<and> list_all storable_rule (rules e)"

definition normal_rule :: "rule \<Rightarrow> rule" where
  "normal_rule r = r\<lparr>ru_RewriteJSON := sort_key fst (ru_RewriteJSON r)\<rparr>"

lemma persisted_json_good:
  assumes "list_all (\<lambda>(h, st). utf8_valid h \<and> utf8_valid st) m"
  shows "nums_ok (persisted_json \<lparr>pe_States = Some m, pe_PinBypass = False\<rparr>)"
    "texts_ok (persisted_json \<lparr>pe_States = Some m, pe_PinBypass = False\<rparr>)"
    "depth (persisted_json \<lparr>pe_States = Some m, pe_PinBypass = False\<rparr>) \<le> max_depth"
proof -
  have n: "nums_ok (obj_of JStr m)" by (rule nums_ok_obj_of) simp
  have t: "texts_ok (obj_of JStr m)" by (rule texts_ok_obj_of) (use assms in \<open>auto simp: list_all_iff\<close>)
  have d: "depth (obj_of JStr m) \<le> 1" by (rule depth_obj_of) simp_all
  show "nums_ok (persisted_json \<lparr>pe_States = Some m, pe_PinBypass = False\<rparr>)"
    "texts_ok (persisted_json \<lparr>pe_States = Some m, pe_PinBypass = False\<rparr>)"
    using n t by (simp_all add: persisted_json_def opt_flag_def utf8_valid_ascii)
  show "depth (persisted_json \<lparr>pe_States = Some m, pe_PinBypass = False\<rparr>) \<le> max_depth"
    using d unfolding persisted_json_def depth_obj_le by (simp add: opt_flag_def max_depth_def)
qed

lemma dec_persisted_json:
  assumes "mok m"
  shows "dec_persisted u (persisted_json \<lparr>pe_States = Some m, pe_PinBypass = False\<rparr>)
    = (\<lparr>pe_States = Some (sort_key fst m), pe_PinBypass = False\<rparr>, True)"
  using dec_map_obj_of [OF assms, of dec_string JStr "[]"]
  by (simp add: dec_persisted_def dec_struct_def persisted_json_def opt_flag_def rule_field_str
      dec_members_Cons [OF field_name_exact] set_persisted_field_def zero_persisted_def)

lemma snapshot_entries:
  assumes "is_map_order ord" "mok (states reg)" "(h, st) \<in> set (snapshot ord reg)"
  shows "(h, st) \<in> set (states reg)"
  using assms mget_iff_in_set [OF mok_snapshot, of ord reg h st] mget_iff_in_set [OF assms(2)]
  by (simp add: mget_snapshot)

lemma load_state_text:
  assumes "is_map_order ord" "is_map_order ord'" "mok (states reg)" "storable reg e"
  shows "mget (states (load_state_file L u ord' (Some (state_text ord reg)) reg')) h =
    (case mget (states reg) h of None \<Rightarrow> mget (states reg') h | Some st \<Rightarrow> Some st)"
proof -
  have v: "list_all (\<lambda>(h, st). utf8_valid h \<and> utf8_valid st) (snapshot ord reg)"
    using snapshot_entries [OF assms(1,3)] assms(4) by (fastforce simp: storable_def list_all_iff)
  have "parse_all (state_text ord reg) = Some (persisted_json \<lparr>pe_States = Some (snapshot ord reg), pe_PinBypass = False\<rparr>)"
    unfolding state_text_def using persisted_json_good [OF v] by (intro parse_all_marshal(2))
  then have "load_state_file L u ord' (Some (state_text ord reg)) reg' =
      loadStates ord' reg' (sort_key fst (snapshot ord reg))"
    by (simp add: load_state_file_def Unmarshal_def dec_persisted_json mok_snapshot)
  then show ?thesis
    using states_loadStates [OF assms(2)] mget_sort [OF mok_snapshot, of ord reg h] mget_snapshot [OF assms(1)]
    by simp
qed

lemma rules_json_good:
  assumes "list_all storable_rule rs"
  shows "nums_ok (nil_slice (map rule_json rs))" "texts_ok (nil_slice (map rule_json rs))"
    "depth (nil_slice (map rule_json rs)) \<le> max_depth"
proof -
  show "nums_ok (nil_slice (map rule_json rs))" "texts_ok (nil_slice (map rule_json rs))"
    using assms by (auto simp: nil_slice_def list_all_iff storable_rule_def rule_json_nums)
  have "depth (JArr (map rule_json rs)) \<le> max_depth"
    unfolding depth_arr_le using rule_json_depth [THEN le_trans] by (simp add: max_depth_def)
  then show "depth (nil_slice (map rule_json rs)) \<le> max_depth" by (simp add: nil_slice_def)
qed

lemma load_rules_text:
  assumes "engine_ok e" "list_all storable_rule (rules e)"
  shows "rules (load_rules_file L u rnd (Some (rules_text e)) e') = map normal_rule (rules e)"
proof -
  have "parse_all (rules_text e) = Some (nil_slice (map rule_json (rules e)))"
    unfolding rules_text_def All_def using rules_json_good [OF assms(2)] by (intro parse_all_marshal(2))
  moreover have "dec_slice (dec_rule u) zero_rule (nil_slice (map rule_json (rules e))) = (map normal_rule (rules e), True)"
    using assms(2) by (auto simp: dec_slice_def nil_slice_def list_all_iff storable_rule_def dec_rule_rule_json normal_rule_def)
  moreover have "set_loop rnd 0 (map normal_rule (rules e)) = map normal_rule (rules e)"
    by (rule set_loop_id) (use assms(1) in \<open>auto simp: engine_ok_def rule_ok_def normal_rule_def\<close>)
  ultimately show ?thesis by (simp add: load_rules_file_def Unmarshal_def Set_def)
qed

section \<open>Restart\<close>

text \<open>
  A restart loses nothing: when the data directory works, \<open>savePersist\<close> succeeds, and a fresh process
  that loads the two files it wrote has the same state for every host, no other hosts, and the same rules
  in the same order with the same identifiers.
\<close>

lemma restart_state:
  assumes "registry_ok reg" "engine_ok e" "storable reg e" "is_map_order ord" "is_map_order ord'"
    and "\<not> os_dfault s dir" "os_wfault s (state_path dir) = None" "os_wfault s (rules_path dir) = None"
    and "\<not> os_unreadable s (state_path dir)" "\<not> os_unreadable s (rules_path dir)"
    and "savePersist ord s dir reg e = (s', err)"
    and "loadPersist L u ord' rnd s' dir NewRegistry NewRuleEngine = (s'', reg', e', err')"
  shows "err = None \<and> err' = None \<and> (\<forall>h. mget (states reg') h = mget (states reg) h)
    \<and> rules e' = map normal_rule (rules e)"
proof -
  define s1 where "s1 = fst (MkdirAll s dir)"
  define s2 where "s2 = fst (WriteFile s1 (state_path dir) (state_text ord reg))"
  have s': "s' = fst (WriteFile s2 (rules_path dir) (rules_text e))" "err = None"
    using assms(6-8,11) by (auto simp: savePersist_def s1_def s2_def MkdirAll_def WriteFile_def)
  have r1: "ReadFile s' (state_path dir) = Some (state_text ord reg)"
    using assms(7,9) paths_differ [of dir]
    by (simp add: s' s2_def s1_def ReadFile_WriteFile_other WriteFile_ok) (simp add: ReadFile_def)
  have r2: "ReadFile s' (rules_path dir) = Some (rules_text e)"
    using assms(8,10) by (simp add: s' s2_def s1_def WriteFile_ok) (simp add: ReadFile_def)
  have d: "snd (MkdirAll s' dir) = None" "fst (MkdirAll s' dir) = s''" "err' = None"
    and reg': "reg' = load_state_file L u ord' (Some (state_text ord reg)) NewRegistry"
    and e': "e' = load_rules_file L u rnd (Some (rules_text e)) NewRuleEngine"
    using assms(6,12) r1 r2 ReadFile_MkdirAll [of s' dir]
    by (auto simp: loadPersist_def s' s2_def s1_def MkdirAll_def Let_def split: prod.splits)
  have ok: "mok (states reg)" using registry_okD(1) [OF assms(1)] .
  have "mget (states reg') h = mget (states reg) h" for h
    unfolding reg' load_state_text [OF assms(4,5) ok assms(3)] by (simp add: NewRegistry_def split: option.splits)
  moreover have "rules e' = map normal_rule (rules e)"
    unfolding e' using assms(3) by (intro load_rules_text [OF assms(2)]) (simp add: storable_def)
  ultimately show ?thesis using s'(2) d(3) by simp
qed

definition ex_os :: os where
  "ex_os = \<lparr>os_files = [], os_dirs = [], os_unreadable = (\<lambda>p. False), os_wfault = (\<lambda>p. None),
     os_dfault = (\<lambda>p. False), os_err = (\<lambda>p. p @ '': denied''), os_goos = ''linux'', os_uid = 0,
     os_path = (\<lambda>p. False), os_run = (\<lambda>argv. ([], None))\<rparr>"

definition ex_engine :: rule_engine where
  "ex_engine = \<lparr>rules = [ex_rewrite]\<rparr>"

lemma storable_ex: "storable (SetState NewRegistry ''a'' StateMocked) ex_engine"
proof -
  have "texts_ok (rule_json ex_rewrite)"
    by (simp add: ex_rewrite_def zero_rule_def rule_json_def opt_str_def obj_of_def utf8_valid_ascii)
  then have "storable_rule ex_rewrite"
    by (simp add: storable_rule_def ex_rewrite_def zero_rule_def fits_int64_def mok_def mkeys_def)
  then show ?thesis
    by (simp add: storable_def ex_engine_def SetState_def NewRegistry_def mput_def StateMocked_def utf8_valid_ascii)
qed

end
