(* ===== verification/Go_Codec.thy ===== *)
theory Go_Codec
  imports Go_Text
begin

unbundle bit_operations_syntax

text \<open>
  The codecs of the standard library: base64 (with its decoder and the round trip), big-endian integers,
  SHA-1 and SHA-256.
\<close>

section \<open>Base64\<close>

definition b64_char :: "nat \<Rightarrow> char" where
  "b64_char n = char_of (if n < 26 then 65 + n else if n < 52 then 71 + n
     else if n < 62 then n - 4 else if n = 62 then 43 else 47)"

fun b64_groups :: "nat list \<Rightarrow> string" where
  "b64_groups [] = []"
| "b64_groups [a] = [b64_char (a div 4), b64_char (a mod 4 * 16), CHR ''='', CHR ''='']"
| "b64_groups [a, b] =
     [b64_char (a div 4), b64_char (a mod 4 * 16 + b div 16), b64_char (b mod 16 * 4), CHR ''='']"
| "b64_groups (a # b # c # r) =
     b64_char (a div 4) # b64_char (a mod 4 * 16 + b div 16) # b64_char (b mod 16 * 4 + c div 64)
     # b64_char (c mod 64) # b64_groups r"

text \<open>\<open>base64.StdEncoding.EncodeToString\<close>.\<close>

definition base64 :: "string \<Rightarrow> string" where
  "base64 s = b64_groups (map code_of s)"

definition b64_val :: "char \<Rightarrow> nat option" where
  "b64_val c =
     (let b = code_of c
      in if 65 \<le> b \<and> b \<le> 90 then Some (b - 65)
         else if 97 \<le> b \<and> b \<le> 122 then Some (b - 71)
         else if 48 \<le> b \<and> b \<le> 57 then Some (b + 4)
         else if b = 43 then Some 62
         else if b = 47 then Some 63
         else None)"

text \<open>A strict decoder: what a client reads from the encoding.\<close>

fun unbase64 :: "string \<Rightarrow> string option" where
  "unbase64 [] = Some []"
| "unbase64 (w # x # y # z # r) =
     (case (b64_val w, b64_val x) of
        (Some a, Some b) \<Rightarrow>
          (if y = CHR ''='' then (if z = CHR ''='' \<and> r = [] then Some [char_of (a * 4 + b div 16)] else None)
           else
             (case b64_val y of
                None \<Rightarrow> None
              | Some c \<Rightarrow>
                  if z = CHR ''='' then
                    (if r = [] then Some [char_of (a * 4 + b div 16), char_of (b mod 16 * 16 + c div 4)] else None)
                  else
                    (case b64_val z of
                       None \<Rightarrow> None
                     | Some d \<Rightarrow>
                         map_option
                           (\<lambda>t. char_of (a * 4 + b div 16) # char_of (b mod 16 * 16 + c div 4)
                                # char_of (c mod 4 * 64 + d) # t)
                           (unbase64 r))))
      | _ \<Rightarrow> None)"
| "unbase64 _ = None"

lemma code_b64_char: "n < 64 \<Longrightarrow> code_of (b64_char n) =
    (if n < 26 then 65 + n else if n < 52 then 71 + n else if n < 62 then n - 4 else if n = 62 then 43 else 47)"
  by (simp add: b64_char_def)

lemma b64_val_char [simp]: "n < 64 \<Longrightarrow> b64_val (b64_char n) = Some n"
  by (auto simp: b64_val_def code_b64_char Let_def)

lemma b64_char_ascii: "n < 64 \<Longrightarrow> code_of (b64_char n) < 128"
  by (auto simp: code_b64_char)

lemma b64_char_not_pad [simp]: "n < 64 \<Longrightarrow> b64_char n \<noteq> CHR ''=''"
proof
  assume "n < 64" "b64_char n = CHR ''=''"
  then have "b64_val (b64_char n) = b64_val CHR ''=''" by simp
  with \<open>n < 64\<close> show False by (simp add: b64_val_def [of "CHR ''=''"])
qed

lemma pack_div_mod:
  assumes "(y :: nat) < n"
  shows "(x * n + y) div n = x" "(x * n + y) mod n = y"
  using assms by simp_all

lemma byte_parts: "(b :: nat) < 256 \<Longrightarrow> b div 16 < 16" "b < 256 \<Longrightarrow> b div 64 < 4" "b < 256 \<Longrightarrow> b div 4 < 64"
  by (simp_all add: div_less_iff_less_mult)

lemma quot_rem:
  "b < 256 \<Longrightarrow> (a :: nat) div 4 * 4 + (a mod 4 * 16 + b div 16) div 16 = a"
  "(a :: nat) div 4 * 4 + a mod 4 * 16 div 16 = a"
  by (simp_all only: pack_div_mod(1) [OF byte_parts(1)] nonzero_mult_div_cancel_right div_mult_mod_eq)

lemma quot_rem2:
  "b < 256 \<Longrightarrow> c < 256 \<Longrightarrow> ((a :: nat) mod 4 * 16 + b div 16) mod 16 * 16 + (b mod 16 * 4 + c div 64) div 4 = b"
  "b < 256 \<Longrightarrow> ((a :: nat) mod 4 * 16 + b div 16) mod 16 * 16 + b mod 16 * 4 div 4 = b"
  by (simp_all only: pack_div_mod [OF byte_parts(1)] pack_div_mod [OF byte_parts(2)]
      nonzero_mult_div_cancel_right div_mult_mod_eq)

lemma quot_rem3: "c < 256 \<Longrightarrow> ((b :: nat) mod 16 * 4 + c div 64) mod 4 * 64 + c mod 64 = c"
  by (simp only: pack_div_mod [OF byte_parts(2)] div_mult_mod_eq)

lemma pack_less:
  fixes x y :: nat
  assumes "x < m" "y < n" shows "x * n + y < m * n"
proof -
  have "x * n + y < x * n + n" using assms by simp
  also have "\<dots> = Suc x * n" by simp
  also have "\<dots> \<le> m * n" using assms by (intro mult_le_mono1) simp
  finally show ?thesis .
qed

lemma b64_bounds:
  "a < 256 \<Longrightarrow> (a :: nat) div 4 < 64" "b < 256 \<Longrightarrow> (a :: nat) mod 4 * 16 + b div 16 < 64"
  "c < 256 \<Longrightarrow> (b :: nat) mod 16 * 4 + c div 64 < 64" "(c :: nat) mod 64 < 64"
  "(a :: nat) mod 4 * 16 < 64" "(b :: nat) mod 16 * 4 < 64"
  using byte_parts(3) [of a] pack_less [of "a mod 4" 4 "b div 16" 16] byte_parts(1) [of b]
    pack_less [of "b mod 16" 16 "c div 64" 4] byte_parts(2) [of c]
    pack_less [of "a mod 4" 4 0 16] pack_less [of "b mod 16" 16 0 4]
  by simp_all

lemma unbase64_groups:
  "\<forall>x \<in> set xs. x < 256 \<Longrightarrow> unbase64 (b64_groups xs) = Some (map char_of xs)"
proof (induction xs rule: b64_groups.induct)
  case (2 a)
  then show ?case using quot_rem(2) [of a] by (simp add: b64_bounds)
next
  case (3 a b)
  then show ?case using quot_rem(1) [of b a] quot_rem2(2) [of b a] by (simp add: b64_bounds)
next
  case (4 a b c r)
  then show ?case using quot_rem(1) [of b a] quot_rem2(1) [of b c a] quot_rem3 [of c b]
    by (simp add: b64_bounds)
qed simp

lemma code_of_less: "code_of c < 256"
  by (rule nat_of_char_less_256)

text \<open>Decoding recovers every byte string.\<close>

lemma unbase64_base64: "unbase64 (base64 s) = Some s"
  using unbase64_groups [of "map code_of s"] code_of_less by (simp add: base64_def o_def)

lemma is_ascii_b64_groups: "\<forall>x \<in> set xs. x < 256 \<Longrightarrow> is_ascii (b64_groups xs)"
  by (induction xs rule: b64_groups.induct) (simp_all add: b64_char_ascii b64_bounds)

lemma utf8_valid_base64: "utf8_valid (base64 s)"
  by (intro utf8_valid_ascii) (use is_ascii_b64_groups [of "map code_of s"] code_of_less in \<open>simp add: base64_def\<close>)

section \<open>Big-endian words\<close>

text \<open>\<open>binary.BigEndian\<close>: the \<open>k\<close> low bytes of a number, and the number of a byte list.\<close>

definition be_bytes :: "nat \<Rightarrow> nat \<Rightarrow> byte list" where
  "be_bytes k n = map (\<lambda>i. of_nat (n div 256 ^ (k - 1 - i))) [0..<k]"

definition be_nat :: "byte list \<Rightarrow> nat" where
  "be_nat bs = foldl (\<lambda>n b. n * 256 + unat b) 0 bs"

lemma length_be_bytes [simp]: "length (be_bytes k n) = k"
  by (simp add: be_bytes_def)

lemma be_bytes_Suc: "be_bytes (Suc k) n = be_bytes k (n div 256) @ [of_nat n]"
proof -
  have "n div 256 ^ (k - i) = n div 256 div 256 ^ (k - 1 - i)" if "i < k" for i
  proof -
    have "k - i = Suc (k - 1 - i)" using that by simp
    then show ?thesis by (simp add: div_mult2_eq)
  qed
  then show ?thesis by (simp add: be_bytes_def)
qed

lemma be_nat_snoc: "be_nat (bs @ [b]) = be_nat bs * 256 + unat b"
  by (simp add: be_nat_def)

lemma be_nat_be_bytes: "be_nat (be_bytes k n) = n mod 256 ^ k"
proof (induction k arbitrary: n)
  case 0
  show ?case by (simp add: be_nat_def be_bytes_def)
next
  case (Suc k)
  have "n div 256 mod 256 ^ k * 256 + n mod 256 = n mod (256 * 256 ^ k)"
    by (simp add: mod_mult2_eq)
  then show ?case
    by (simp add: be_bytes_Suc be_nat_snoc Suc unat_of_nat)
qed

lemma be_nat_less: "be_nat bs < 256 ^ length bs"
proof (induction bs rule: rev_induct)
  case Nil
  show ?case by (simp add: be_nat_def)
next
  case (snoc b bs)
  then show ?case using unat_byte_less [of b] by (simp add: be_nat_snoc)
qed

section \<open>Secure hashes\<close>

text \<open>The padding shared by both hashes: a set bit, zeros, and the length in bits on eight bytes.\<close>

definition sha_pad :: "byte list \<Rightarrow> byte list" where
  "sha_pad m = m @ 0x80 # replicate ((119 - length m mod 64) mod 64) 0 @ be_bytes 8 (8 * length m)"

fun words32 :: "byte list \<Rightarrow> 32 word list" where
  "words32 (a # b # c # d # r) = of_nat (be_nat [a, b, c, d]) # words32 r"
| "words32 _ = []"

function blocks :: "32 word list \<Rightarrow> 32 word list list" where
  "blocks ws = (if ws = [] then [] else take 16 ws # blocks (drop 16 ws))"
  by pat_completeness auto
termination by (relation "measure length") auto

declare blocks.simps [simp del]

definition word_bytes :: "32 word \<Rightarrow> byte list" where
  "word_bytes w = be_bytes 4 (unat w)"

definition rotl :: "nat \<Rightarrow> 32 word \<Rightarrow> 32 word" where
  "rotl n w = push_bit n w OR drop_bit (32 - n) w"

definition rotr :: "nat \<Rightarrow> 32 word \<Rightarrow> 32 word" where
  "rotr n w = drop_bit n w OR push_bit (32 - n) w"

definition sha1_schedule :: "32 word list \<Rightarrow> 32 word list" where
  "sha1_schedule blk =
     foldl (\<lambda>w t. w @ [rotl 1 (w ! (t - 3) XOR w ! (t - 8) XOR w ! (t - 14) XOR w ! (t - 16))]) blk [16..<80]"

definition sha1_f :: "nat \<Rightarrow> 32 word \<Rightarrow> 32 word \<Rightarrow> 32 word \<Rightarrow> 32 word \<times> 32 word" where
  "sha1_f t b c d =
     (if t < 20 then ((b AND c) OR (NOT b AND d), 0x5A827999)
      else if t < 40 then (b XOR c XOR d, 0x6ED9EBA1)
      else if t < 60 then ((b AND c) OR (b AND d) OR (c AND d), 0x8F1BBCDC)
      else (b XOR c XOR d, 0xCA62C1D6))"

definition sha1_round :: "32 word list \<Rightarrow> 32 word list \<Rightarrow> nat \<Rightarrow> 32 word list" where
  "sha1_round w st t =
     (case st of
        [a, b, c, d, e] \<Rightarrow>
          (case sha1_f t b c d of (f, k) \<Rightarrow> [rotl 5 a + f + e + k + w ! t, a, rotl 30 b, c, d])
      | _ \<Rightarrow> st)"

definition sha1_block :: "32 word list \<Rightarrow> 32 word list \<Rightarrow> 32 word list" where
  "sha1_block h blk = map2 (+) h (foldl (sha1_round (sha1_schedule blk)) h [0..<80])"

definition sha1 :: "byte list \<Rightarrow> byte list" where
  "sha1 m = concat (map word_bytes
     (foldl sha1_block [0x67452301, 0xEFCDAB89, 0x98BADCFE, 0x10325476, 0xC3D2E1F0] (blocks (words32 (sha_pad m)))))"

text \<open>
  The constants of SHA-256 are the first 32 bits of the fractions of the cube roots of the first 64 primes;
  its initial state comes in the same way from the square roots of the first eight.
\<close>

definition int_root :: "nat \<Rightarrow> nat \<Rightarrow> nat" where
  "int_root k n = foldl (\<lambda>r b. if (r + 2 ^ b) ^ k \<le> n then r + 2 ^ b else r) 0 (rev [0..<40])"

definition small_primes :: "nat \<Rightarrow> nat list" where
  "small_primes n = take n (filter (\<lambda>p. list_all (\<lambda>d. p mod d \<noteq> 0) [2..<p]) [2..<320])"

definition sha256_k :: "32 word list" where
  "sha256_k = map (\<lambda>p. of_nat (int_root 3 (p * 2 ^ 96))) (small_primes 64)"

definition sha256_init :: "32 word list" where
  "sha256_init = map (\<lambda>p. of_nat (int_root 2 (p * 2 ^ 64))) [2, 3, 5, 7, 11, 13, 17, 19]"

definition sha256_schedule :: "32 word list \<Rightarrow> 32 word list" where
  "sha256_schedule blk =
     foldl (\<lambda>w t.
       let x = w ! (t - 15); y = w ! (t - 2);
           s0 = rotr 7 x XOR rotr 18 x XOR drop_bit 3 x;
           s1 = rotr 17 y XOR rotr 19 y XOR drop_bit 10 y
       in w @ [w ! (t - 16) + s0 + w ! (t - 7) + s1]) blk [16..<64]"

definition sha256_round :: "32 word list \<Rightarrow> 32 word list \<Rightarrow> nat \<Rightarrow> 32 word list" where
  "sha256_round w st t =
     (case st of
        [a, b, c, d, e, f, g, h] \<Rightarrow>
          (let s1 = rotr 6 e XOR rotr 11 e XOR rotr 25 e;
               ch = (e AND f) XOR (NOT e AND g);
               t1 = h + s1 + ch + sha256_k ! t + w ! t;
               s0 = rotr 2 a XOR rotr 13 a XOR rotr 22 a;
               mj = (a AND b) XOR (a AND c) XOR (b AND c)
           in [t1 + s0 + mj, a, b, c, d + t1, e, f, g])
      | _ \<Rightarrow> st)"

definition sha256_block :: "32 word list \<Rightarrow> 32 word list \<Rightarrow> 32 word list" where
  "sha256_block h blk = map2 (+) h (foldl (sha256_round (sha256_schedule blk)) h [0..<64])"

definition sha256 :: "byte list \<Rightarrow> byte list" where
  "sha256 m = concat (map word_bytes (foldl sha256_block sha256_init (blocks (words32 (sha_pad m)))))"

lemma length_sha_words:
  "length (foldl sha1_block h bs) = length h" "length (foldl sha256_block h bs) = length h"
proof -
  have "length (foldl (sha1_round w) st ts) = length st" for w st ts
    by (induction ts arbitrary: st) (auto simp: sha1_round_def split: list.splits prod.splits)
  then show "length (foldl sha1_block h bs) = length h"
    by (induction bs arbitrary: h) (auto simp: sha1_block_def)
  have "length (foldl (sha256_round w) st ts) = length st" for w st ts
    by (induction ts arbitrary: st) (auto simp: sha256_round_def Let_def split: list.splits)
  then show "length (foldl sha256_block h bs) = length h"
    by (induction bs arbitrary: h) (auto simp: sha256_block_def)
qed

lemma length_concat_word_bytes: "length (concat (map word_bytes ws)) = 4 * length ws"
  by (induction ws) (simp_all add: word_bytes_def)

lemma length_sha1 [simp]: "length (sha1 m) = 20"
  by (simp add: sha1_def length_concat_word_bytes length_sha_words)

lemma length_sha256 [simp]: "length (sha256 m) = 32"
  by (simp add: sha256_def length_concat_word_bytes length_sha_words sha256_init_def)

end
