(* ===== verification/Sslkit.thy ===== *)
theory Sslkit
  imports Config Go_Codec
begin

text \<open>
  The TLS policy store (sslkit.go): for every host whether the client kit is used, whether its certificate
  is impersonated, the pinning and verification modes, and the certificate captured from the origin. The
  store is kept in \<open>sslkit.json\<close> and exported as the client's \<open>skytap-ssl.conf\<close>.

  Fetching an origin's chain and its directory belong to the gomitm engine, reading a PEM certificate to
  crypto/x509: they are the argument \<open>tls_lib\<close>.
\<close>

section \<open>Data\<close>

record HostSSLPolicy =
  hp_Host :: string
  hp_Kit :: bool
  hp_Impersonate :: bool
  hp_Pin :: string
  hp_Verify :: string
  hp_Captured :: bool
  hp_SPKI :: string
  hp_Subject :: string
  hp_Issuer :: string

definition zero_policy :: HostSSLPolicy where
  "zero_policy = \<lparr>hp_Host = [], hp_Kit = False, hp_Impersonate = False, hp_Pin = [], hp_Verify = [],
     hp_Captured = False, hp_SPKI = [], hp_Subject = [], hp_Issuer = []\<rparr>"

record SSLKitStore =
  kt_dataDir :: string
  kt_confDir :: string
  kt_hosts :: "(string, HostSSLPolicy) gomap"

text \<open>
  What \<open>pem.Decode\<close> and \<open>x509.ParseCertificate\<close> make of a file: no PEM block, not a certificate, or a
  certificate's public key (the raw SubjectPublicKeyInfo), subject and issuer.
\<close>

datatype cert_read = NoBlock | BadCert | Cert "byte list" string string

record tls_lib =
  tl_dump_dir :: string
  tl_dump :: "string \<Rightarrow> string \<Rightarrow> os \<Rightarrow> os \<times> string option"
  tl_cert :: "string \<Rightarrow> cert_read"

section \<open>JSON\<close>

definition policy_json :: "HostSSLPolicy \<Rightarrow> json" where
  "policy_json p =
     JObj ([(''host'', JStr (hp_Host p)), (''kit'', JBool (hp_Kit p)), (''impersonate'', JBool (hp_Impersonate p)),
        (''pin'', JStr (hp_Pin p)), (''verify'', JStr (hp_Verify p)), (''captured'', JBool (hp_Captured p))] @
       opt_str ''spki'' (hp_SPKI p) @ opt_str ''subject'' (hp_Subject p) @ opt_str ''issuer'' (hp_Issuer p))"

definition policy_fields :: "string list" where
  "policy_fields = [''host'', ''kit'', ''impersonate'', ''pin'', ''verify'', ''captured'', ''spki'', ''subject'', ''issuer'']"

definition set_policy_field :: "string \<Rightarrow> json \<Rightarrow> HostSSLPolicy \<Rightarrow> HostSSLPolicy \<times> bool" where
  "set_policy_field f v p =
     (if f = ''host'' then (case dec_string v (hp_Host p) of (x, ok) \<Rightarrow> (p\<lparr>hp_Host := x\<rparr>, ok))
      else if f = ''kit'' then (case dec_bool v (hp_Kit p) of (x, ok) \<Rightarrow> (p\<lparr>hp_Kit := x\<rparr>, ok))
      else if f = ''impersonate'' then (case dec_bool v (hp_Impersonate p) of (x, ok) \<Rightarrow> (p\<lparr>hp_Impersonate := x\<rparr>, ok))
      else if f = ''pin'' then (case dec_string v (hp_Pin p) of (x, ok) \<Rightarrow> (p\<lparr>hp_Pin := x\<rparr>, ok))
      else if f = ''verify'' then (case dec_string v (hp_Verify p) of (x, ok) \<Rightarrow> (p\<lparr>hp_Verify := x\<rparr>, ok))
      else if f = ''captured'' then (case dec_bool v (hp_Captured p) of (x, ok) \<Rightarrow> (p\<lparr>hp_Captured := x\<rparr>, ok))
      else if f = ''spki'' then (case dec_string v (hp_SPKI p) of (x, ok) \<Rightarrow> (p\<lparr>hp_SPKI := x\<rparr>, ok))
      else if f = ''subject'' then (case dec_string v (hp_Subject p) of (x, ok) \<Rightarrow> (p\<lparr>hp_Subject := x\<rparr>, ok))
      else if f = ''issuer'' then (case dec_string v (hp_Issuer p) of (x, ok) \<Rightarrow> (p\<lparr>hp_Issuer := x\<rparr>, ok))
      else (p, True))"

definition dec_policy :: "unicode \<Rightarrow> json \<Rightarrow> HostSSLPolicy \<Rightarrow> HostSSLPolicy \<times> bool" where
  "dec_policy u v p = dec_struct u policy_fields set_policy_field v p"

section \<open>Files\<close>

definition kit_path :: "SSLKitStore \<Rightarrow> string" where
  "kit_path k = Join [kt_dataDir k, ''sslkit.json'']"

definition kit_load :: "json_lib \<Rightarrow> unicode \<Rightarrow> os \<Rightarrow> SSLKitStore \<Rightarrow> SSLKitStore" where
  "kit_load L u s k =
     (case ReadFile s (kit_path k) of
        None \<Rightarrow> k
      | Some b \<Rightarrow>
          (case Unmarshal L ''HostSSLPolicy'' (\<lambda>v. dec_map (dec_policy u) zero_policy v None) None b of
             (Some m, None) \<Rightarrow> k\<lparr>kt_hosts := m\<rparr>
           | _ \<Rightarrow> k))"

definition boolEnv :: "bool \<Rightarrow> string" where
  "boolEnv v = (if v then ''on'' else ''off'')"

text \<open>The text of \<open>skytap-ssl.conf\<close> for the policies in the order they are ranged over.\<close>

definition line :: "string \<Rightarrow> string" where
  "line s = s @ [CHR 0x0A]"

definition conf_lines :: "HostSSLPolicy list \<Rightarrow> string list" where
  "conf_lines ps =
     (let kit = map hp_Host (filter hp_Kit ps);
          imp = map hp_Host (filter hp_Impersonate ps);
          pins = map (\<lambda>p. hp_Host p @ ''='' @ hp_Pin p) (filter (\<lambda>p. hp_Pin p \<noteq> []) ps);
          vers = map (\<lambda>p. hp_Host p @ ''='' @ hp_Verify p) (filter (\<lambda>p. hp_Verify p \<noteq> []) ps)
      in [''SKYTAP_SSL_CA=/certs/ca.crt'', ''SKYTAP_SSL_PROXY=http://skytap:8080'',
          ''SKYTAP_SSL_ORIGIN_CERT_DIR=/certs/origin-cache'',
          ''SKYTAP_SSL_KIT_HOSTS='' @ join '','' kit,
          ''SKYTAP_SSL_IMPERSONATE_HOSTS='' @ join '','' imp,
          ''SKYTAP_SSL_IMPERSONATE='' @ boolEnv (imp \<noteq> []),
          ''SKYTAP_SSL_PIN_BY_HOST='' @ join '','' pins,
          ''SKYTAP_SSL_VERIFY_BY_HOST='' @ join '','' vers])"

definition conf_text :: "HostSSLPolicy list \<Rightarrow> string" where
  "conf_text ps = concat (map line (conf_lines ps))"

definition conf_dir :: "SSLKitStore \<Rightarrow> string" where
  "conf_dir k = (if kt_confDir k = [] then ''/certs'' else kt_confDir k)"

definition conf_path :: "SSLKitStore \<Rightarrow> string" where
  "conf_path k = Join [conf_dir k, ''skytap-ssl.conf'']"

definition writeClientConf :: "string map_order \<Rightarrow> os \<Rightarrow> SSLKitStore \<Rightarrow> os \<times> string option" where
  "writeClientConf ord s k =
     (case MkdirAll s (conf_dir k) of
        (s, Some err) \<Rightarrow> (s, Some err)
      | (s, None) \<Rightarrow>
          WriteFile s (conf_path k) (conf_text (map (\<lambda>h. mgetd zero_policy (kt_hosts k) h) (ord (mkeys (kt_hosts k))))))"

definition kit_text :: "SSLKitStore \<Rightarrow> string" where
  "kit_text k = marshal_indent (obj_of policy_json (kt_hosts k))"

text \<open>The errors of the accesses are dropped.\<close>

definition kit_persist :: "string map_order \<Rightarrow> os \<Rightarrow> SSLKitStore \<Rightarrow> os" where
  "kit_persist ord s k =
     (if kt_dataDir k = [] then s
      else
        let s = fst (MkdirAll s (kt_dataDir k));
            s = fst (WriteFile s (kit_path k) (kit_text k))
        in fst (writeClientConf ord s k))"

definition NewSSLKitStore :: "json_lib \<Rightarrow> unicode \<Rightarrow> string map_order \<Rightarrow> os \<Rightarrow> string \<Rightarrow> string \<Rightarrow> os \<times> SSLKitStore" where
  "NewSSLKitStore L u ord s dataDir confDir =
     (let k = kit_load L u s \<lparr>kt_dataDir = dataDir, kt_confDir = confDir, kt_hosts = []\<rparr>
      in (fst (writeClientConf ord s k), k))"

section \<open>Operations\<close>

definition norm_host :: "unicode \<Rightarrow> string \<Rightarrow> string" where
  "norm_host u h = ToLower u (TrimSpace h)"

definition pem_path :: "tls_lib \<Rightarrow> string \<Rightarrow> string" where
  "pem_path T host = Join [tl_dump_dir T, host @ ''.pem'']"

text \<open>\<open>refreshLocked\<close>: the store is updated only when a certificate was read.\<close>

definition refresh :: "tls_lib \<Rightarrow> os \<Rightarrow> SSLKitStore \<Rightarrow> HostSSLPolicy \<Rightarrow> SSLKitStore \<times> HostSSLPolicy" where
  "refresh T s k p =
     (if tl_dump_dir T = [] then (k, p)
      else
        case ReadFile s (pem_path T (hp_Host p)) of
          None \<Rightarrow> (k, p\<lparr>hp_Captured := False\<rparr>)
        | Some b \<Rightarrow>
            (case tl_cert T b of
               NoBlock \<Rightarrow> (k, p)
             | BadCert \<Rightarrow> (k, p)
             | Cert spki subject issuer \<Rightarrow>
                 (let p = p\<lparr>hp_SPKI := base64 (text_of (sha256 spki)), hp_Subject := subject, hp_Issuer := issuer,
                            hp_Captured := True\<rparr>
                  in (k\<lparr>kt_hosts := mput (hp_Host p) p (kt_hosts k)\<rparr>, p))))"

definition kit_Get :: "unicode \<Rightarrow> tls_lib \<Rightarrow> os \<Rightarrow> SSLKitStore \<Rightarrow> string \<Rightarrow> SSLKitStore \<times> HostSSLPolicy" where
  "kit_Get u T s k host =
     (let host = norm_host u host
      in case mget (kt_hosts k) host of
           None \<Rightarrow> (k, zero_policy\<lparr>hp_Host := host, hp_Pin := ''off'', hp_Verify := ''ca''\<rparr>)
         | Some p \<Rightarrow> refresh T s k p)"

text \<open>
  \<open>All\<close>: the policies are refreshed while the map is ranged over. A refresh stores under the policy's own
  host, which is its key (\<open>kit_ok\<close>), so no key is added during the loop.
\<close>

fun all_loop :: "tls_lib \<Rightarrow> os \<Rightarrow> SSLKitStore \<Rightarrow> string list \<Rightarrow> SSLKitStore \<times> HostSSLPolicy list" where
  "all_loop T s k [] = (k, [])"
| "all_loop T s k (h # hs) =
     (case refresh T s k (mgetd zero_policy (kt_hosts k) h) of
        (k, p) \<Rightarrow> (case all_loop T s k hs of (k, ps) \<Rightarrow> (k, p # ps)))"

definition kit_All :: "tls_lib \<Rightarrow> string map_order \<Rightarrow> os \<Rightarrow> SSLKitStore \<Rightarrow> SSLKitStore \<times> HostSSLPolicy list" where
  "kit_All T ord s k = all_loop T s k (ord (mkeys (kt_hosts k)))"

definition policy_defaults :: "HostSSLPolicy \<Rightarrow> HostSSLPolicy" where
  "policy_defaults p =
     (let p = (if hp_Pin p = [] then p\<lparr>hp_Pin := ''off''\<rparr> else p)
      in if hp_Verify p = [] then p\<lparr>hp_Verify := ''ca''\<rparr> else p)"

definition kit_Put :: "unicode \<Rightarrow> tls_lib \<Rightarrow> string map_order \<Rightarrow> os \<Rightarrow> SSLKitStore \<Rightarrow> HostSSLPolicy
    \<Rightarrow> os \<times> SSLKitStore \<times> HostSSLPolicy" where
  "kit_Put u T ord s k p =
     (let p = policy_defaults (p\<lparr>hp_Host := norm_host u (hp_Host p)\<rparr>);
          cur = mgetd zero_policy (kt_hosts k) (hp_Host p);
          p = (if hp_SPKI p = []
               then p\<lparr>hp_SPKI := hp_SPKI cur, hp_Subject := hp_Subject cur, hp_Issuer := hp_Issuer cur,
                      hp_Captured := hp_Captured cur\<rparr>
               else p);
          (k, p) = refresh T s k p;
          k = k\<lparr>kt_hosts := mput (hp_Host p) p (kt_hosts k)\<rparr>
      in (kit_persist ord s k, k, p))"

definition kit_Capture :: "unicode \<Rightarrow> tls_lib \<Rightarrow> string map_order \<Rightarrow> os \<Rightarrow> SSLKitStore \<Rightarrow> string \<Rightarrow> string
    \<Rightarrow> os \<times> SSLKitStore \<times> (string + HostSSLPolicy)" where
  "kit_Capture u T ord s k host dst =
     (let host = norm_host u host
      in if host = [] then (s, k, Inl ''host required'')
         else
           case tl_dump T host dst s of
             (s, Some err) \<Rightarrow> (s, k, Inl err)
           | (s, None) \<Rightarrow>
               (let p = policy_defaults ((mgetd zero_policy (kt_hosts k) host)\<lparr>hp_Host := host\<rparr>);
                    (k, p) = refresh T s k p;
                    k = k\<lparr>kt_hosts := mput host p (kt_hosts k)\<rparr>
                in (kit_persist ord s k, k, Inr p)))"

definition ImpersonateEnabled :: "unicode \<Rightarrow> SSLKitStore \<Rightarrow> string \<Rightarrow> bool" where
  "ImpersonateEnabled u k host =
     (case mget (kt_hosts k) (norm_host u host) of None \<Rightarrow> False | Some p \<Rightarrow> hp_Impersonate p)"

section \<open>Invariant\<close>

definition kit_ok :: "SSLKitStore \<Rightarrow> bool" where
  "kit_ok k \<longleftrightarrow> mok (kt_hosts k) \<and> (\<forall>h p. mget (kt_hosts k) h = Some p \<longrightarrow> hp_Host p = h)"

lemma policy_defaults_frame [simp]:
  "hp_Host (policy_defaults p) = hp_Host p" "hp_Kit (policy_defaults p) = hp_Kit p"
  "hp_Impersonate (policy_defaults p) = hp_Impersonate p" "hp_SPKI (policy_defaults p) = hp_SPKI p"
  "hp_Pin (policy_defaults p) = (if hp_Pin p = [] then ''off'' else hp_Pin p)"
  "hp_Verify (policy_defaults p) = (if hp_Verify p = [] then ''ca'' else hp_Verify p)"
  by (simp_all add: policy_defaults_def Let_def)

lemma refresh_frame:
  "refresh T s k p = (k', p') \<Longrightarrow> hp_Host p' = hp_Host p \<and> hp_Kit p' = hp_Kit p
     \<and> hp_Impersonate p' = hp_Impersonate p \<and> hp_Pin p' = hp_Pin p \<and> hp_Verify p' = hp_Verify p"
  by (auto simp: refresh_def Let_def split: if_splits option.splits cert_read.splits)

lemma refresh_store:
  "refresh T s k p = (k', p') \<Longrightarrow>
     k' = k \<or> k' = k\<lparr>kt_hosts := mput (hp_Host p) p' (kt_hosts k)\<rparr>"
  by (auto simp: refresh_def Let_def split: if_splits option.splits cert_read.splits)

lemma kit_ok_put: "kit_ok k \<Longrightarrow> hp_Host p = h \<Longrightarrow> kit_ok (k\<lparr>kt_hosts := mput h p (kt_hosts k)\<rparr>)"
  by (auto simp: kit_ok_def)

lemma kit_ok_refresh: "kit_ok k \<Longrightarrow> refresh T s k p = (k', p') \<Longrightarrow> kit_ok k'"
  using refresh_store [of T s k p k' p'] refresh_frame [of T s k p k' p'] kit_ok_put [of k p' "hp_Host p"] by auto

lemma kit_ok_Get: "kit_ok k \<Longrightarrow> kit_Get u T s k host = (k', p) \<Longrightarrow> kit_ok k'"
  by (auto simp: kit_Get_def Let_def dest: kit_ok_refresh split: option.splits)

lemma kit_ok_all_loop: "kit_ok k \<Longrightarrow> all_loop T s k hs = (k', ps) \<Longrightarrow> kit_ok k'"
  by (induction hs arbitrary: k ps) (auto dest: kit_ok_refresh split: prod.splits)

lemma kit_ok_Put: "kit_ok k \<Longrightarrow> kit_Put u T ord s k p = (s', k', p') \<Longrightarrow> kit_ok k'"
  by (auto simp: kit_Put_def Let_def intro!: kit_ok_put dest: kit_ok_refresh split: prod.splits)

lemma kit_ok_Capture: "kit_ok k \<Longrightarrow> kit_Capture u T ord s k h d = (s', k', p') \<Longrightarrow> kit_ok k'"
  by (auto simp: kit_Capture_def Let_def dest: kit_ok_refresh refresh_frame intro!: kit_ok_put
      split: prod.splits if_splits option.splits)

end
