(* ===== verification/Flow_View.thy ===== *)
theory Flow_View
  imports Registry Script Go_Decode Go_Codec
begin

text \<open>
  The flows as the admin API, MCP and the WebSocket clients see them (first half of mcp.go): bodies as
  text when they are text, else in base64. A client that decodes what it gets recovers every body, byte
  for byte, also through the JSON encoding.
\<close>

section \<open>Operations\<close>

record flow_view =
  fv_Time :: gotime
  fv_Host :: string
  fv_Method :: string
  fv_Path :: string
  fv_Status :: int
  fv_ReqSize :: int
  fv_ResSize :: int
  fv_Mocked :: bool
  fv_ReqBody :: string
  fv_ResBody :: string
  fv_ReqEncoding :: string
  fv_ResEncoding :: string
  fv_ReqTruncated :: bool
  fv_ResTruncated :: bool

fun bytesLookBinary :: "string \<Rightarrow> bool" where
  "bytesLookBinary [] = False"
| "bytesLookBinary (c # cs) = (if code_of c = 0 then True else bytesLookBinary cs)"

definition encodeBody :: "string \<Rightarrow> string \<times> string" where
  "encodeBody b =
     (if b = [] then ([], [])
      else if utf8_valid b \<and> \<not> bytesLookBinary b then (b, ''utf8'')
      else (base64 b, ''base64''))"

definition flowView :: "flow \<Rightarrow> flow_view" where
  "flowView f =
     (let (reqS, reqE) = encodeBody (flow_ReqBody f); (resS, resE) = encodeBody (flow_ResBody f)
      in \<lparr>fv_Time = flow_Time f, fv_Host = flow_Host f, fv_Method = flow_Method f, fv_Path = flow_Path f,
          fv_Status = flow_Status f, fv_ReqSize = flow_ReqSize f, fv_ResSize = flow_ResSize f,
          fv_Mocked = flow_Mocked f, fv_ReqBody = reqS, fv_ResBody = resS, fv_ReqEncoding = reqE,
          fv_ResEncoding = resE, fv_ReqTruncated = flow_ReqTruncated f, fv_ResTruncated = flow_ResTruncated f\<rparr>)"

definition flowViews :: "flow list \<Rightarrow> flow_view list" where
  "flowViews fs = map flowView fs"

text \<open>The views of all the hosts of a listing, which \<open>/flows\<close> and the WebSocket snapshot send.\<close>

definition all_flow_views :: "string map_order \<Rightarrow> registry \<Rightarrow> flow_view list" where
  "all_flow_views ord r = concat (map (\<lambda>d. flowViews (Flows r (di_Host d))) (Domains ord r))"

lemma fv_Time_flowView [simp]: "fv_Time (flowView f) = flow_Time f"
  by (simp add: flowView_def split: prod.splits)

section \<open>Their JSON\<close>

text \<open>The fraction of a second without its trailing zeros.\<close>

definition fmt_nanos :: "nat \<Rightarrow> string" where
  "fmt_nanos ns =
     (if ns = 0 then []
      else CHR ''.'' # rev (dropWhile (\<lambda>c. c = CHR ''0'') (rev (pad 9 (dec_nat ns)))))"

definition fmt_zone :: "int \<Rightarrow> string" where
  "fmt_zone off =
     (if off = 0 then ''Z''
      else let m = \<bar>off\<bar> div 60
           in (if off < 0 \<and> m \<noteq> 0 then ''-'' else ''+'') @ fmt_int 2 (m div 60) @ '':'' @ fmt_int 2 (m mod 60))"

text \<open>
  \<open>Time.MarshalJSON\<close>: RFC 3339 with nanoseconds; an error for a year beyond four digits or a zone of 24
  hours or more.
\<close>

definition time_json :: "gotime \<Rightarrow> json option" where
  "time_json t =
     (let sec = tm_sec t + tm_off t; (y, m, d) = civil (sec div 86400)
      in if 0 \<le> y \<and> y \<le> 9999 \<and> \<bar>tm_off t\<bar> div 3600 < 24
         then Some (JStr (fmt_date sec @ ''T'' @ fmt_clock sec @ fmt_nanos (tm_nsec t) @ fmt_zone (tm_off t)))
         else None)"

definition flow_view_members :: "flow_view \<Rightarrow> (string \<times> json) list" where
  "flow_view_members v =
     [(''host'', JStr (fv_Host v)), (''method'', JStr (fv_Method v)), (''path'', JStr (fv_Path v)),
      (''status'', JNum (dec_int (fv_Status v))), (''req_size'', JNum (dec_int (fv_ReqSize v))),
      (''res_size'', JNum (dec_int (fv_ResSize v))), (''mocked'', JBool (fv_Mocked v))] @
     opt_str ''req_body'' (fv_ReqBody v) @ opt_str ''res_body'' (fv_ResBody v) @
     opt_str ''req_encoding'' (fv_ReqEncoding v) @ opt_str ''res_encoding'' (fv_ResEncoding v) @
     opt_flag ''req_truncated'' (fv_ReqTruncated v) @ opt_flag ''res_truncated'' (fv_ResTruncated v)"

definition flow_view_json :: "flow_view \<Rightarrow> json option" where
  "flow_view_json v = map_option (\<lambda>t. JObj ((''time'', t) # flow_view_members v)) (time_json (fv_Time v))"

definition flow_views_json :: "flow_view list \<Rightarrow> json option" where
  "flow_views_json vs = map_option JArr (list_json flow_view_json vs)"

section \<open>The client's side\<close>

text \<open>What a client does with a body and its encoding's name.\<close>

definition decodeBody :: "string \<Rightarrow> string \<Rightarrow> string option" where
  "decodeBody s enc =
     (if enc = [] then Some [] else if enc = ''utf8'' then Some s
      else if enc = ''base64'' then unbase64 s else None)"

definition member_str :: "(string \<times> json) list \<Rightarrow> string \<Rightarrow> string" where
  "member_str ms k = (case map_of ms k of Some (JStr s) \<Rightarrow> s | _ \<Rightarrow> [])"

lemma decodeBody_encodeBody: "encodeBody b = (s, enc) \<Longrightarrow> decodeBody s enc = Some b"
  by (auto simp: encodeBody_def decodeBody_def unbase64_base64 split: if_splits)

lemma encodeBody_text: "encodeBody b = (s, enc) \<Longrightarrow> utf8_valid s \<and> is_ascii enc"
  by (auto simp: encodeBody_def utf8_valid_base64 utf8_valid_ascii split: if_splits)

lemma base64_empty [simp]: "base64 s = [] \<longleftrightarrow> s = []"
  using unbase64_base64 [of s] by (auto simp: base64_def)

lemma encodeBody_empty: "encodeBody b = (s, enc) \<Longrightarrow> s = [] \<longleftrightarrow> b = []"
  by (auto simp: encodeBody_def split: if_splits)

lemma bytesLookBinary_iff: "bytesLookBinary b \<longleftrightarrow> CHR 0x00 \<in> set b"
proof (induction b)
  case (Cons c b)
  have "code_of c = 0 \<longleftrightarrow> c = CHR 0x00"
    using of_char_eq_iff [of c "CHR 0x00", where ?'a = nat] by simp
  with Cons show ?case by auto
qed simp

section \<open>Transport of the bodies\<close>

definition clean_members :: "(string \<times> json) list \<Rightarrow> (string \<times> json) list" where
  "clean_members ms = map (\<lambda>(k, v). (sanitize k, clean v)) ms"

lemma clean_members_simps [simp]:
  "clean_members [] = []" "clean_members (m # ms) = (sanitize (fst m), clean (snd m)) # clean_members ms"
  "clean_members (ms @ ms') = clean_members ms @ clean_members ms'"
  "clean (JObj ms) = JObj (clean_members ms)"
  by (simp_all add: clean_members_def case_prod_unfold)

lemma sanitize_ascii: "is_ascii s \<Longrightarrow> sanitize s = s"
  by (simp add: sanitize_valid utf8_valid_ascii)

lemma clean_opt:
  "is_ascii k \<Longrightarrow> utf8_valid s \<Longrightarrow> clean_members (opt_str k s) = opt_str k s"
  "is_ascii k \<Longrightarrow> clean_members (opt_flag k b) = opt_flag k b"
  by (simp_all add: opt_str_def opt_flag_def sanitize_ascii sanitize_valid)

lemma map_of_opt:
  "map_of (opt_str k s) k' = (if k' = k \<and> s \<noteq> [] then Some (JStr s) else None)"
  "map_of (opt_flag k b) k' = (if k' = k \<and> b then Some (JBool True) else None)"
  by (simp_all add: opt_str_def opt_flag_def)

lemma time_json_str: "time_json t = Some j \<Longrightarrow> \<exists>s. j = JStr s"
  by (auto simp: time_json_def Let_def split: prod.splits if_splits)

lemma flat_depth: "list_all (\<lambda>(k, v). depth v = 0) ms \<Longrightarrow> depth (JObj ms) = 1"
  using depth_JObj [of 0 ms 1] by (cases "depth (JObj ms)") (auto simp: list_all_iff)

lemma flow_view_flat:
  assumes "flow_view_json v = Some j"
  shows "nums_ok j" "depth j \<le> 1"
proof -
  obtain t where t: "time_json (fv_Time v) = Some (JStr t)" and j: "j = JObj ((''time'', JStr t) # flow_view_members v)"
    using assms time_json_str by (fastforce simp: flow_view_json_def)
  show "nums_ok j"
    by (simp add: j flow_view_members_def nums_ok_members num_ok_dec_int)
  have "list_all (\<lambda>(k, v). depth v = 0) (flow_view_members v)"
    by (simp add: flow_view_members_def opt_str_def opt_flag_def)
  then show "depth j \<le> 1" using flat_depth [of "(''time'', JStr t) # flow_view_members v"] by (simp add: j)
qed

definition body_of :: "(string \<times> json) list \<Rightarrow> string \<Rightarrow> string \<Rightarrow> string option" where
  "body_of ms k e = decodeBody (member_str ms k) (member_str ms e)"

lemma flow_view_bodies:
  assumes "flow_view_json (flowView f) = Some (JObj ms)"
  shows "body_of (clean_members ms) ''req_body'' ''req_encoding'' = Some (flow_ReqBody f)"
    "body_of (clean_members ms) ''res_body'' ''res_encoding'' = Some (flow_ResBody f)"
proof -
  obtain t where ms: "ms = (''time'', JStr t) # flow_view_members (flowView f)"
    using assms time_json_str by (fastforce simp: flow_view_json_def)
  obtain s e where q: "encodeBody (flow_ReqBody f) = (s, e)" by fastforce
  obtain s' e' where p: "encodeBody (flow_ResBody f) = (s', e')" by fastforce
  have c: "clean_members (opt_str k s) = opt_str k s" "clean_members (opt_str k s') = opt_str k s'"
    "clean_members (opt_str k e) = opt_str k e" "clean_members (opt_str k e') = opt_str k e'"
    if "is_ascii k" for k
    using encodeBody_text [OF q] encodeBody_text [OF p] that by (simp_all add: clean_opt utf8_valid_ascii)
  have m: "member_str (clean_members ms) ''req_body'' = s" "member_str (clean_members ms) ''req_encoding'' = e"
    "member_str (clean_members ms) ''res_body'' = s'" "member_str (clean_members ms) ''res_encoding'' = e'"
    by (simp_all add: ms flow_view_members_def flowView_def q p c clean_opt member_str_def map_add_def map_of_opt
        sanitize_ascii split: option.splits)
  show "body_of (clean_members ms) ''req_body'' ''req_encoding'' = Some (flow_ReqBody f)"
    "body_of (clean_members ms) ''res_body'' ''res_encoding'' = Some (flow_ResBody f)"
    by (simp_all add: body_of_def m decodeBody_encodeBody [OF q] decodeBody_encodeBody [OF p])
qed

section \<open>Properties\<close>

text \<open>
  Every request and response body survives its way to a client, byte for byte, whether it is text or
  not: the JSON text of a flow's view parses to an object from whose \<open>req_body\<close>/\<open>req_encoding\<close> and
  \<open>res_body\<close>/\<open>res_encoding\<close> members the client decodes exactly the bytes that were captured.
\<close>

theorem flow_bodies_survive:
  assumes "flow_view_json (flowView f) = Some j"
  shows "\<exists>ms. parse_all (marshal j) = Some (JObj ms)
    \<and> body_of ms ''req_body'' ''req_encoding'' = Some (flow_ReqBody f)
    \<and> body_of ms ''res_body'' ''res_encoding'' = Some (flow_ResBody f)"
proof -
  obtain ms where j: "j = JObj ms" using assms by (auto simp: flow_view_json_def)
  have "parse_all (marshal j) = Some (clean j)"
    using parse_pr [of j "[]" False 0] flow_view_flat [OF assms]
    by (simp add: parse_all_def marshal_def skip_ws_def max_depth_def)
  then show ?thesis using flow_view_bodies [OF assms [unfolded j]] unfolding j clean_members_simps(4) by blast
qed

definition ex_flow :: flow where
  "ex_flow = \<lparr>flow_Time = \<lparr>tm_sec = 0, tm_nsec = 500000000, tm_off = 0\<rparr>, flow_Host = ''a.test'',
     flow_Method = ''POST'', flow_Path = ''/x'', flow_Status = 200, flow_ReqSize = 3, flow_ResSize = 0,
     flow_Mocked = False, flow_ReqBody = [CHR 0x00, CHR 0xFF, CHR ''a''], flow_ResBody = [],
     flow_ReqTruncated = False, flow_ResTruncated = False\<rparr>"

lemma civil_epoch: "civil 0 = (1970, 1, 1)"
  by code_simp

lemma ex_flow_time: "time_json (flow_Time ex_flow) \<noteq> None"
  by (simp add: ex_flow_def time_json_def civil_epoch)

theorem flow_bodies_survive_witness:
  "\<exists>j ms. flow_view_json (flowView ex_flow) = Some j \<and> parse_all (marshal j) = Some (JObj ms)
     \<and> body_of ms ''req_body'' ''req_encoding'' = Some [CHR 0x00, CHR 0xFF, CHR ''a'']"
proof -
  obtain j where j: "flow_view_json (flowView ex_flow) = Some j"
    using ex_flow_time by (auto simp: flow_view_json_def)
  from flow_bodies_survive [OF j] show ?thesis using j by (auto simp: ex_flow_def)
qed

end
