(* ===== verification/Ws.thy ===== *)
theory Ws
  imports Flow_View Go_Http
begin

unbundle bit_operations_syntax

text \<open>
  WebSocket frames (ws.go): writing a frame to a connection, reading one from a byte stream, the
  handshake's accept key.
  \<^item> A connection is what it has delivered so far and, when it is going to fail, the number of writes
    that still succeed.
  \<^item> A stream is the list of the bytes that arrive before it ends.
  \<^item> The locale \<open>framed\<close>: a writer and a reader of self-delimiting frames; every sequence of frames is
    read back. It is interpreted on \<open>writeWSFrame\<close>/\<open>readWSFrame\<close> for unmasked frames and on the masked
    frames of a client.
\<close>

section \<open>Connections and streams\<close>

datatype io_error = EOF | UnexpectedEOF | ErrClosed

record net_conn =
  nc_out :: "byte list"
  nc_left :: "nat option"

definition Write :: "net_conn \<Rightarrow> byte list \<Rightarrow> net_conn \<times> io_error option" where
  "Write c bs =
     (case nc_left c of
        None \<Rightarrow> (c\<lparr>nc_out := nc_out c @ bs\<rparr>, None)
      | Some 0 \<Rightarrow> (c, Some ErrClosed)
      | Some (Suc n) \<Rightarrow> (c\<lparr>nc_out := nc_out c @ bs, nc_left := Some n\<rparr>, None))"

definition ReadFull :: "nat \<Rightarrow> byte list \<Rightarrow> io_error + byte list \<times> byte list" where
  "ReadFull n s =
     (if n \<le> length s then Inr (take n s, drop n s)
      else if s = [] then Inl EOF else Inl UnexpectedEOF)"

section \<open>Frames\<close>

definition ws_header :: "byte \<Rightarrow> nat \<Rightarrow> byte list" where
  "ws_header opcode n =
     (if n < 126 then [0x80 OR opcode, of_nat n]
      else if n < 65536 then [0x80 OR opcode, 126, of_nat (n div 256), of_nat n]
      else [0x80 OR opcode, 127] @ be_bytes 8 n)"

definition writeWSFrame :: "net_conn \<Rightarrow> byte \<Rightarrow> byte list \<Rightarrow> net_conn \<times> io_error option" where
  "writeWSFrame w opcode payload =
     (case Write w (ws_header opcode (length payload)) of
        (w, Some err) \<Rightarrow> (w, Some err)
      | (w, None) \<Rightarrow> Write w payload)"

text \<open>
  \<open>make([]byte, n)\<close> panics for a negative or too large \<open>n\<close>; \<open>ws_max_alloc\<close> is the address space of the
  runtime on 64-bit machines.
\<close>

definition ws_max_alloc :: int where "ws_max_alloc = 2 ^ 48"

definition make_bytes :: "int \<Rightarrow> nat option" where
  "make_bytes n = (if n < 0 \<or> ws_max_alloc < n then None else Some (nat n))"

text \<open>The payload's length: seven bits, or two or eight more bytes, as an \<open>int\<close> (which may be negative).\<close>

definition read_length :: "byte \<Rightarrow> byte list \<Rightarrow> io_error + int \<times> byte list" where
  "read_length h1 s =
     (let n = unat (h1 AND 0x7f)
      in if n = 126 then
           (case ReadFull 2 s of Inl e \<Rightarrow> Inl e | Inr (ext, s) \<Rightarrow> Inr (int (be_nat ext), s))
         else if n = 127 then
           (case ReadFull 8 s of Inl e \<Rightarrow> Inl e
            | Inr (ext, s) \<Rightarrow> Inr (sint (of_nat (be_nat ext) :: int64), s))
         else Inr (int n, s))"

definition unmask :: "byte list \<Rightarrow> byte list \<Rightarrow> byte list" where
  "unmask mk p = map (\<lambda>i. p ! i XOR mk ! (i mod 4)) [0..<length p]"

definition readWSFrame :: "byte list \<Rightarrow> (io_error, byte list \<times> byte list) outcome" where
  "readWSFrame s =
     (case ReadFull 2 s of
        Inl e \<Rightarrow> Err e
      | Inr (h, s) \<Rightarrow>
          (let masked = (h ! 1 AND 0x80 \<noteq> 0)
           in case read_length (h ! 1) s of
                Inl e \<Rightarrow> Err e
              | Inr (n, s) \<Rightarrow>
                  (case (if masked then ReadFull 4 s else Inr ([0, 0, 0, 0], s)) of
                     Inl e \<Rightarrow> Err e
                   | Inr (mk, s) \<Rightarrow>
                       (case make_bytes n of
                          None \<Rightarrow> Panic
                        | Some k \<Rightarrow>
                            (case ReadFull k s of
                               Inl e \<Rightarrow> Err e
                             | Inr (payload, s) \<Rightarrow>
                                 (let payload = (if masked then unmask mk payload else payload);
                                      opcode = h ! 0 AND 0x0f
                                  in if opcode = 8 then Err EOF else Ok (payload, s)))))))"

definition wsGUID :: string where
  "wsGUID = ''258EAFA5-E914-47DA-95CA-C5AB0DC85B11''"

definition wsAccept :: "string \<Rightarrow> string" where
  "wsAccept key = base64 (text_of (sha1 (bytes_of (key @ wsGUID))))"

section \<open>Self-delimiting frames\<close>

locale framed =
  fixes enc :: "'a \<Rightarrow> byte list"
    and dec :: "byte list \<Rightarrow> ('e, 'b \<times> byte list) outcome"
    and payload :: "'a \<Rightarrow> 'b"
    and fits :: "'a \<Rightarrow> bool"
  assumes dec_enc: "fits x \<Longrightarrow> dec (enc x @ s) = Ok (payload x, s)"
    and enc_size: "fits x \<Longrightarrow> enc x \<noteq> []"
begin

fun dec_many :: "nat \<Rightarrow> byte list \<Rightarrow> 'b list \<times> byte list" where
  "dec_many 0 s = ([], s)"
| "dec_many (Suc n) s =
     (case dec s of
        Ok (x, s') \<Rightarrow> (case dec_many n s' of (xs, r) \<Rightarrow> (x # xs, r))
      | _ \<Rightarrow> ([], s))"

lemma dec_many_enc:
  "list_all fits xs \<Longrightarrow> dec_many (length xs) (concat (map enc xs) @ s) = (map payload xs, s)"
  by (induction xs) (simp_all add: dec_enc)

text \<open>No frame is a proper prefix of another frame's stream with a different payload.\<close>

lemma enc_unambiguous: "fits x \<Longrightarrow> fits y \<Longrightarrow> enc x @ s = enc y @ t \<Longrightarrow> payload x = payload y \<and> s = t"
  using dec_enc [of x s] dec_enc [of y t] by simp

end

section \<open>Reading what was written\<close>

lemma ReadFull_append: "length p = n \<Longrightarrow> ReadFull n (p @ s) = Inr (p, s)"
  by (auto simp: ReadFull_def)

lemma ReadFull_short: "length s < n \<Longrightarrow> ReadFull n s = Inl (if s = [] then EOF else UnexpectedEOF)"
  by (simp add: ReadFull_def)

lemma ReadFull_Inr: "ReadFull n s = Inr (p, r) \<Longrightarrow> s = p @ r \<and> length p = n"
  by (auto simp: ReadFull_def split: if_splits)

lemma length_unmask [simp]: "length (unmask mk p) = length p"
  by (simp add: unmask_def)

lemma unmask_unmask: "unmask mk (unmask mk p) = p"
  by (rule nth_equalityI) (simp_all add: unmask_def xor.assoc)

lemma sint_of_nat_small: "n < 2 ^ 63 \<Longrightarrow> sint (of_nat n :: int64) = int n"
  by (simp add: signed_of_nat signed_take_bit_int_eq_self)

lemma and_high_bits: "((0x80 :: byte) OR b) AND 0x0f = b AND 0x0f" "((0x80 :: byte) OR b) AND 0x7f = b AND 0x7f"
  "((0x80 :: byte) OR b) AND 0x80 = 0x80"
  by (simp_all only: bit.conj_disj_distrib2) (simp_all add: word_ao_absorbs)

lemma unat_and_7f: "n < 128 \<Longrightarrow> unat ((of_nat n :: byte) AND 0x7f) = n"
proof -
  assume n: "n < 128"
  have "(0x7f :: byte) = mask 7" by (simp add: mask_eq_exp_minus_1)
  then have "(of_nat n :: byte) AND 0x7f = take_bit 7 (of_nat n)" by (simp only: take_bit_eq_mask)
  then have "unat ((of_nat n :: byte) AND 0x7f) = take_bit 7 (unat (of_nat n :: byte))"
    by (simp only: unsigned_take_bit_eq)
  also have "\<dots> = n" using n by (simp add: take_bit_eq_mod unat_of_nat)
  finally show ?thesis .
qed

lemma small_no_high_bit: "n < 128 \<Longrightarrow> (of_nat n :: byte) AND 0x80 = 0"
proof -
  assume n: "n < 128"
  have "(of_nat n :: byte) = of_nat n AND 0x7f"
    unfolding word_unat_eq_iff using n by (simp add: unat_and_7f unat_of_nat)
  then have "(of_nat n :: byte) AND 0x80 = of_nat n AND (0x7f AND 0x80)"
    by (metis and.assoc)
  then show ?thesis by simp
qed

lemma ws_header_cases:
  assumes "int n \<le> ws_max_alloc"
  obtains b ext where "ws_header op n = (0x80 OR op) # b # ext" "b AND 0x80 = 0"
    "\<And>b' s. b' AND 0x7f = b AND 0x7f \<Longrightarrow> read_length b' (ext @ s) = Inr (int n, s)"
proof -
  have n: "n < 2 ^ 63" using assms by (simp add: ws_max_alloc_def)
  consider "n < 126" | "126 \<le> n" "n < 65536" | "65536 \<le> n" by linarith
  then show ?thesis
  proof cases
    case 1
    show ?thesis
      by (rule that [of "of_nat n" "[]"])
        (use 1 in \<open>simp_all add: ws_header_def small_no_high_bit read_length_def unat_and_7f\<close>)
  next
    case 2
    have "[of_nat (n div 256), of_nat n] = be_bytes 2 n"
      by (simp add: be_bytes_def upt_rec numeral_2_eq_2)
    then have r: "ReadFull 2 (of_nat (n div 256) # of_nat n # s) = Inr (be_bytes 2 n, s)" for s
      using ReadFull_append [of "be_bytes 2 n" 2 s] by (metis append_Cons append_Nil length_be_bytes)
    show ?thesis
      by (rule that [of 126 "[of_nat (n div 256), of_nat n]"])
        (use 2 in \<open>simp_all add: ws_header_def read_length_def r be_nat_be_bytes\<close>)
  next
    case 3
    show ?thesis
      by (rule that [of 127 "be_bytes 8 n"])
        (use 3 n in \<open>simp_all add: ws_header_def read_length_def ReadFull_append be_nat_be_bytes sint_of_nat_small\<close>)
  qed
qed

text \<open>A frame as a client sends it: the mask bit, the key, the masked payload.\<close>

definition server_frame :: "byte \<times> byte list \<Rightarrow> byte list" where
  "server_frame f = (case f of (op, p) \<Rightarrow> ws_header op (length p) @ p)"

definition client_frame :: "byte \<times> byte list \<times> byte list \<Rightarrow> byte list" where
  "client_frame f =
     (case f of (op, mk, p) \<Rightarrow>
       (case ws_header op (length p) of
          h0 # h1 # ext \<Rightarrow> h0 # (0x80 OR h1) # ext @ mk @ unmask mk p
        | _ \<Rightarrow> []))"

definition frame_fits :: "byte \<Rightarrow> byte list \<Rightarrow> bool" where
  "frame_fits op p \<longleftrightarrow> op AND 0x0f \<noteq> 8 \<and> int (length p) \<le> ws_max_alloc"

lemma ReadFull_two: "ReadFull 2 (a # b # s) = Inr ([a, b], s)"
  by (simp add: ReadFull_def)

lemma make_bytes_int: "int n \<le> ws_max_alloc \<Longrightarrow> make_bytes (int n) = Some n"
  by (simp add: make_bytes_def)

interpretation srv: framed server_frame readWSFrame snd "\<lambda>(op, p). frame_fits op p"
proof unfold_locales
  fix x :: "byte \<times> byte list" and s
  obtain op p where x: "x = (op, p)" by (cases x)
  assume "case x of (op, p) \<Rightarrow> frame_fits op p"
  then have f: "op AND 0x0f \<noteq> 8" "int (length p) \<le> ws_max_alloc" by (simp_all add: x frame_fits_def)
  obtain b ext where h: "ws_header op (length p) = (0x80 OR op) # b # ext" "b AND 0x80 = 0"
    "\<And>b' s. b' AND 0x7f = b AND 0x7f \<Longrightarrow> read_length b' (ext @ s) = Inr (int (length p), s)"
    by (rule ws_header_cases [OF f(2), of op]) blast
  show "readWSFrame (server_frame x @ s) = Ok (snd x, s)"
    using f h(2) h(3) [of b "p @ s"]
    by (simp add: x server_frame_def h(1) readWSFrame_def ReadFull_two ReadFull_append make_bytes_int and_high_bits)
  show "server_frame x \<noteq> []" by (simp add: x server_frame_def h(1))
qed

interpretation cli: framed client_frame readWSFrame "\<lambda>(op, mk, p). p"
  "\<lambda>(op, mk, p). frame_fits op p \<and> length mk = 4"
proof unfold_locales
  fix x :: "byte \<times> byte list \<times> byte list" and s
  obtain op mk p where x: "x = (op, mk, p)" by (cases x)
  assume "case x of (op, mk, p) \<Rightarrow> frame_fits op p \<and> length mk = 4"
  then have f: "op AND 0x0f \<noteq> 8" "int (length p) \<le> ws_max_alloc" "length mk = 4"
    by (simp_all add: x frame_fits_def)
  obtain b ext where h: "ws_header op (length p) = (0x80 OR op) # b # ext" "b AND 0x80 = 0"
    "\<And>b' s. b' AND 0x7f = b AND 0x7f \<Longrightarrow> read_length b' (ext @ s) = Inr (int (length p), s)"
    by (rule ws_header_cases [OF f(2), of op]) blast
  have m: "ReadFull 4 (mk @ t) = Inr (mk, t)" for t using f(3) by (rule ReadFull_append)
  have p: "ReadFull (length p) (unmask mk p @ t) = Inr (unmask mk p, t)" for t
    by (rule ReadFull_append) simp
  show "readWSFrame (client_frame x @ s) = Ok (case x of (op, mk, p) \<Rightarrow> p, s)"
    using f h(3) [of "0x80 OR b" "mk @ unmask mk p @ s"]
    by (simp add: x client_frame_def h(1) readWSFrame_def ReadFull_two m p make_bytes_int and_high_bits
        unmask_unmask)
  show "client_frame x \<noteq> []" by (simp add: x client_frame_def h(1))
qed

section \<open>The reading loop\<close>

lemma ReadFull_length: "ReadFull n s = Inr (p, r) \<Longrightarrow> length r = length s - n \<and> n \<le> length s"
  by (auto simp: ReadFull_def split: if_splits)

lemma read_length_shrinks: "read_length h s = Inr (n, r) \<Longrightarrow> length r \<le> length s"
  by (auto simp: read_length_def Let_def split: if_splits sum.splits dest!: ReadFull_length)

lemma readWSFrame_shrinks: "readWSFrame s = Ok (p, r) \<Longrightarrow> length r < length s"
proof -
  assume a: "readWSFrame s = Ok (p, r)"
  obtain h s1 where 1: "ReadFull 2 s = Inr (h, s1)"
    using a by (auto simp: readWSFrame_def split: sum.splits)
  obtain n s2 where 2: "read_length (h ! 1) s1 = Inr (n, s2)"
    using a by (auto simp: readWSFrame_def 1 Let_def split: sum.splits)
  obtain mk s3 where 3: "(if h ! 1 AND 0x80 \<noteq> 0 then ReadFull 4 s2 else Inr ([0, 0, 0, 0], s2)) = Inr (mk, s3)"
    using a by (simp add: readWSFrame_def 1 2 [simplified] Let_def split: sum.splits prod.splits)
  obtain k pl where 4: "ReadFull k s3 = Inr (pl, r)"
    using a by (simp add: readWSFrame_def 1 2 [simplified] 3 [simplified] Let_def
        split: sum.splits option.splits if_splits prod.splits)
  show ?thesis
    using ReadFull_length [OF 1] read_length_shrinks [OF 2] 3 ReadFull_length [OF 4]
    by (auto split: if_splits dest!: ReadFull_length)
qed

text \<open>
  The loop of \<open>handleWS\<close>: frames are read and dropped until an error; the result holds the payloads that
  were read (the code ignores them) and the error, \<open>None\<close> for a panic.
\<close>

function read_loop :: "byte list \<Rightarrow> byte list list \<times> io_error option" where
  "read_loop s =
     (case readWSFrame s of
        Err e \<Rightarrow> ([], Some e)
      | Panic \<Rightarrow> ([], None)
      | Ok (p, s') \<Rightarrow> (case read_loop s' of (ps, e) \<Rightarrow> (p # ps, e)))"
  by pat_completeness auto
termination
  by (relation "measure length") (auto dest: readWSFrame_shrinks)

declare read_loop.simps [simp del]

lemma read_loop_frames:
  assumes "\<And>x s. x \<in> set xs \<Longrightarrow> readWSFrame (enc x @ s) = Ok (pay x, s)"
  shows "read_loop (concat (map enc xs) @ s) = (case read_loop s of (ps, e) \<Rightarrow> (map pay xs @ ps, e))"
  using assms
proof (induction xs)
  case (Cons x xs)
  have "read_loop (concat (map enc xs) @ s) = (case read_loop s of (ps, e) \<Rightarrow> (map pay xs @ ps, e))"
    by (rule Cons.IH) (simp add: Cons.prems)
  then show ?case
    using Cons.prems [of x "concat (map enc xs) @ s"]
    by (simp add: read_loop.simps [of "enc x @ _"] split: prod.splits)
qed (simp split: prod.splits)

lemma read_loop_Nil: "read_loop [] = ([], Some EOF)"
  by (simp add: read_loop.simps readWSFrame_def ReadFull_def)

lemma writeWSFrame_out:
  "nc_left c = None \<Longrightarrow> writeWSFrame c op p = (c\<lparr>nc_out := nc_out c @ server_frame (op, p)\<rparr>, None)"
  by (simp add: writeWSFrame_def Write_def server_frame_def)

lemma Write_prefix: "\<exists>t. nc_out (fst (Write c bs)) = nc_out c @ t"
  by (auto simp: Write_def split: option.splits nat.splits)

section \<open>Properties\<close>

text \<open>
  C34: whatever messages are sent on a working connection, the peer that reads the delivered bytes as
  WebSocket frames gets exactly these messages, in order, for every size up to what can be allocated.
\<close>

theorem sent_frames_are_read:
  assumes "nc_left c = None" "nc_out c = []" "list_all (\<lambda>p. int (length p) \<le> ws_max_alloc) ps"
  shows "read_loop (nc_out (foldl (\<lambda>c p. fst (writeWSFrame c 1 p)) c ps)) = (ps, Some EOF)"
proof -
  have out: "nc_left c = None \<Longrightarrow>
      nc_out (foldl (\<lambda>c p. fst (writeWSFrame c 1 p)) c ps) = nc_out c @ concat (map (\<lambda>p. server_frame (1, p)) ps)"
    for c ps by (induction ps arbitrary: c) (simp_all add: writeWSFrame_out)
  have "readWSFrame (server_frame (1, p) @ s) = Ok (p, s)" if "p \<in> set ps" for p s
    using srv.dec_enc [of "(1, p)" s] that assms(3) by (simp add: frame_fits_def list_all_iff)
  then have "read_loop (concat (map (\<lambda>p. server_frame (1, p)) ps) @ []) = (map (\<lambda>p. p) ps, Some EOF)"
    using read_loop_frames [of ps "\<lambda>p. server_frame (1, p)" "\<lambda>p. p" "[]"] by (simp add: read_loop_Nil)
  with assms show ?thesis by (simp add: out)
qed

theorem sent_frames_are_read_witness:
  "read_loop (nc_out (foldl (\<lambda>c p. fst (writeWSFrame c 1 p)) \<lparr>nc_out = [], nc_left = None\<rparr> [[104, 105], [], [0]]))
     = ([[104, 105], [], [0]], Some EOF)"
  by (rule sent_frames_are_read) (simp_all add: ws_max_alloc_def)

text \<open>
  C35: the reader accepts what clients send: any sequence of masked frames, with any masking keys, is
  unmasked to the payloads, up to the close frame (opcode 8), which ends the loop.
\<close>

theorem client_frames_are_unmasked:
  assumes "list_all (\<lambda>(op, mk, p). frame_fits op p \<and> length mk = 4) fs" "length mk = 4"
  shows "read_loop (concat (map client_frame fs) @ client_frame (8, mk, []) @ s)
    = (map (\<lambda>(op, mk, p). p) fs, Some EOF)"
proof -
  have "ws_header 8 0 = [0x88, 0]" by (simp add: ws_header_def)
  then have "client_frame (8, mk, []) @ s = 0x88 # 0x80 # mk @ s"
    by (simp add: client_frame_def unmask_def)
  moreover have "readWSFrame (0x88 # 0x80 # mk @ s) = Err EOF"
    by (simp add: readWSFrame_def ReadFull_two read_length_def ReadFull_append [OF assms(2)] make_bytes_def
        ws_max_alloc_def unmask_def ReadFull_def [of 0])
  ultimately have close: "read_loop (client_frame (8, mk, []) @ s) = ([], Some EOF)"
    by (simp add: read_loop.simps)
  have "readWSFrame (client_frame x @ t) = Ok ((\<lambda>(op, mk, p). p) x, t)" if "x \<in> set fs" for x t
    using cli.dec_enc [of x t] that assms(1) by (auto simp: list_all_iff)
  then show ?thesis using read_loop_frames [of fs client_frame "\<lambda>(op, mk, p). p"] by (simp add: close)
qed

theorem client_frames_are_unmasked_witness:
  "read_loop (concat (map client_frame [(1, [1, 2, 3, 4], [104, 105])]) @ client_frame (8, [0, 0, 0, 0], []) @ [7])
     = ([[104, 105]], Some EOF)"
  using client_frames_are_unmasked [of "[(1, [1, 2, 3, 4], [104, 105])]" "[0, 0, 0, 0]" "[7]"]
  by (simp add: frame_fits_def ws_max_alloc_def)

text \<open>
  C40: a frame that announces a 64-bit length of \<open>2 ^ 63\<close> or more (a negative \<open>int\<close>) makes the reader panic,
  before any byte of its payload is needed: the length field is not checked.
\<close>

theorem hostile_length_panics:
  assumes "2 ^ 63 \<le> n" "n < 2 ^ 64" "length mk = 4"
  shows "readWSFrame (op # 0xFF # be_bytes 8 n @ mk @ s) = Panic"
proof -
  have "int (2 ^ 63) \<le> int n" "int n < int (2 ^ 64)"
    using assms(1,2) by (simp_all only: of_nat_le_iff of_nat_less_iff)
  then have i: "int n < 2 ^ 64" "2 ^ 63 \<le> int n" by simp_all
  have "int n div 2 ^ 63 = 1" using i by (intro int_div_pos_eq [of _ _ _ "int n - 2 ^ 63"]) simp_all
  then have "signed_take_bit 63 (int n) < 0" using i by (simp add: signed_take_bit_eq_take_bit_minus take_bit_int_eq_self bit_iff_odd)
  then have "make_bytes (sint (of_nat n :: int64)) = None" by (simp add: make_bytes_def signed_of_nat)
  then show ?thesis
    using assms(2)
    by (simp add: readWSFrame_def ReadFull_two read_length_def ReadFull_append [OF assms(3)] ReadFull_append
        be_nat_be_bytes)
qed

theorem hostile_length_panics_witness:
  "readWSFrame (0x82 # 0xFF # be_bytes 8 (2 ^ 63) @ [0, 0, 0, 0] @ []) = Panic"
  by (rule hostile_length_panics) simp_all

end
