(* ===== verification/Hub.thy ===== *)
theory Hub
  imports Ws Go_Reply
begin

text \<open>
  The hub (hub.go) and the WebSocket handler (ws.go): the set of connected clients, the fan-out of flows
  to them, the handshake, the snapshot a new client gets, and the end of a connection.

  The hub's map goes from connections to nothing; here a connection is named by a number and the map
  holds its state, so that what each client has been sent can be observed.
\<close>

section \<open>Operations\<close>

record hub =
  clients :: "(nat, net_conn) gomap"

definition NewHub :: hub where
  "NewHub = \<lparr>clients = []\<rparr>"

definition hub_add :: "nat \<Rightarrow> net_conn \<Rightarrow> hub \<Rightarrow> hub" where
  "hub_add c conn h = h\<lparr>clients := mput c conn (clients h)\<rparr>"

definition hub_remove :: "nat \<Rightarrow> hub \<Rightarrow> hub" where
  "hub_remove c h = h\<lparr>clients := mdel c (clients h)\<rparr>"

text \<open>\<open>wsConn.send\<close>: the error of the write is dropped.\<close>

definition conn_send :: "net_conn \<Rightarrow> byte list \<Rightarrow> net_conn" where
  "conn_send c payload = fst (writeWSFrame c 1 payload)"

definition send :: "nat \<Rightarrow> byte list \<Rightarrow> hub \<Rightarrow> hub" where
  "send c payload h =
     (case mget (clients h) c of
        None \<Rightarrow> h
      | Some conn \<Rightarrow> h\<lparr>clients := mput c (conn_send conn payload) (clients h)\<rparr>)"

definition flow_message :: "flow \<Rightarrow> string option" where
  "flow_message f =
     (let views = flowViews [f]
      in map_option (\<lambda>v. marshal (map_json [(''type'', JStr ''flow''), (''flow'', v)])) (flow_view_json (views ! 0)))"

definition Publish :: "nat map_order \<Rightarrow> hub option \<Rightarrow> flow \<Rightarrow> hub option" where
  "Publish ord h f =
     (case h of
        None \<Rightarrow> None
      | Some h \<Rightarrow>
          (case flow_message f of
             None \<Rightarrow> Some h
           | Some b \<Rightarrow> Some (fold (\<lambda>c h. send c (bytes_of b) h) (ord (mkeys (clients h))) h)))"

section \<open>The handler\<close>

text \<open>
  \<open>handleWS\<close> up to its reading loop. \<open>hj\<close> is what hijacking gives: \<open>None\<close> when the response writer cannot
  be hijacked, \<open>Some None\<close> when that fails, else the connection.
\<close>

datatype ws_start = WsReply reply | WsOpen

definition is_upgrade :: "request \<Rightarrow> bool" where
  "is_upgrade r \<longleftrightarrow>
     Header_Get (req_Header r) ''Upgrade'' = ''websocket'' \<or> Header_Get (req_Header r) ''Upgrade'' = ''WebSocket''"

definition crlf :: string where "crlf = [CHR 0x0D, CHR 0x0A]"

definition handshake :: "request \<Rightarrow> string" where
  "handshake r =
     ''HTTP/1.1 101 Switching Protocols'' @ crlf @ ''Upgrade: websocket'' @ crlf @ ''Connection: Upgrade'' @ crlf
     @ ''Sec-WebSocket-Accept: '' @ wsAccept (Header_Get (req_Header r) ''Sec-WebSocket-Key'') @ crlf @ crlf"

definition snapshot_message :: "string map_order \<Rightarrow> registry \<Rightarrow> string" where
  "snapshot_message ord reg =
     (case list_json flow_view_json (all_flow_views ord reg) of
        None \<Rightarrow> []
      | Some vs \<Rightarrow> marshal (map_json [(''type'', JStr ''snapshot''), (''flows'', nil_slice vs)]))"

definition ws_upgrade :: "request \<Rightarrow> net_conn option option \<Rightarrow> nat \<Rightarrow> hub \<Rightarrow> hub \<times> ws_start" where
  "ws_upgrade r hj c h =
     (if \<not> is_upgrade r then (h, WsReply (http_Error ''upgrade required'' 400 new_reply))
      else
        case hj of
          None \<Rightarrow> (h, WsReply (http_Error ''no hijack'' 500 new_reply))
        | Some None \<Rightarrow> (h, WsReply new_reply)
        | Some (Some conn) \<Rightarrow> (hub_add c (fst (Write conn (bytes_of (handshake r)))) h, WsOpen))"

definition ws_snapshot :: "string map_order \<Rightarrow> registry \<Rightarrow> nat \<Rightarrow> hub \<Rightarrow> hub" where
  "ws_snapshot ord reg c h = send c (bytes_of (snapshot_message ord reg)) h"

text \<open>
  The rest of the handler once the client has sent the bytes \<open>s\<close> and closed, or a bad frame arrived: the
  reading loop ends by an error or a panic, which the server recovers, and in both cases the deferred
  function removes the client.
\<close>

definition ws_end :: "nat \<Rightarrow> byte list \<Rightarrow> hub \<Rightarrow> hub" where
  "ws_end c s h = (case read_loop s of (_, Some e) \<Rightarrow> hub_remove c h | (_, None) \<Rightarrow> hub_remove c h)"

definition hub_ok :: "hub \<Rightarrow> bool" where
  "hub_ok h \<longleftrightarrow> mok (clients h)"

section \<open>Facts\<close>

lemma mget_send:
  "mget (clients (send c p h)) k = (if k = c then map_option (\<lambda>x. conn_send x p) (mget (clients h) k) else mget (clients h) k)"
  by (auto simp: send_def split: option.splits)

lemma mget_sends:
  "distinct cs \<Longrightarrow> mget (clients (fold (\<lambda>c h. send c p h) cs h)) k =
     (if k \<in> set cs then map_option (\<lambda>x. conn_send x p) (mget (clients h) k) else mget (clients h) k)"
  by (induction cs arbitrary: h) (auto simp: mget_send)

lemma hub_ok_send: "hub_ok h \<Longrightarrow> hub_ok (send c p h)"
  by (auto simp: send_def hub_ok_def split: option.splits)

lemma hub_ok_sends: "hub_ok h \<Longrightarrow> hub_ok (fold (\<lambda>c h. send c p h) cs h)"
  by (induction cs arbitrary: h) (auto simp: hub_ok_send)

lemma hub_ok_ops:
  "hub_ok NewHub" "hub_ok h \<Longrightarrow> hub_ok (hub_add c conn h)" "hub_ok h \<Longrightarrow> hub_ok (hub_remove c h)"
  "hub_ok h \<Longrightarrow> hub_ok (fst (ws_upgrade r hj c h))" "hub_ok h \<Longrightarrow> hub_ok (ws_snapshot ord reg c h)"
  "hub_ok h \<Longrightarrow> hub_ok (ws_end c s h)"
  by (auto simp: hub_ok_def NewHub_def hub_add_def hub_remove_def ws_upgrade_def ws_end_def
      ws_snapshot_def hub_ok_send [unfolded hub_ok_def] split: option.splits prod.splits)

lemma hub_ok_Publish: "hub_ok h \<Longrightarrow> Publish ord (Some h) f = Some h' \<Longrightarrow> hub_ok h'"
  by (auto simp: Publish_def hub_ok_sends split: option.splits)

lemma mget_Publish:
  assumes "hub_ok h" "is_map_order ord" "flow_message f = Some b" "Publish ord (Some h) f = Some h'"
  shows "mget (clients h') k = map_option (\<lambda>x. conn_send x (bytes_of b)) (mget (clients h) k)"
proof -
  have "distinct (ord (mkeys (clients h)))"
    using assms(1,2) by (simp add: hub_ok_def mok_def map_order_distinct)
  then show ?thesis
    using assms mget_None_iff [of "clients h" k]
    by (auto simp: Publish_def mget_sends)
qed

lemma conn_send_out:
  "nc_left c = None \<Longrightarrow> conn_send c p = c\<lparr>nc_out := nc_out c @ server_frame (1, p)\<rparr>"
  by (simp add: conn_send_def writeWSFrame_out)

lemma flow_message_parse:
  assumes "flow_message f = Some b"
  shows "\<exists>j ms. flow_view_json (flowView f) = Some j \<and> j = JObj ms
     \<and> parse_all b = Some (JObj [(''flow'', clean j), (''type'', JStr ''flow'')])"
proof -
  obtain j where j: "flow_view_json (flowView f) = Some j"
    and b: "b = marshal (map_json [(''type'', JStr ''flow''), (''flow'', j)])"
    using assms by (auto simp: flow_message_def flowViews_def)
  obtain ms where ms: "j = JObj ms" using j by (auto simp: flow_view_json_def)
  define v where "v = map_json [(''type'', JStr ''flow''), (''flow'', j)]"
  have "sort_key fst [(''type'', JStr ''flow''), (''flow'', j)] = [(''flow'', j), (''type'', JStr ''flow'')]"
    by (simp add: less_eq_char_def)
  then have v: "v = JObj [(''flow'', j), (''type'', JStr ''flow'')]" by (simp add: v_def obj_of_def)
  have "nums_ok v" using flow_view_flat [OF j] by (simp add: v)
  moreover have "depth v \<le> max_depth"
    using depth_JObj [of 0 "[(''flow'', j), (''type'', JStr ''flow'')]" max_depth] flow_view_flat [OF j]
    by (simp add: v max_depth_def)
  ultimately have "parse_all (marshal v) = Some (clean v)"
    using parse_pr [of v "[]" False 0] by (simp add: parse_all_def marshal_def skip_ws_def)
  moreover have "clean v = JObj [(''flow'', clean j), (''type'', JStr ''flow'')]"
    by (simp add: v sanitize_ascii del: clean.simps(2))
  ultimately show ?thesis using j ms b by (auto simp: v_def)
qed

section \<open>Properties\<close>

text \<open>
  C24: a published flow reaches every connected client, whatever the order of the fan-out: a client whose
  connection works and that has read its stream so far next reads exactly one frame, whose JSON is a
  \<open>flow\<close> message from which it decodes the captured bodies byte for byte; no client is added or dropped.
\<close>

theorem published_flow_arrives:
  assumes "hub_ok h" "is_map_order ord" "flow_message f = Some b" "Publish ord (Some h) f = Some h'"
    and "mget (clients h) k = Some c" "nc_left c = None" "int (length b) \<le> ws_max_alloc"
  shows "\<exists>c' ms. mget (clients h') k = Some c' \<and> nc_left c' = None
    \<and> (\<exists>frame. nc_out c' = nc_out c @ frame \<and> readWSFrame frame = Ok (bytes_of b, []))
    \<and> parse_all b = Some (JObj [(''flow'', JObj ms), (''type'', JStr ''flow'')])
    \<and> body_of ms ''req_body'' ''req_encoding'' = Some (flow_ReqBody f)
    \<and> body_of ms ''res_body'' ''res_encoding'' = Some (flow_ResBody f)"
proof -
  obtain j ms where j: "flow_view_json (flowView f) = Some j" "j = JObj ms"
    and p: "parse_all b = Some (JObj [(''flow'', clean j), (''type'', JStr ''flow'')])"
    using flow_message_parse [OF assms(3)] by blast
  have m: "mget (clients h') k = Some (conn_send c (bytes_of b))"
    using mget_Publish [OF assms(1-4)] assms(5) by simp
  have "int (length (bytes_of b)) \<le> ws_max_alloc" using assms(7) by (simp add: bytes_of_def)
  then have "readWSFrame (server_frame (1, bytes_of b)) = Ok (bytes_of b, [])"
    using srv.dec_enc [of "(1, bytes_of b)" "[]"] by (simp add: frame_fits_def)
  then show ?thesis
    using m p flow_view_bodies [OF j(1) [unfolded j(2)]] assms(6) j(2) clean_members_simps(4) [of ms]
    by (auto simp: conn_send_out simp del: clean_members_simps clean.simps)
qed

lemma ex_flow_message: "\<exists>b. flow_message ex_flow = Some b \<and> length b = 196"
proof -
  have t: "time_json (flow_Time ex_flow) = Some (JStr ''1970-01-01T00:00:00.5Z'')"
    by (simp add: ex_flow_def time_json_def civil_epoch fmt_date_def fmt_clock_def fmt_int_def pad_def
        fmt_nanos_def fmt_zone_def dec_nat.simps digit_char_def char_of_def bit_0)
  have e: "encodeBody [CHR 0x00, CHR 0xFF, CHR ''a''] = (''AP9h'', ''base64'')"
    by (simp add: encodeBody_def base64_def b64_char_def char_of_def bit_0)
  have e0: "encodeBody [] = ([], [])" by (simp add: encodeBody_def)
  have d: "dec_int 200 = ''200''" "dec_int 3 = ''3''" "dec_int 0 = ''0''"
    by (simp_all add: dec_int_def dec_nat.simps digit_char_def char_of_def bit_0)
  have m: "flow_view_members (flowView ex_flow) =
      [(''host'', JStr ''a.test''), (''method'', JStr ''POST''), (''path'', JStr ''/x''), (''status'', JNum ''200''),
       (''req_size'', JNum ''3''), (''res_size'', JNum ''0''), (''mocked'', JBool False),
       (''req_body'', JStr ''AP9h''), (''req_encoding'', JStr ''base64'')]"
    by (simp add: ex_flow_def flowView_def flow_view_members_def e e0 d opt_str_def opt_flag_def)
  have o: "map_json [(''type'', JStr ''flow''), (''flow'', j)] = JObj [(''flow'', j), (''type'', JStr ''flow'')]" for j
    by (simp add: obj_of_def less_eq_char_def)
  show ?thesis
    by (simp add: flow_message_def flowViews_def flow_view_json_def t m o marshal_def quote_plain json_plain_def
        nl_def colon_def)
qed

definition ex_hub :: hub where
  "ex_hub = hub_add 2 \<lparr>nc_out = [7], nc_left = None\<rparr> (hub_add 1 \<lparr>nc_out = [], nc_left = Some 0\<rparr> NewHub)"

theorem published_flow_arrives_witness:
  "\<exists>b h' c' ms. flow_message ex_flow = Some b \<and> Publish rev (Some ex_hub) ex_flow = Some h'
    \<and> mget (clients h') 2 = Some c' \<and> (\<exists>frame. nc_out c' = 7 # frame \<and> readWSFrame frame = Ok (bytes_of b, []))
    \<and> body_of ms ''req_body'' ''req_encoding'' = Some [CHR 0x00, CHR 0xFF, CHR ''a'']"
proof -
  obtain b where b: "flow_message ex_flow = Some b" "length b = 196" using ex_flow_message by blast
  obtain h' where h: "Publish rev (Some ex_hub) ex_flow = Some h'" by (simp add: Publish_def b)
  have "hub_ok ex_hub" by (simp add: ex_hub_def hub_ok_ops)
  from published_flow_arrives [OF this is_map_order_rev b(1) h, of 2 "\<lparr>nc_out = [7], nc_left = None\<rparr>"] b h
  show ?thesis by (auto simp: ex_hub_def hub_add_def ws_max_alloc_def) (auto simp: ex_flow_def)
qed

end
