(* ===== verification/App.thy ===== *)
theory App
  imports Sslkit Hub
begin

text \<open>
  The application object (app.go): the decisions the proxy engine asks for when a client connects and for
  every request it decrypts, the recording of flows, and the pin-bypass flag with its file.

  The engine (gomitm) calls \<open>OnConnect\<close> before the TLS handshake, \<open>OnRequest\<close> for every request of a
  terminated connection and \<open>OnFlow\<close> when the exchange is over.
\<close>

section \<open>Operations\<close>

text \<open>The two actions of the engine that the code names.\<close>

datatype action = Passthrough | Terminate

record app =
  ap_reg :: registry
  ap_rules :: rule_engine
  ap_hub :: "hub option"
  ap_dataDir :: string
  ap_kit :: "SSLKitStore option"
  ap_pinBypass :: bool

definition PinBypass :: "app \<Rightarrow> bool" where
  "PinBypass a = ap_pinBypass a"

definition pin_path :: "string \<Rightarrow> string" where
  "pin_path dir = Join [dir, ''pin-bypass'']"

definition SetPinBypass :: "os \<Rightarrow> app \<Rightarrow> bool \<Rightarrow> os \<times> app" where
  "SetPinBypass s a v =
     (let a = a\<lparr>ap_pinBypass := v\<rparr>; dir = ap_dataDir a
      in if dir \<noteq> [] then
           let b = (if v then ''1'' @ [CHR 0x0A] else ''0'' @ [CHR 0x0A])
           in (fst (WriteFile s (pin_path dir) b), a)
         else (s, a))"

definition loadPinBypass :: "os \<Rightarrow> string \<Rightarrow> bool" where
  "loadPinBypass s dir =
     (case ReadFile s (pin_path dir) of None \<Rightarrow> False | Some b \<Rightarrow> TrimSpace b = ''1'')"

definition OnConnect :: "app \<Rightarrow> string \<Rightarrow> string \<Rightarrow> app \<times> action" where
  "OnConnect a host dst =
     (let a = a\<lparr>ap_reg := Observe (ap_reg a) host\<rparr>; st = State (ap_reg a) host
      in (a, if st = StateIntercepted \<or> st = StateMocked then Terminate else Passthrough))"

definition is_rewrite :: "unicode \<Rightarrow> rule \<Rightarrow> bool" where
  "is_rewrite u r \<longleftrightarrow> EqualFold u (ru_Action r) ''rewrite''"

text \<open>The request is passed by reference: its new value is part of the result.\<close>

definition OnRequest :: "json_lib \<Rightarrow> unicode \<Rightarrow> script_host \<Rightarrow> app \<Rightarrow> string \<Rightarrow> request \<Rightarrow> request \<times> response option" where
  "OnRequest L u E a host req =
     (let st = State (ap_reg a) host; m = matchRule u (ap_rules a) host req
      in case m of
           Some r \<Rightarrow>
             (if is_rewrite u r then
                (if st = StateIntercepted \<or> st = StateMocked then applyRewrite L E req r else req, None)
              else if st \<noteq> StateMocked then (req, None)
              else (req, Match u E (ap_rules a) host req))
         | None \<Rightarrow>
             (if st \<noteq> StateMocked then (req, None) else (req, Match u E (ap_rules a) host req)))"

definition OnFlow :: "nat map_order \<Rightarrow> app \<Rightarrow> flow \<Rightarrow> app" where
  "OnFlow ord a f = a\<lparr>ap_reg := AddFlow (ap_reg a) f, ap_hub := Publish ord (ap_hub a) f\<rparr>"

section \<open>Invariant\<close>

definition app_ok :: "app \<Rightarrow> bool" where
  "app_ok a \<longleftrightarrow> registry_ok (ap_reg a) \<and> engine_ok (ap_rules a)
     \<and> (case ap_hub a of None \<Rightarrow> True | Some h \<Rightarrow> hub_ok h)
     \<and> (case ap_kit a of None \<Rightarrow> True | Some k \<Rightarrow> mok (kt_hosts k))"

lemma app_okI [intro]:
  assumes "registry_ok (ap_reg a)" "engine_ok (ap_rules a)" "\<And>h. ap_hub a = Some h \<Longrightarrow> hub_ok h"
    "\<And>k. ap_kit a = Some k \<Longrightarrow> mok (kt_hosts k)"
  shows "app_ok a"
  using assms by (auto simp: app_ok_def split: option.splits)

lemma app_okD:
  assumes "app_ok a"
  shows "registry_ok (ap_reg a)" "engine_ok (ap_rules a)" "ap_hub a = Some h \<Longrightarrow> hub_ok h"
    "ap_kit a = Some k \<Longrightarrow> mok (kt_hosts k)"
  using assms by (auto simp: app_ok_def)

lemma app_ok_OnConnect: "app_ok a \<Longrightarrow> app_ok (fst (OnConnect a host dst))"
  by (rule app_okI) (auto simp: OnConnect_def Let_def ok_Observe dest: app_okD)

lemma app_ok_OnFlow: "app_ok a \<Longrightarrow> app_ok (OnFlow ord a f)"
  by (rule app_okI) (auto simp: OnFlow_def ok_AddFlow Publish_def hub_ok_sends dest: app_okD split: option.splits)

lemma app_ok_SetPinBypass: "app_ok a \<Longrightarrow> app_ok (snd (SetPinBypass s a v))"
  by (auto simp: SetPinBypass_def Let_def app_ok_def)

lemma State_after_Observe: "State (Observe r h) k = State r k"
  by (auto simp: State_def Observe_def Let_def split: option.splits)

lemma OnConnect_action:
  "snd (OnConnect a host dst) = Terminate \<longleftrightarrow>
     State (ap_reg a) host = StateIntercepted \<or> State (ap_reg a) host = StateMocked"
  by (simp add: OnConnect_def Let_def State_after_Observe)

section \<open>Properties\<close>

text \<open>
  What happens to a request, in every case: the first rule that applies decides. A rewrite rule changes
  the request of an intercepted or mocked host and is never answered by the proxy; another rule is answered
  by its rendered response when the host is mocked, and only then; without a rule the request goes through
  as it is.
\<close>

theorem OnRequest_decision:
  "OnRequest L u E a host req =
     (case matchRule u (ap_rules a) host req of
        None \<Rightarrow> (req, None)
      | Some r \<Rightarrow>
          if EqualFold u (ru_Action r) ''rewrite'' then
            (if State (ap_reg a) host \<in> {StateIntercepted, StateMocked} then applyRewrite L E req r else req, None)
          else if State (ap_reg a) host = StateMocked then (req, Some (renderRule E r (Some req)))
          else (req, None))"
  by (simp add: OnRequest_def Let_def Match_def is_rewrite_def split: option.splits)

text \<open>
  C28: the two decisions agree: a host whose connections are passed through undecrypted (every state other
  than INTERCEPTED and MOCKED, such as one that was never set) has its requests neither changed nor
  answered, whatever the rules; and a request is answered only when its connection is terminated.
\<close>

theorem passthrough_never_touched:
  assumes "snd (OnConnect a host dst) = Passthrough"
  shows "OnRequest L u E (fst (OnConnect a host dst)) host req = (req, None)"
proof -
  have s: "State (ap_reg (fst (OnConnect a host dst))) host = State (ap_reg a) host"
    by (simp add: OnConnect_def Let_def State_after_Observe)
  have "State (ap_reg a) host \<noteq> StateIntercepted" "State (ap_reg a) host \<noteq> StateMocked"
    using assms OnConnect_action [of a host dst] by auto
  then show ?thesis by (simp add: OnRequest_decision s split: option.splits)
qed

definition ex_app :: app where
  "ex_app = \<lparr>ap_reg = NewRegistry, ap_rules = ex_engine, ap_hub = None, ap_dataDir = ''/data'', ap_kit = None,
     ap_pinBypass = False\<rparr>"

theorem passthrough_never_touched_witness:
  "snd (OnConnect ex_app ''a'' ''1.2.3.4:443'') = Passthrough
   \<and> OnRequest ex_lib ex_unicode ex_host (fst (OnConnect ex_app ''a'' ''1.2.3.4:443'')) ''a'' ex_post = (ex_post, None)"
proof -
  have "snd (OnConnect ex_app ''a'' ''1.2.3.4:443'') = Passthrough"
    by (simp add: OnConnect_def ex_app_def Observe_def State_def NewRegistry_def)
  with passthrough_never_touched [OF this] show ?thesis by blast
qed

text \<open>
  Connecting counts: every connection adds one to the host's counter (an empty host is not counted), a
  host seen for the first time is OBSERVED, and no connection changes the state of a known host.
\<close>

theorem OnConnect_observes:
  "mget (states (ap_reg (fst (OnConnect a host dst)))) h =
     (if h = host \<and> host \<noteq> [] then Some (State (ap_reg a) host) else mget (states (ap_reg a)) h)
   \<and> Hits (ap_reg (fst (OnConnect a host dst))) h =
     Hits (ap_reg a) h + (if h = host \<and> host \<noteq> [] then 1 else 0)"
  by (auto simp: OnConnect_def Let_def reg_simps State_def split: option.splits)

text \<open>
  The pin-bypass flag survives a restart when the data directory works, whatever it was before.
\<close>

theorem pin_bypass_roundtrip:
  assumes "ap_dataDir a \<noteq> []" "os_wfault s (pin_path (ap_dataDir a)) = None" "\<not> os_unreadable s (pin_path (ap_dataDir a))"
    and "SetPinBypass s a v = (s', a')"
  shows "PinBypass a' = v \<and> loadPinBypass s' (ap_dataDir a) = v"
proof -
  have "s' = fst (WriteFile s (pin_path (ap_dataDir a)) (if v then ''1'' @ [CHR 0x0A] else ''0'' @ [CHR 0x0A]))"
    "PinBypass a' = v"
    using assms(1,4) by (auto simp: SetPinBypass_def Let_def PinBypass_def)
  moreover have "TrimSpace (''1'' @ [CHR 0x0A]) = ''1''" "TrimSpace (''0'' @ [CHR 0x0A]) = ''0''"
    by (simp_all add: TrimSpace_ascii is_space_def)
  ultimately show ?thesis
    using assms(2,3) by (cases v) (simp_all add: loadPinBypass_def WriteFile_ok ReadFile_def)
qed

theorem pin_bypass_roundtrip_witness:
  "loadPinBypass (fst (SetPinBypass ex_os ex_app True)) ''/data''"
proof -
  obtain s' a' where "SetPinBypass ex_os ex_app True = (s', a')" by fastforce
  from pin_bypass_roundtrip [OF _ _ _ this] this show ?thesis by (simp add: ex_app_def ex_os_def)
qed

end
