(* ===== verification/Mcp.thy ===== *)
theory Mcp
  imports Config Flow_View Go_Reply
begin

text \<open>
  The MCP endpoint (second half of mcp.go): JSON-RPC 2.0 requests, the list of tools and the four tools,
  which act on the same registry and rules as the admin API.
\<close>

section \<open>Data\<close>

text \<open>
  A \<open>json.RawMessage\<close> is decoded again later; it is kept as the value of its text, \<open>None\<close> when the member
  is absent (a nil message).
\<close>

record rpcReq =
  rq_JSONRPC :: string
  rq_ID :: json
  rq_Method :: string
  rq_Params :: "json option"

definition zero_rpcReq :: rpcReq where
  "zero_rpcReq = \<lparr>rq_JSONRPC = [], rq_ID = JNull, rq_Method = [], rq_Params = None\<rparr>"

record rpcErr =
  re_Code :: int
  re_Message :: string

record rpcResp =
  rs_ID :: json
  rs_Result :: "json option"
  rs_Error :: "rpcErr option"

record toolCall =
  tc_Name :: string
  tc_Arguments :: "json option"

definition zero_toolCall :: toolCall where
  "zero_toolCall = \<lparr>tc_Name = [], tc_Arguments = None\<rparr>"

definition set_rpcReq_field :: "json_lib \<Rightarrow> string \<Rightarrow> json \<Rightarrow> rpcReq \<Rightarrow> rpcReq \<times> bool" where
  "set_rpcReq_field L f v q =
     (if f = ''jsonrpc'' then (case dec_string v (rq_JSONRPC q) of (x, ok) \<Rightarrow> (q\<lparr>rq_JSONRPC := x\<rparr>, ok))
      else if f = ''id'' then (case dec_any L v (rq_ID q) of (x, ok) \<Rightarrow> (q\<lparr>rq_ID := x\<rparr>, ok))
      else if f = ''method'' then (case dec_string v (rq_Method q) of (x, ok) \<Rightarrow> (q\<lparr>rq_Method := x\<rparr>, ok))
      else if f = ''params'' then (q\<lparr>rq_Params := Some v\<rparr>, True)
      else (q, True))"

definition dec_rpcReq :: "json_lib \<Rightarrow> unicode \<Rightarrow> json \<Rightarrow> rpcReq \<times> bool" where
  "dec_rpcReq L u v = dec_struct u [''jsonrpc'', ''id'', ''method'', ''params''] (set_rpcReq_field L) v zero_rpcReq"

definition set_toolCall_field :: "string \<Rightarrow> json \<Rightarrow> toolCall \<Rightarrow> toolCall \<times> bool" where
  "set_toolCall_field f v t =
     (if f = ''name'' then (case dec_string v (tc_Name t) of (x, ok) \<Rightarrow> (t\<lparr>tc_Name := x\<rparr>, ok))
      else if f = ''arguments'' then (t\<lparr>tc_Arguments := Some v\<rparr>, True)
      else (t, True))"

definition dec_toolCall :: "unicode \<Rightarrow> json \<Rightarrow> toolCall \<times> bool" where
  "dec_toolCall u v = dec_struct u [''name'', ''arguments''] set_toolCall_field v zero_toolCall"

definition rpc_json :: "rpcResp \<Rightarrow> json" where
  "rpc_json r =
     JObj ([(''jsonrpc'', JStr ''2.0''), (''id'', sort_keys (rs_ID r))] @
       (case rs_Result r of None \<Rightarrow> [] | Some v \<Rightarrow> [(''result'', v)]) @
       (case rs_Error r of None \<Rightarrow> []
        | Some e \<Rightarrow> [(''error'', JObj [(''code'', JNum (dec_int (re_Code e))), (''message'', JStr (re_Message e))])]))"

definition domain_json :: "DomainInfo \<Rightarrow> json" where
  "domain_json d =
     JObj [(''host'', JStr (di_Host d)), (''state'', JStr (di_State d)), (''hits'', JNum (dec_int (sint (di_Hits d))))]"

section \<open>Tools\<close>

definition str_type :: json where "str_type = map_json [(''type'', JStr ''string'')]"

definition tool_json :: "string \<Rightarrow> string \<Rightarrow> (string \<times> json) list \<Rightarrow> json" where
  "tool_json name descr schema =
     map_json [(''name'', JStr name), (''description'', JStr descr),
       (''inputSchema'', map_json ((''type'', JStr ''object'') # schema))]"

definition mcpTools :: "json list" where
  "mcpTools =
    [tool_json ''list_domains'' ''List observed domains and states'' [(''properties'', map_json [])],
     tool_json ''set_state'' ''Set domain state OBSERVED|INTERCEPTED|MOCKED''
       [(''properties'', map_json [(''host'', str_type), (''state'', str_type)]),
        (''required'', JArr [JStr ''host'', JStr ''state''])],
     tool_json ''add_rule'' ''Add mock rule (host+path+method -> body)''
       [(''properties'', map_json [(''host'', str_type), (''path'', str_type), (''method'', str_type),
           (''status'', map_json [(''type'', JStr ''integer'')]), (''body'', str_type), (''content_type'', str_type)]),
        (''required'', JArr [JStr ''host''])],
     tool_json ''get_flows'' ''Recent flows for a host including capped bodies''
       [(''properties'', map_json [(''host'', str_type)]), (''required'', JArr [JStr ''host''])]]"

text \<open>The state that the tools share with the admin API.\<close>

record tool_state =
  ts_os :: os
  ts_reg :: registry
  ts_rules :: rule_engine

definition arg_map :: "json_lib \<Rightarrow> json option \<Rightarrow> (string, json) gomap" where
  "arg_map L args =
     (case args of
        None \<Rightarrow> []
      | Some v \<Rightarrow> (case dec_any_map L v of (None, _) \<Rightarrow> [] | (Some m, _) \<Rightarrow> m))"

definition arg_str :: "(string, json) gomap \<Rightarrow> string \<Rightarrow> string" where
  "arg_str m k = (case mget m k of Some (JStr s) \<Rightarrow> s | _ \<Rightarrow> [])"

definition tool_rule :: "json_lib \<Rightarrow> (string, json) gomap \<Rightarrow> rule" where
  "tool_rule L m =
     (let r = zero_rule\<lparr>ru_Host := arg_str m ''host'', ru_Path := arg_str m ''path'', ru_Method := arg_str m ''method'',
                ru_Body := arg_str m ''body'', ru_Type := arg_str m ''content_type''\<rparr>
      in case mget m ''status'' of Some (JNum n) \<Rightarrow> r\<lparr>ru_Status := js_int L n\<rparr> | _ \<Rightarrow> r)"

definition save_tools :: "string map_order \<Rightarrow> string \<Rightarrow> tool_state \<Rightarrow> tool_state" where
  "save_tools ord dataDir s = s\<lparr>ts_os := fst (savePersist ord (ts_os s) dataDir (ts_reg s) (ts_rules s))\<rparr>"

text \<open>\<open>callTool\<close>: the new state, and the text of the result or of the error.\<close>

definition callTool :: "json_lib \<Rightarrow> unicode \<Rightarrow> string map_order \<Rightarrow> entropy \<Rightarrow> string \<Rightarrow> tool_state \<Rightarrow> string
    \<Rightarrow> json option \<Rightarrow> tool_state \<times> (string + string)" where
  "callTool L u ord rnd dataDir s name args =
     (let m = arg_map L args; str = arg_str m
      in if name = ''list_domains'' then
           (s, Inr (marshal_indent (JArr (map domain_json (Domains ord (ts_reg s))))))
         else if name = ''set_state'' then
           (let st = ToUpper u (str ''state'');
                s = s\<lparr>ts_reg := SetState (ts_reg s) (str ''host'') st\<rparr>
            in (save_tools ord dataDir s,
                Inr (marshal (map_json [(''host'', JStr (str ''host'')), (''state'', JStr st)]))))
         else if name = ''add_rule'' then
           (let r = tool_rule L m;
                s = s\<lparr>ts_rules := fst (Add rnd (ts_rules s) r)\<rparr>
            in (save_tools ord dataDir s, Inr (marshal (rule_json r))))
         else if name = ''get_flows'' then
           (s, case flow_views_json (flowViews (Flows (ts_reg s) (str ''host''))) of
                 None \<Rightarrow> Inl (js_err L ''time.Time'' [])
               | Some v \<Rightarrow> Inr (marshal_indent v))
         else (s, Inl ''invalid argument''))"

section \<open>The endpoint\<close>

definition rpc_error :: "int \<Rightarrow> string \<Rightarrow> rpcResp \<Rightarrow> rpcResp" where
  "rpc_error code msg r = r\<lparr>rs_Error := Some \<lparr>re_Code = code, re_Message = msg\<rparr>\<rparr>"

text \<open>Decoding the parameters of a call: those of a nil message are an empty text.\<close>

definition tool_call :: "json_lib \<Rightarrow> unicode \<Rightarrow> json option \<Rightarrow> string + toolCall" where
  "tool_call L u params =
     (case params of
        None \<Rightarrow> Inl (js_err L ''toolCall'' [])
      | Some v \<Rightarrow>
          (case dec_toolCall u v of (tc, ok) \<Rightarrow> if ok then Inr tc else Inl (js_err L ''toolCall'' (marshal v))))"

definition handle_method :: "json_lib \<Rightarrow> unicode \<Rightarrow> string map_order \<Rightarrow> entropy \<Rightarrow> string \<Rightarrow> tool_state \<Rightarrow> rpcReq
    \<Rightarrow> tool_state \<times> rpcResp" where
  "handle_method L u ord rnd dataDir s req =
     (let res = \<lparr>rs_ID = rq_ID req, rs_Result = None, rs_Error = None\<rparr>
      in if rq_Method req = ''initialize'' then
           (s, res\<lparr>rs_Result := Some (map_json
                 [(''protocolVersion'', JStr ''2024-11-05''),
                  (''capabilities'', map_json [(''tools'', map_json [])]),
                  (''serverInfo'', map_json [(''name'', JStr ''skytap''), (''version'', JStr ''0.1.0'')])])\<rparr>)
         else if rq_Method req = ''notifications/initialized'' \<or> rq_Method req = ''ping'' then
           (s, res\<lparr>rs_Result := Some (map_json [])\<rparr>)
         else if rq_Method req = ''tools/list'' then
           (s, res\<lparr>rs_Result := Some (map_json [(''tools'', JArr mcpTools)])\<rparr>)
         else if rq_Method req = ''tools/call'' then
           (case tool_call L u (rq_Params req) of
              Inl err \<Rightarrow> (s, rpc_error (- 32602) err res)
            | Inr tc \<Rightarrow>
                (case callTool L u ord rnd dataDir s (tc_Name tc) (tc_Arguments tc) of
                   (s, Inl err) \<Rightarrow> (s, rpc_error (- 32000) err res)
                 | (s, Inr text) \<Rightarrow>
                     (s, res\<lparr>rs_Result := Some (map_json
                        [(''content'', JArr [map_json [(''type'', JStr ''text''), (''text'', JStr text)]])])\<rparr>)))
         else (s, rpc_error (- 32601) ''method not found'' res))"

definition handleRPC :: "json_lib \<Rightarrow> unicode \<Rightarrow> string map_order \<Rightarrow> entropy \<Rightarrow> string \<Rightarrow> tool_state \<Rightarrow> string
    \<Rightarrow> tool_state \<times> string" where
  "handleRPC L u ord rnd dataDir s raw =
     (case Unmarshal L ''rpcReq'' (dec_rpcReq L u) zero_rpcReq raw of
        (req, Some err) \<Rightarrow> (s, marshal (rpc_json (rpc_error (- 32700) err \<lparr>rs_ID = JNull, rs_Result = None, rs_Error = None\<rparr>)))
      | (req, None) \<Rightarrow>
          (case handle_method L u ord rnd dataDir s req of (s, res) \<Rightarrow> (s, marshal (rpc_json res))))"

text \<open>The handler; reading the body can fail.\<close>

definition mcpHandler :: "json_lib \<Rightarrow> unicode \<Rightarrow> string map_order \<Rightarrow> entropy \<Rightarrow> string \<Rightarrow> tool_state \<Rightarrow> string + string
    \<Rightarrow> tool_state \<times> reply" where
  "mcpHandler L u ord rnd dataDir s body =
     (case body of
        Inl err \<Rightarrow> (s, http_Error err 400 new_reply)
      | Inr raw \<Rightarrow>
          (case handleRPC L u ord rnd dataDir s raw of
             (s, out) \<Rightarrow> (s, reply_write out (reply_set ''Content-Type'' ''application/json'' new_reply))))"

section \<open>Replies\<close>

lemma good_map_json:
  "1 \<le> n \<Longrightarrow> list_all (\<lambda>(k, v). utf8_valid k \<and> good (n - 1) v) ms \<Longrightarrow> good n (map_json ms)"
  by (auto simp: good_obj obj_of_def list_all_iff)

text \<open>Well-formed up to the invalid bytes of texts, which the encoder replaces.\<close>

definition flat :: "nat \<Rightarrow> json \<Rightarrow> bool" where
  "flat n v \<longleftrightarrow> nums_ok v \<and> depth v \<le> n"

lemma flat_obj: "flat n (JObj ms) \<longleftrightarrow> 1 \<le> n \<and> (\<forall>(k, v) \<in> set ms. flat (n - 1) v)"
  unfolding flat_def depth_obj_le by (cases n) (auto simp: list_all_iff simp del: depth.simps)

lemma flat_map_json: "flat n (map_json ms) \<longleftrightarrow> 1 \<le> n \<and> (\<forall>(k, v) \<in> set ms. flat (n - 1) v)"
  by (auto simp: obj_of_def flat_obj)

lemma flat_arr: "flat n (JArr xs) \<longleftrightarrow> 1 \<le> n \<and> (\<forall>v \<in> set xs. flat (n - 1) v)"
  unfolding flat_def depth_arr_le by (cases n) (auto simp: list_all_iff simp del: depth.simps)

lemma flat_leaf [simp]: "flat n (JStr s)" "flat n JNull" "flat n (JBool b)" "flat n (JNum (dec_int i))"
  by (simp_all add: flat_def num_ok_dec_int)

lemma good_flat: "good n v \<Longrightarrow> flat n v"
  by (simp add: good_def flat_def)

lemma flat_mono: "flat m v \<Longrightarrow> m \<le> n \<Longrightarrow> flat n v"
  by (simp add: flat_def)

lemma parse_flat: "flat max_depth v \<Longrightarrow> parse_all (marshal v) = Some (clean v)"
  using parse_pr [of v "[]" False 0] by (simp add: parse_all_def marshal_def skip_ws_def flat_def)

lemma flat_mcpTools: "v \<in> set mcpTools \<Longrightarrow> flat 9 v"
  by (auto simp: mcpTools_def tool_json_def str_type_def flat_map_json flat_arr)

lemma dec_members_inv:
  assumes "P z" "\<And>k v f z. (k, v) \<in> set ms \<Longrightarrow> P z \<Longrightarrow> P (fst (st f v z))"
  shows "P (fst (dec_members u fs st ms z))"
proof -
  have "P (fst (fold (dec_member u fs st) ms (z, ok)))" for ok
    using assms
  proof (induction ms arbitrary: z ok)
    case (Cons kv ms)
    obtain k v where kv: "kv = (k, v)" by (cases kv)
    obtain z' ok' where s: "dec_member u fs st kv (z, ok) = (z', ok')" by fastforce
    have "P (fst (st f v z))" for f using Cons.prems(1) Cons.prems(2) [of k v z f] by (simp add: kv)
    then have "P z'"
      using s Cons.prems(1) by (auto simp: kv dec_member_def case_prod_unfold split: option.splits)
    have "P (fst (fold (dec_member u fs st) ms (z', ok')))"
      using Cons.prems(2) by (intro Cons.IH \<open>P z'\<close>) auto
    then show ?case by (simp add: s)
  qed simp
  then show ?thesis by (simp add: dec_members_def)
qed

lemma good_dec_any: "js_num_ok L \<Longrightarrow> texts_ok v \<Longrightarrow> depth v \<le> n \<Longrightarrow> good n old \<Longrightarrow> good n (fst (dec_any L v old))"
  using good_any_of [of L v n]
  by (auto simp: dec_any_def js_num_ok_def good_def split: json.splits option.splits)

lemma request_id_good:
  assumes "js_num_ok L" "Unmarshal L ty (dec_rpcReq L u) zero_rpcReq raw = (req, None)"
  shows "good (max_depth - 1) (rq_ID req)"
proof -
  obtain v where v: "parse_all raw = Some v" "dec_rpcReq L u v = (req, True)"
    using assms(2) by (auto simp: Unmarshal_def split: option.splits prod.splits if_splits)
  have z: "good (max_depth - 1) (rq_ID zero_rpcReq)" by (simp add: zero_rpcReq_def good_def)
  show ?thesis
  proof (cases v)
    case (JObj ms)
    have "texts_ok w \<and> depth w \<le> max_depth - 1" if "(k, w) \<in> set ms" for k w
      using parse_all_valid [OF v(1)] that unfolding JObj depth_obj_le
      by (fastforce simp: list_all_iff simp del: depth.simps)
    then have "good (max_depth - 1) (rq_ID (fst (dec_members u [''jsonrpc'', ''id'', ''method'', ''params''] (set_rpcReq_field L) ms zero_rpcReq)))"
      by (intro dec_members_inv [where P = "\<lambda>q. good (max_depth - 1) (rq_ID q)"] z)
        (auto simp: set_rpcReq_field_def case_prod_unfold good_dec_any [OF assms(1)])
    then show ?thesis using v(2) by (simp add: dec_rpcReq_def dec_struct_def JObj)
  qed (use v(2) z in \<open>auto simp: dec_rpcReq_def dec_struct_def\<close>)
qed

text \<open>A response as the code builds it: exactly one of result and error.\<close>

definition resp_ok :: "rpcResp \<Rightarrow> bool" where
  "resp_ok r \<longleftrightarrow> (rs_Result r = None) \<noteq> (rs_Error r = None)
     \<and> good (max_depth - 1) (rs_ID r) \<and> (\<forall>v. rs_Result r = Some v \<longrightarrow> flat 20 v)"

lemma handle_method_resp:
  assumes "good (max_depth - 1) (rq_ID req)" "handle_method L u ord rnd dataDir s req = (s', r)"
  shows "resp_ok r" "rs_ID r = rq_ID req"
  using assms
  by (auto simp: handle_method_def Let_def resp_ok_def rpc_error_def flat_map_json flat_arr flat_mono [OF flat_mcpTools]
      split: if_splits sum.splits prod.splits)

lemma map_of_clean_ascii:
  "list_all (\<lambda>(k, v). is_ascii k) ms \<Longrightarrow> map_of (clean_members ms) k = map_option clean (map_of ms k)"
  by (induction ms) (auto simp: sanitize_ascii)

lemma read_rpc_json:
  assumes "resp_ok r"
  shows "\<exists>ms. parse_all (marshal (rpc_json r)) = Some (JObj ms)
    \<and> map_of ms ''jsonrpc'' = Some (JStr ''2.0'') \<and> map_of ms ''id'' = Some (sort_keys (rs_ID r))
    \<and> (map_of ms ''result'' = None) = (rs_Result r = None) \<and> (map_of ms ''error'' = None) = (rs_Error r = None)"
proof -
  have 1: "good (max_depth - 1) (sort_keys (rs_ID r))" using assms by (simp add: resp_ok_def good_sort_keys)
  have "flat max_depth (rpc_json r)"
    using assms good_flat [OF 1] unfolding rpc_json_def flat_obj
    by (auto simp: resp_ok_def flat_obj max_depth_def intro: flat_mono split: option.splits)
  note p = parse_flat [OF this]
  obtain ms where ms: "rpc_json r = JObj ms" by (simp add: rpc_json_def)
  note p = p [unfolded ms clean_members_simps(4)]
  have "list_all (\<lambda>(k, v). is_ascii k) ms" using ms by (auto simp: rpc_json_def split: option.splits)
  from map_of_clean_ascii [OF this] show ?thesis
    using p [folded ms] ms good_clean [OF 1] by (auto simp: rpc_json_def sanitize_ascii map_add_def split: option.splits)
qed

section \<open>Calls of the tools\<close>

text \<open>The text of a call as a client writes it.\<close>

definition call_json :: "json \<Rightarrow> string \<Rightarrow> (string \<times> json) list \<Rightarrow> json" where
  "call_json i tool args =
     JObj [(''jsonrpc'', JStr ''2.0''), (''id'', i), (''method'', JStr ''tools/call''),
       (''params'', JObj [(''name'', JStr tool), (''arguments'', JObj args)])]"

lemma dec_call:
  assumes "dec_any L i JNull = (i', True)"
  shows "dec_rpcReq L u (call_json i tool args)
     = (\<lparr>rq_JSONRPC = ''2.0'', rq_ID = i', rq_Method = ''tools/call'',
          rq_Params = Some (JObj [(''name'', JStr tool), (''arguments'', JObj args)])\<rparr>, True)"
  using assms
  by (simp add: dec_rpcReq_def dec_struct_def call_json_def dec_members_def dec_member_def field_name_def
      set_rpcReq_field_def dec_string_def zero_rpcReq_def)

lemma tool_call_args:
  "tool_call L u (Some (JObj [(''name'', JStr tool), (''arguments'', JObj args)]))
     = Inr \<lparr>tc_Name = tool, tc_Arguments = Some (JObj args)\<rparr>"
  by (simp add: tool_call_def dec_toolCall_def dec_struct_def dec_members_def dec_member_def field_name_def
      set_toolCall_field_def dec_string_def zero_toolCall_def)

lemma handleRPC_call:
  assumes "nums_ok i" "texts_ok i" "depth i \<le> 9" "dec_any L i JNull = (i', True)"
    and "utf8_valid tool" "list_all (\<lambda>(k, v). utf8_valid k \<and> good 7 v) args"
  shows "handleRPC L u ord rnd dataDir s (marshal (call_json i tool args)) =
     (case callTool L u ord rnd dataDir s tool (Some (JObj args)) of
        (s', Inl err) \<Rightarrow> (s', marshal (rpc_json (rpc_error (- 32000) err \<lparr>rs_ID = i', rs_Result = None, rs_Error = None\<rparr>)))
      | (s', Inr text) \<Rightarrow> (s', marshal (rpc_json \<lparr>rs_ID = i', rs_Result = Some (map_json
           [(''content'', JArr [map_json [(''type'', JStr ''text''), (''text'', JStr text)]])]), rs_Error = None\<rparr>)))"
proof -
  have "good 10 (call_json i tool args)"
    using assms by (auto simp: call_json_def good_obj utf8_valid_ascii list_all_iff) (auto simp: good_def utf8_valid_ascii)
  then have "parse_all (marshal (call_json i tool args)) = Some (call_json i tool args)"
    by (intro parse_all_marshal) (auto simp: good_def max_depth_def)
  then show ?thesis
    by (simp add: handleRPC_def Unmarshal_def dec_call [OF assms(4)] handle_method_def Let_def tool_call_args
        split: sum.splits prod.splits)
qed

section \<open>Properties\<close>

text \<open>
  C32: whatever bytes a client posts, the answer is the text of a JSON-RPC 2.0 response: an object with
  version 2.0, the identifier of the request (null when the request could not be decoded), and exactly one
  of a result and an error.
\<close>

theorem rpc_always_answers:
  assumes "js_num_ok L" "handleRPC L u ord rnd dataDir s raw = (s', out)"
  shows "\<exists>ms. parse_all out = Some (JObj ms) \<and> map_of ms ''jsonrpc'' = Some (JStr ''2.0'')
    \<and> map_of ms ''id'' = Some (case Unmarshal L ''rpcReq'' (dec_rpcReq L u) zero_rpcReq raw of
          (req, None) \<Rightarrow> sort_keys (rq_ID req) | _ \<Rightarrow> JNull)
    \<and> (map_of ms ''result'' = None) \<noteq> (map_of ms ''error'' = None)"
proof (cases "Unmarshal L ''rpcReq'' (dec_rpcReq L u) zero_rpcReq raw")
  case (Pair req e)
  show ?thesis
  proof (cases e)
    case None
    obtain r where r: "handle_method L u ord rnd dataDir s req = (s', r)" and out: "out = marshal (rpc_json r)"
      using assms(2) Pair None by (auto simp: handleRPC_def split: prod.splits)
    have "resp_ok r" "rs_ID r = rq_ID req"
      using handle_method_resp [OF request_id_good [OF assms(1) Pair [unfolded None]] r] by simp_all
    then show ?thesis using read_rpc_json [of r] by (auto simp: out Pair None resp_ok_def)
  next
    case (Some err)
    define r where "r = rpc_error (- 32700) err \<lparr>rs_ID = JNull, rs_Result = None, rs_Error = None\<rparr>"
    have "resp_ok r" by (simp add: r_def resp_ok_def rpc_error_def good_def)
    moreover have "out = marshal (rpc_json r)" using assms(2) Pair Some by (simp add: handleRPC_def r_def)
    ultimately show ?thesis using read_rpc_json [of r] by (auto simp: Pair Some resp_ok_def r_def rpc_error_def)
  qed
qed

definition ex_tools :: tool_state where
  "ex_tools = \<lparr>ts_os = ex_os, ts_reg = NewRegistry, ts_rules = ex_engine\<rparr>"

theorem rpc_always_answers_witness:
  "\<exists>ms. parse_all (snd (handleRPC ex_lib ex_unicode id (\<lambda>i. replicate 8 0) ''/data'' ex_tools ''nonsense'')) = Some (JObj ms)
     \<and> map_of ms ''jsonrpc'' = Some (JStr ''2.0'')"
proof -
  obtain s' out where h: "handleRPC ex_lib ex_unicode id (\<lambda>i. replicate 8 0) ''/data'' ex_tools ''nonsense'' = (s', out)"
    by fastforce
  from rpc_always_answers [OF js_num_ok_ex_lib h] show ?thesis by (auto simp: h)
qed

text \<open>
  A request changes something only when it is a well-formed call of \<open>set_state\<close> or \<open>add_rule\<close>; the first
  then does to the registry what \<open>SetState\<close> does, the second to the rules what \<open>Add\<close> does, and the state
  that was reached is saved.
\<close>

theorem rpc_effects:
  "fst (handleRPC L u ord rnd dataDir s raw) =
     (case Unmarshal L ''rpcReq'' (dec_rpcReq L u) zero_rpcReq raw of
        (req, None) \<Rightarrow>
          if rq_Method req = ''tools/call'' then
            (case tool_call L u (rq_Params req) of
               Inl _ \<Rightarrow> s
             | Inr tc \<Rightarrow>
                 let m = arg_map L (tc_Arguments tc) in
                 if tc_Name tc = ''set_state'' then
                   save_tools ord dataDir
                     (s\<lparr>ts_reg := SetState (ts_reg s) (arg_str m ''host'') (ToUpper u (arg_str m ''state''))\<rparr>)
                 else if tc_Name tc = ''add_rule'' then
                   save_tools ord dataDir (s\<lparr>ts_rules := fst (Add rnd (ts_rules s) (tool_rule L m))\<rparr>)
                 else s)
          else s
      | _ \<Rightarrow> s)"
  by (auto simp: handleRPC_def handle_method_def callTool_def Let_def split: prod.splits option.splits sum.splits)

text \<open>
  A \<open>set_state\<close> call written by a client reaches the registry: the host gets the upper-cased state. Any
  text is accepted as a state, also one that is none of the three states, unlike on the admin API.
\<close>

theorem mcp_set_state:
  assumes "utf8_valid host" "utf8_valid st"
    and "handleRPC L u ord rnd dataDir s
        (marshal (call_json JNull ''set_state'' [(''host'', JStr host), (''state'', JStr st)])) = (s', out)"
  shows "State (ts_reg s') host = ToUpper u st \<and> ts_rules s' = ts_rules s
    \<and> (\<forall>h. h \<noteq> host \<longrightarrow> State (ts_reg s') h = State (ts_reg s) h)"
  using assms(3) handleRPC_call [of JNull L JNull "''set_state''" "[(''host'', JStr host), (''state'', JStr st)]" u ord rnd dataDir s]
    assms(1,2)
  by (auto simp: dec_any_def utf8_valid_ascii good_def callTool_def Let_def arg_map_def dec_any_map_def arg_str_def
      mget_Cons save_tools_def State_SetState)

theorem mcp_set_state_witness:
  "State (ts_reg (fst (handleRPC ex_lib ex_unicode id (\<lambda>i. replicate 8 0) ''/data'' ex_tools
      (marshal (call_json JNull ''set_state'' [(''host'', JStr ''a''), (''state'', JStr ''bogus'')]))))) ''a'' = ''BOGUS''"
proof -
  define raw where "raw = marshal (call_json JNull ''set_state'' [(''host'', JStr ''a''), (''state'', JStr ''bogus'')])"
  obtain s' out where h: "handleRPC ex_lib ex_unicode id (\<lambda>i. replicate 8 0) ''/data'' ex_tools raw = (s', out)"
    by fastforce
  have "State (ts_reg s') ''a'' = ToUpper ex_unicode ''bogus''"
    using mcp_set_state [OF _ _ h [unfolded raw_def]] by (simp add: utf8_valid_ascii)
  then show ?thesis by (simp add: h [unfolded raw_def] ToUpper_ascii char_upper_def ascii_upper_def Let_def char_of_def bit_Suc_0_iff)
qed

text \<open>
  \<open>add_rule\<close> stores the rule at the end, with an identifier and as a mock rule; the text it answers is
  that of the rule before it was stored, which has no identifier, so it does not tell how to delete the rule.
\<close>

theorem mcp_add_rule:
  assumes "callTool L u ord rnd dataDir s ''add_rule'' args = (s', res)"
  shows "\<exists>r r'. rules (ts_rules s') = rules (ts_rules s) @ [r'] \<and> r' = r\<lparr>ru_ID := newRuleID (rnd 0), ru_Action := ''mock''\<rparr>
    \<and> ru_Host r = arg_str (arg_map L args) ''host'' \<and> ru_Body r = arg_str (arg_map L args) ''body''
    \<and> res = Inr (marshal (rule_json r)) \<and> (\<exists>ms. rule_json r = JObj ms \<and> map_of ms ''id'' = None)
    \<and> ts_reg s' = ts_reg s"
proof -
  define r where "r = tool_rule L (arg_map L args)"
  have r: "ru_ID r = []" "ru_Action r = []" "ru_Host r = arg_str (arg_map L args) ''host''"
    "ru_Body r = arg_str (arg_map L args) ''body''"
    by (auto simp: r_def tool_rule_def zero_rule_def Let_def split: option.splits json.splits)
  have "map_of ms ''id'' = None" if "rule_json r = JObj ms" for ms
    using that r(1) by (auto simp: rule_json_def opt_str_def map_of_eq_None_iff split: if_splits)
  then have "\<exists>ms. rule_json r = JObj ms \<and> map_of ms ''id'' = None" by (auto simp: rule_json_def)
  moreover have "rules (ts_rules s') = rules (ts_rules s) @ [r\<lparr>ru_ID := newRuleID (rnd 0), ru_Action := ''mock''\<rparr>]"
    "res = Inr (marshal (rule_json r))" "ts_reg s' = ts_reg s"
    using assms r(1,2) by (auto simp: callTool_def Let_def r_def save_tools_def Add_def with_defaults_def)
  ultimately show ?thesis using r(3,4) by blast
qed

theorem mcp_add_rule_witness:
  "length (rules (ts_rules (fst (callTool ex_lib ex_unicode id (\<lambda>i. replicate 8 0) ''/data'' ex_tools ''add_rule'' None))))
     = Suc (length (rules ex_engine))"
proof -
  obtain s' res where "callTool ex_lib ex_unicode id (\<lambda>i. replicate 8 0) ''/data'' ex_tools ''add_rule'' None = (s', res)"
    by fastforce
  from mcp_add_rule [OF this] this show ?thesis by (auto simp: ex_tools_def)
qed

end
