(* ===== verification/Ca_Trust.thy ===== *)
theory Ca_Trust
  imports Go_Codec Go_Reply Config
begin

text \<open>
  Installing the CA certificate into the trust store of the machine (ca_trust.go): which store the Linux
  distribution uses, the status shown to the user, the installation and its repetition at the next start,
  for which a marker file in the data directory is kept.

  Running the distribution's refresh command is an input (\<open>os_run\<close>): its output and its error. What the
  command does to the machine's bundles is not modelled.
\<close>

section \<open>Operations\<close>

definition trustMarkerPath :: "string \<Rightarrow> string" where
  "trustMarkerPath dataDir = Join [dataDir, ''ca-trusted'']"

record caFamily =
  cf_ID :: string
  cf_CertPath :: string
  cf_Refresh :: "string list"
  cf_Hint :: string

text \<open>\<open>strings.Trim\<close> with ASCII characters to cut.\<close>

definition Trim :: "string \<Rightarrow> string \<Rightarrow> string" where
  "Trim s cs = rev (dropWhile (\<lambda>c. c \<in> set cs) (rev (dropWhile (\<lambda>c. c \<in> set cs) s)))"

definition os_release_line :: "unicode \<Rightarrow> string \<Rightarrow> string \<times> string \<Rightarrow> string \<times> string" where
  "os_release_line u line il =
     (case (Cut CHR ''='' line, il) of
        ((k, v, ok), (i, like)) \<Rightarrow>
          if \<not> ok then (i, like)
          else
            let v = Trim v [CHR 0x22, CHR 0x27]
            in if k = ''ID'' then (ToLower u v, like)
               else if k = ''ID_LIKE'' then (i, ToLower u v)
               else (i, like))"

definition osRelease :: "unicode \<Rightarrow> os \<Rightarrow> string \<times> string" where
  "osRelease u s =
     (case ReadFile s ''/etc/os-release'' of
        None \<Rightarrow> ([], [])
      | Some b \<Rightarrow> fold (os_release_line u) (split_on (CHR 0x0A) b) ([], []))"

definition dirOK :: "os \<Rightarrow> string \<Rightarrow> bool" where
  "dirOK s p \<longleftrightarrow> Stat s p = IsDir"

definition deb :: caFamily where
  "deb = \<lparr>cf_ID = ''debian'', cf_CertPath = ''/usr/local/share/ca-certificates/skytap.crt'',
     cf_Refresh = [''update-ca-certificates''],
     cf_Hint = ''Debian/Ubuntu/Alpine: copy PEM to /usr/local/share/ca-certificates/skytap.crt then run update-ca-certificates''\<rparr>"

definition rhel :: caFamily where
  "rhel = \<lparr>cf_ID = ''rhel'', cf_CertPath = ''/etc/pki/ca-trust/source/anchors/skytap.crt'',
     cf_Refresh = [''update-ca-trust'', ''extract''],
     cf_Hint = ''Alma/Rocky/RHEL/Fedora: copy PEM to /etc/pki/ca-trust/source/anchors/skytap.crt then run update-ca-trust extract''\<rparr>"

definition arch :: caFamily where
  "arch = \<lparr>cf_ID = ''arch'', cf_CertPath = ''/etc/ca-certificates/trust-source/anchors/skytap.crt'',
     cf_Refresh = [''update-ca-trust''],
     cf_Hint = ''Arch/BlackArch: copy PEM to /etc/ca-certificates/trust-source/anchors/skytap.crt then run update-ca-trust''\<rparr>"

definition rhel_anchors :: string where "rhel_anchors = ''/etc/pki/ca-trust/source/anchors''"

definition arch_anchors :: string where "arch_anchors = ''/etc/ca-certificates/trust-source/anchors''"

definition detectCAFamily :: "unicode \<Rightarrow> os \<Rightarrow> caFamily" where
  "detectCAFamily u s =
     (case osRelease u s of
        (i, like) \<Rightarrow>
          let has = os_path s; blob = i @ '' '' @ like
          in if list_ex (Contains blob) [''arch'', ''blackarch'', ''manjaro'', ''artix''] then arch
             else if list_ex (Contains blob) [''rhel'', ''fedora'', ''centos'', ''almalinux'', ''rocky'', ''ol''] then rhel
             else if list_ex (Contains blob) [''debian'', ''ubuntu'', ''alpine''] then deb
             else if has ''update-ca-trust'' \<and> dirOK s rhel_anchors then rhel
             else if has ''update-ca-trust'' \<and> dirOK s arch_anchors then arch
             else deb)"

definition caInstalledAt :: "os \<Rightarrow> string \<Rightarrow> bool" where
  "caInstalledAt s path =
     (case ReadFile s path of None \<Rightarrow> False | Some b \<Rightarrow> Contains b ''BEGIN CERTIFICATE'' \<and> length b > 50)"

definition ca_note :: string where
  "ca_note = ''Clients that you INTERCEPT or MOCK must trust this CA. OBSERVED needs none. Trust is per machine / container / VM ''
     @ [CHR 0xE2, CHR 0x80, CHR 0x94] @ '' not inherited from the host.''"

definition want_trust :: "os \<Rightarrow> string \<Rightarrow> bool" where
  "want_trust s dataDir \<longleftrightarrow>
     TrimSpace (case ReadFile s (trustMarkerPath dataDir) of None \<Rightarrow> [] | Some b \<Rightarrow> b) = ''1''"

definition caStatus :: "unicode \<Rightarrow> os \<Rightarrow> string \<Rightarrow> string \<Rightarrow> (string, json) gomap" where
  "caStatus u s pem dataDir =
     (let fp = (if pem \<noteq> [] then hex_encode (sha256 (bytes_of pem)) else []);
          fam = detectCAFamily u s
      in [(''os'', JStr (os_goos s)), (''distro'', JStr (fst (osRelease u s))), (''family'', JStr (cf_ID fam)),
          (''fingerprint'', JStr fp),
          (''installed'', JBool (os_goos s = ''linux'' \<and> caInstalledAt s (cf_CertPath fam))),
          (''want_trust'', JBool (want_trust s dataDir)), (''trust_path'', JStr (cf_CertPath fam)),
          (''note'', JStr ca_note), (''install_hint'', JStr (cf_Hint fam)),
          (''can_install'', JBool (os_goos s = ''linux'' \<and> os_uid s = 0))])"

definition installCATrust :: "unicode \<Rightarrow> os \<Rightarrow> string \<Rightarrow> string \<Rightarrow> os \<times> string option" where
  "installCATrust u s pem dataDir =
     (if os_goos s \<noteq> ''linux'' then (s, Some ''CA auto-install is Linux-only'')
      else
        let fam = detectCAFamily u s
        in case MkdirAll s (Dir (cf_CertPath fam)) of
             (s, Some e) \<Rightarrow> (s, Some e)
           | (s, None) \<Rightarrow>
               (case WriteFile s (cf_CertPath fam) pem of
                  (s, Some e) \<Rightarrow> (s, Some e)
                | (s, None) \<Rightarrow>
                    (case MkdirAll s dataDir of
                       (s, Some e) \<Rightarrow> (s, Some e)
                     | (s, None) \<Rightarrow>
                         let s = fst (WriteFile s (trustMarkerPath dataDir) (''1'' @ [CHR 0x0A]))
                         in if cf_Refresh fam = [] then (s, None)
                            else
                              (case os_run s (cf_Refresh fam) of
                                 (out, Some e) \<Rightarrow> (s, Some (join '' '' (cf_Refresh fam) @ '': '' @ e @ '': '' @ out))
                               | (out, None) \<Rightarrow> (s, None)))))"

definition restoreCATrust :: "unicode \<Rightarrow> os \<Rightarrow> string \<Rightarrow> string \<Rightarrow> os" where
  "restoreCATrust u s pem dataDir =
     (case ReadFile s (trustMarkerPath dataDir) of
        None \<Rightarrow> s
      | Some b \<Rightarrow> if TrimSpace b \<noteq> ''1'' then s else fst (installCATrust u s pem dataDir))"

section \<open>Facts\<close>

text \<open>Detection reads the release file, the programs and two directories.\<close>

definition known_family :: "string \<Rightarrow> caFamily option" where
  "known_family blob =
     (if list_ex (Contains blob) [''arch'', ''blackarch'', ''manjaro'', ''artix''] then Some arch
      else if list_ex (Contains blob) [''rhel'', ''fedora'', ''centos'', ''almalinux'', ''rocky'', ''ol''] then Some rhel
      else if list_ex (Contains blob) [''debian'', ''ubuntu'', ''alpine''] then Some deb else None)"

lemma detect_known:
  assumes "osRelease u s = (i, like)"
  shows "detectCAFamily u s =
     (case known_family (i @ '' '' @ like) of
        Some fam \<Rightarrow> fam
      | None \<Rightarrow> if os_path s ''update-ca-trust'' \<and> dirOK s rhel_anchors then rhel
               else if os_path s ''update-ca-trust'' \<and> dirOK s arch_anchors then arch else deb)"
proof -
  have "(if A then a else if B then b else if C then c else d) =
      (case if A then Some a else if B then Some b else if C then Some c else None of Some f \<Rightarrow> f | None \<Rightarrow> d)"
    for A B C and a b c d :: caFamily
    by simp
  then show ?thesis unfolding detectCAFamily_def known_family_def assms prod.case Let_def by (rule trans) (rule refl)
qed

lemma families_differ: "deb \<noteq> rhel" "deb \<noteq> arch" "rhel \<noteq> arch"
  by (simp_all add: deb_def rhel_def arch_def)

lemma family_cases: "detectCAFamily u s \<in> {deb, rhel, arch}"
  unfolding detectCAFamily_def Let_def by (simp only: split: prod.splits if_splits) simp

lemma cert_path_release: "fam \<in> {deb, rhel, arch} \<Longrightarrow> cf_CertPath fam \<noteq> ''/etc/os-release''"
  by (auto simp: deb_def rhel_def arch_def)

lemma dir_of_certs:
  "Dir (cf_CertPath deb) = ''/usr/local/share/ca-certificates''"
  "Dir (cf_CertPath rhel) = rhel_anchors" "Dir (cf_CertPath arch) = arch_anchors"
  by (simp_all add: deb_def rhel_def arch_def rhel_anchors_def arch_anchors_def Dir_def Clean_def path_parts_def
      path_step_def HasPrefix_def)

lemma not_above:
  "rhel_anchors \<notin> set (above arch_anchors)" "arch_anchors \<notin> set (above rhel_anchors)"
  "rhel_anchors \<notin> set (above ''/usr/local/share/ca-certificates'')"
  "arch_anchors \<notin> set (above ''/usr/local/share/ca-certificates'')"
  by code_simp+

lemma detect_stable:
  assumes "ReadFile s' ''/etc/os-release'' = ReadFile s ''/etc/os-release''" "os_path s' = os_path s"
    and "dirOK s' rhel_anchors \<longleftrightarrow> dirOK s rhel_anchors \<or> detectCAFamily u s = rhel"
    and "dirOK s' arch_anchors \<longleftrightarrow> dirOK s arch_anchors \<or> detectCAFamily u s = arch"
  shows "detectCAFamily u s' = detectCAFamily u s"
proof -
  obtain i like where r: "osRelease u s = (i, like)" by fastforce
  have r': "osRelease u s' = (i, like)" using r by (simp add: osRelease_def assms(1))
  show ?thesis
    using assms(3,4) families_differ
    by (cases "known_family (i @ '' '' @ like)") (auto simp: detect_known [OF r] detect_known [OF r'] assms(2) split: if_splits)
qed

lemma dirOK_iff: "dirOK s d \<longleftrightarrow> d \<in> set (os_dirs s)"
  by (simp add: dirOK_def Stat_def)

lemma MkdirAll_dirs: "snd (MkdirAll s d) = None \<Longrightarrow> os_dirs (fst (MkdirAll s d)) = above d @ os_dirs s"
  by (simp add: MkdirAll_def split: if_splits)

lemma self_above: "d \<in> set (above d)"
  by (simp add: above_def)

text \<open>What a successful installation leaves behind, and what it needs.\<close>

lemma install_ok:
  assumes "installCATrust u s pem dataDir = (s', None)"
  shows "os_goos s = ''linux''" "os_goos s' = os_goos s" "os_path s' = os_path s" "os_unreadable s' = os_unreadable s"
    "os_dirs s' = above dataDir @ above (Dir (cf_CertPath (detectCAFamily u s))) @ os_dirs s"
    "\<And>p. p \<noteq> trustMarkerPath dataDir \<Longrightarrow> p \<noteq> cf_CertPath (detectCAFamily u s) \<Longrightarrow> ReadFile s' p = ReadFile s p"
    "trustMarkerPath dataDir \<noteq> cf_CertPath (detectCAFamily u s) \<Longrightarrow> \<not> os_unreadable s (cf_CertPath (detectCAFamily u s)) \<Longrightarrow>
       ReadFile s' (cf_CertPath (detectCAFamily u s)) = Some pem"
    "os_wfault s (trustMarkerPath dataDir) = None \<Longrightarrow> \<not> os_unreadable s (trustMarkerPath dataDir) \<Longrightarrow>
       ReadFile s' (trustMarkerPath dataDir) = Some (''1'' @ [CHR 0x0A])"
proof -
  define fam where "fam = detectCAFamily u s"
  define s1 where "s1 = fst (MkdirAll s (Dir (cf_CertPath fam)))"
  define s2 where "s2 = fst (WriteFile s1 (cf_CertPath fam) pem)"
  define s3 where "s3 = fst (MkdirAll s2 dataDir)"
  have g: "os_goos s = ''linux''" and m: "snd (MkdirAll s (Dir (cf_CertPath fam))) = None"
    and w: "snd (WriteFile s1 (cf_CertPath fam) pem) = None" and m': "snd (MkdirAll s2 dataDir) = None"
    and s': "s' = fst (WriteFile s3 (trustMarkerPath dataDir) (''1'' @ [CHR 0x0A]))"
    using assms
    by (auto simp: installCATrust_def Let_def fam_def s1_def s2_def s3_def split: prod.splits if_splits option.splits)
  show "os_goos s = ''linux''" by (rule g)
  show "os_goos s' = os_goos s" "os_path s' = os_path s" "os_unreadable s' = os_unreadable s"
    by (simp_all add: s' s3_def s2_def s1_def)
  show "os_dirs s' = above dataDir @ above (Dir (cf_CertPath (detectCAFamily u s))) @ os_dirs s"
    using MkdirAll_dirs [OF m] MkdirAll_dirs [OF m'] by (simp add: s' s3_def s2_def s1_def fam_def)
  show "ReadFile s' p = ReadFile s p"
    if "p \<noteq> trustMarkerPath dataDir" "p \<noteq> cf_CertPath (detectCAFamily u s)" for p
    using that by (simp add: s' s3_def s2_def s1_def ReadFile_WriteFile_other fam_def)
  show "ReadFile s' (cf_CertPath (detectCAFamily u s)) = Some pem"
    if "trustMarkerPath dataDir \<noteq> cf_CertPath (detectCAFamily u s)" "\<not> os_unreadable s (cf_CertPath (detectCAFamily u s))"
    using that ReadFile_WriteFile [OF w] by (simp add: s' s3_def s2_def s1_def ReadFile_WriteFile_other fam_def)
  show "ReadFile s' (trustMarkerPath dataDir) = Some (''1'' @ [CHR 0x0A])"
    if "os_wfault s (trustMarkerPath dataDir) = None" "\<not> os_unreadable s (trustMarkerPath dataDir)"
    unfolding s' using that by (intro ReadFile_WriteFile) (simp_all add: WriteFile_ok s3_def s2_def s1_def)
qed

lemma detect_after_install:
  assumes "installCATrust u s pem dataDir = (s', None)" "set (above dataDir) \<inter> {rhel_anchors, arch_anchors} = {}"
    and "trustMarkerPath dataDir \<noteq> ''/etc/os-release''"
  shows "detectCAFamily u s' = detectCAFamily u s"
proof (rule detect_stable)
  note i = install_ok [OF assms(1)]
  show "ReadFile s' ''/etc/os-release'' = ReadFile s ''/etc/os-release''"
    using cert_path_release [OF family_cases] assms(3) by (intro i(6)) (metis, metis)
  show "os_path s' = os_path s" by (rule i(3))
  have d: "x \<in> set (os_dirs s') \<longleftrightarrow> x \<in> set (above (Dir (cf_CertPath (detectCAFamily u s)))) \<or> x \<in> set (os_dirs s)"
    if "x \<in> {rhel_anchors, arch_anchors}" for x
    using that assms(2) by (auto simp: i(5))
  consider "detectCAFamily u s = deb" | "detectCAFamily u s = rhel" | "detectCAFamily u s = arch"
    using family_cases [of u s] by blast
  then show "dirOK s' rhel_anchors \<longleftrightarrow> dirOK s rhel_anchors \<or> detectCAFamily u s = rhel"
    "dirOK s' arch_anchors \<longleftrightarrow> dirOK s arch_anchors \<or> detectCAFamily u s = arch"
    by (cases; simp add: dirOK_iff d dir_of_certs not_above self_above families_differ families_differ [symmetric])+
qed

section \<open>Properties\<close>

text \<open>
  C36: a successful installation is reported: afterwards the status says that the CA is installed and that
  trust is wanted, for the store of the detected distribution (the data directory may not lie in the trust
  stores, and the marker can be written).
\<close>

theorem install_is_reported:
  assumes "installCATrust u s pem dataDir = (s', None)"
    and "Contains pem ''BEGIN CERTIFICATE''" "50 < length pem"
    and "set (above dataDir) \<inter> {rhel_anchors, arch_anchors} = {}"
    and "trustMarkerPath dataDir \<noteq> ''/etc/os-release''" "trustMarkerPath dataDir \<noteq> cf_CertPath (detectCAFamily u s)"
    and "\<not> os_unreadable s (cf_CertPath (detectCAFamily u s))" "\<not> os_unreadable s (trustMarkerPath dataDir)"
    and "os_wfault s (trustMarkerPath dataDir) = None"
  shows "mget (caStatus u s' pem dataDir) ''installed'' = Some (JBool True)
    \<and> mget (caStatus u s' pem dataDir) ''want_trust'' = Some (JBool True)
    \<and> mget (caStatus u s' pem dataDir) ''trust_path'' = Some (JStr (cf_CertPath (detectCAFamily u s)))"
proof -
  note i = install_ok [OF assms(1)]
  have "caInstalledAt s' (cf_CertPath (detectCAFamily u s))"
    using i(7) [OF assms(6,7)] assms(2,3) by (simp add: caInstalledAt_def)
  moreover have "want_trust s' dataDir"
    using i(8) [OF assms(9,8)] by (simp add: want_trust_def TrimSpace_ascii is_space_def)
  ultimately show ?thesis
    using i(1,2) by (simp add: caStatus_def Let_def mget_Cons detect_after_install [OF assms(1,4,5)])
qed

definition ex_pem :: string where
  "ex_pem = ''-----BEGIN CERTIFICATE-----'' @ replicate 40 (CHR ''A'')"

definition ex_linux :: os where
  "ex_linux = ex_os\<lparr>os_goos := ''linux'', os_run := (\<lambda>_. ([], None))\<rparr>"

lemma ex_linux_simps:
  "os_goos ex_linux = ''linux''" "os_run ex_linux c = ([], None)" "os_wfault ex_linux p = None"
  "os_dfault ex_linux p = False" "os_unreadable ex_linux p = False" "os_files ex_linux = []" "os_dirs ex_linux = []"
  "os_path ex_linux = os_path ex_os"
  by (simp_all add: ex_linux_def ex_os_def)

lemma ex_linux_deb: "detectCAFamily u ex_linux = deb"
  by (simp add: detectCAFamily_def osRelease_def ReadFile_def dirOK_iff ex_linux_simps HasPrefix_def)

lemma ex_marker: "trustMarkerPath ''/data'' = ''/data/ca-trusted''"
  by (simp add: trustMarkerPath_def Join_def Clean_def path_parts_def path_step_def HasPrefix_def)

lemma ex_install: "snd (installCATrust u ex_linux ex_pem ''/data'') = None"
  by (simp add: installCATrust_def Let_def ex_linux_simps ex_linux_deb MkdirAll_def WriteFile_def)

theorem install_is_reported_witness:
  "mget (caStatus ex_unicode (fst (installCATrust ex_unicode ex_linux ex_pem ''/data'')) ex_pem ''/data'') ''installed''
     = Some (JBool True)"
proof -
  obtain s' where i: "installCATrust ex_unicode ex_linux ex_pem ''/data'' = (s', None)"
    using ex_install [of ex_unicode] by (cases "installCATrust ex_unicode ex_linux ex_pem ''/data''") auto
  have a: "set (above ''/data'') \<inter> {rhel_anchors, arch_anchors} = {}" by code_simp
  have "Contains ex_pem ''BEGIN CERTIFICATE''" "50 < length ex_pem" by (simp_all add: ex_pem_def HasPrefix_def)
  from install_is_reported [OF i this a] show ?thesis
    by (simp add: ex_linux_simps ex_linux_deb ex_marker i) (simp add: deb_def)
qed

text \<open>
  Once trust is wanted, every start installs the certificate again, on a machine (a fresh container,
  say) that has lost it; without the marker a start changes nothing.
\<close>

theorem trust_is_restored:
  assumes "ReadFile s (trustMarkerPath dataDir) = b"
    and "os_goos s = ''linux''" "\<not> os_dfault s (Dir (cf_CertPath (detectCAFamily u s)))" "\<not> os_dfault s dataDir"
    and "os_wfault s (cf_CertPath (detectCAFamily u s)) = None" "\<not> os_unreadable s (cf_CertPath (detectCAFamily u s))"
    and "trustMarkerPath dataDir \<noteq> cf_CertPath (detectCAFamily u s)"
  shows "if b = Some (''1'' @ [CHR 0x0A])
    then ReadFile (restoreCATrust u s pem dataDir) (cf_CertPath (detectCAFamily u s)) = Some pem
    else b = None \<longrightarrow> restoreCATrust u s pem dataDir = s"
  using assms
  by (auto simp: restoreCATrust_def TrimSpace_ascii is_space_def installCATrust_def Let_def MkdirAll_def WriteFile_ok
      ReadFile_WriteFile_other split: option.splits prod.splits) (auto simp: ReadFile_def WriteFile_def split: option.splits write_fault.splits)

definition ex_wanted :: os where
  "ex_wanted = ex_linux\<lparr>os_files := [(''/data/ca-trusted'', ''1'' @ [CHR 0x0A])]\<rparr>"

lemma ex_wanted_simps:
  "os_goos ex_wanted = ''linux''" "os_wfault ex_wanted p = None"
  "os_dfault ex_wanted p = False" "os_unreadable ex_wanted p = False" "os_dirs ex_wanted = []"
  "os_files ex_wanted = [(''/data/ca-trusted'', ''1'' @ [CHR 0x0A])]"
  by (simp_all add: ex_wanted_def ex_linux_simps)

theorem trust_is_restored_witness:
  "ReadFile (restoreCATrust ex_unicode ex_wanted ex_pem ''/data'') (cf_CertPath deb) = Some ex_pem"
proof -
  have d: "detectCAFamily ex_unicode ex_wanted = deb"
    by (simp add: detectCAFamily_def osRelease_def ReadFile_def dirOK_iff ex_wanted_simps HasPrefix_def mget_Cons)
  have r: "ReadFile ex_wanted (trustMarkerPath ''/data'') = Some (''1'' @ [CHR 0x0A])"
    by (simp add: ReadFile_def ex_wanted_simps ex_marker mget_Cons)
  have n: "cf_CertPath deb \<noteq> ''/data/ca-trusted''" by (simp add: deb_def)
  from trust_is_restored [OF r, of ex_unicode ex_pem] show ?thesis
    by (simp add: d ex_wanted_simps ex_marker n n [symmetric])
qed

text \<open>
  An installation that cannot write the certificate returns the error and is not remembered: the marker
  is as it was, so that no later start repeats it.
\<close>

theorem failed_install_not_remembered:
  assumes "os_goos s = ''linux''" "os_wfault s (cf_CertPath (detectCAFamily u s)) \<noteq> None"
    and "trustMarkerPath dataDir \<noteq> cf_CertPath (detectCAFamily u s)"
  shows "snd (installCATrust u s pem dataDir) \<noteq> None
    \<and> want_trust (fst (installCATrust u s pem dataDir)) dataDir = want_trust s dataDir"
proof -
  obtain s1 e1 where m: "MkdirAll s (Dir (cf_CertPath (detectCAFamily u s))) = (s1, e1)" by fastforce
  obtain s2 e2 where w: "WriteFile s1 (cf_CertPath (detectCAFamily u s)) pem = (s2, e2)" by fastforce
  have "s1 = fst (MkdirAll s (Dir (cf_CertPath (detectCAFamily u s))))" "s2 = fst (WriteFile s1 (cf_CertPath (detectCAFamily u s)) pem)"
    by (simp_all add: m w)
  then have r: "ReadFile s1 (trustMarkerPath dataDir) = ReadFile s (trustMarkerPath dataDir)"
    "ReadFile s2 (trustMarkerPath dataDir) = ReadFile s (trustMarkerPath dataDir)" "os_wfault s1 = os_wfault s"
    using assms(3) by (simp_all add: ReadFile_WriteFile_other)
  have "e2 \<noteq> None" using w assms(2) r(3) by (auto simp: WriteFile_def split: option.splits write_fault.splits)
  then show ?thesis
    using assms(1) r by (auto simp: installCATrust_def Let_def m w want_trust_def split: option.splits)
qed

theorem failed_install_not_remembered_witness:
  "snd (installCATrust ex_unicode (ex_linux\<lparr>os_wfault := (\<lambda>p. Some OpenFails)\<rparr>) ex_pem ''/data'') \<noteq> None"
proof -
  have d: "detectCAFamily ex_unicode (ex_linux\<lparr>os_wfault := (\<lambda>p. Some OpenFails)\<rparr>) = deb"
    by (simp add: detectCAFamily_def osRelease_def ReadFile_def dirOK_iff ex_linux_simps HasPrefix_def)
  show ?thesis
    using failed_install_not_remembered [of "ex_linux\<lparr>os_wfault := (\<lambda>p. Some OpenFails)\<rparr>" ex_unicode "''/data''" ex_pem]
    by (simp add: d ex_linux_simps ex_marker) (simp add: deb_def)
qed

text \<open>
  The distributions that the hints name are recognised by their identifier, with or without quotes.
\<close>

definition known_distros :: "(string \<times> caFamily) list" where
  "known_distros =
     [(''debian'', deb), (''ubuntu'', deb), (''alpine'', deb), (''almalinux'', rhel), (''rocky'', rhel), (''rhel'', rhel),
      (''fedora'', rhel), (''centos'', rhel), (''ol'', rhel), (''arch'', arch), (''blackarch'', arch), (''manjaro'', arch)]"

lemma known_distros_ok:
  "list_all (\<lambda>(d, fam). d \<noteq> [] \<and> list_all (\<lambda>c. 97 \<le> code_of c \<and> code_of c \<le> 122) d
     \<and> known_family (d @ '' '') = Some fam) known_distros"
  by (simp add: known_distros_def known_family_def HasPrefix_def)

lemma char_lower_small: "97 \<le> code_of c \<Longrightarrow> char_lower c = c"
  by (simp add: char_lower_def ascii_lower_def)

lemma Trim_quoted:
  assumes "q \<in> {[], [CHR 0x22]}" "d \<noteq> []" "list_all (\<lambda>c. 97 \<le> code_of c \<and> code_of c \<le> 122) d"
  shows "Trim (q @ d @ q) [CHR 0x22, CHR 0x27] = d"
proof -
  have n: "c \<notin> set [CHR 0x22, CHR 0x27]" if "c \<in> set d" for c
    using that assms(3) by (auto simp: list_all_iff)
  obtain a d1 where a: "d = a # d1" using assms(2) by (cases d) auto
  obtain b d2 where b: "rev d = b # d2" using assms(2) by (cases "rev d") auto
  have "a \<notin> set [CHR 0x22, CHR 0x27]" "b \<notin> set [CHR 0x22, CHR 0x27]"
    using n [of a] n [of b] a b by (simp, metis list.set_intros(1) set_rev)
  then have k: "dropWhile (\<lambda>c. c \<in> set [CHR 0x22, CHR 0x27]) (d @ q) = d @ q"
    and k': "dropWhile (\<lambda>c. c \<in> set [CHR 0x22, CHR 0x27]) (rev d) = rev d"
    by (simp only: a append_Cons dropWhile.simps if_False, simp only: b dropWhile.simps if_False)
  then have "dropWhile (\<lambda>c. c \<in> set [CHR 0x22, CHR 0x27]) (q @ d @ q) = d @ q"
    "dropWhile (\<lambda>c. c \<in> set [CHR 0x22, CHR 0x27]) (rev (d @ q)) = rev d"
    using assms(1) k k' by auto
  then show ?thesis by (simp only: Trim_def rev_rev_ident)
qed

lemma osRelease_id:
  assumes "ReadFile s ''/etc/os-release'' = Some (''NAME=x'' @ [CHR 0x0A] @ ''ID='' @ q @ d @ q @ [CHR 0x0A])"
    and "q \<in> {[], [CHR 0x22]}" "d \<noteq> [] \<and> list_all (\<lambda>c. 97 \<le> code_of c \<and> code_of c \<le> 122) d"
  shows "osRelease u s = (d, [])"
proof -
  have n: "CHR 0x0A \<notin> set (''ID='' @ q @ d @ q)"
    using assms(2,3) by (auto simp: list_all_iff)
  have "split_on (CHR 0x0A) (''NAME=x'' @ [CHR 0x0A] @ ''ID='' @ q @ d @ q @ [CHR 0x0A])
      = split_on (CHR 0x0A) ((''NAME=x'' @ CHR 0x0A # (''ID='' @ q @ d @ q)) @ CHR 0x0A # [])" by simp
  also have "\<dots> = [''NAME=x'', ''ID='' @ q @ d @ q, []]"
    unfolding split_on_snoc [OF n] by (subst split_on_snoc) (simp_all only: split_on_snoc [OF n], simp_all)
  finally have l: "split_on (CHR 0x0A) (''NAME=x'' @ [CHR 0x0A] @ ''ID='' @ q @ d @ q @ [CHR 0x0A])
      = [''NAME=x'', ''ID='' @ q @ d @ q, []]" .
  have "is_ascii d" "map char_lower d = d"
    using assms(3) by (auto simp: is_ascii_def list_all_iff char_lower_small intro!: map_idI)
  then have "ToLower u d = d" by (simp add: ToLower_ascii)
  then have "os_release_line u (''ID='' @ q @ d @ q) ([], []) = (d, [])"
    using Trim_quoted [OF assms(2)] assms(3) by (simp add: os_release_line_def Cut_def)
  then show ?thesis
    by (simp add: osRelease_def assms(1) l [simplified]) (simp add: os_release_line_def Cut_def)
qed

theorem known_distros_recognised:
  assumes "(d, fam) \<in> set known_distros" "q \<in> {[], [CHR 0x22]}"
    and "ReadFile s ''/etc/os-release'' = Some (''NAME=x'' @ [CHR 0x0A] @ ''ID='' @ q @ d @ q @ [CHR 0x0A])"
  shows "detectCAFamily u s = fam"
proof -
  have d: "d \<noteq> [] \<and> list_all (\<lambda>c. 97 \<le> code_of c \<and> code_of c \<le> 122) d" "known_family (d @ '' '') = Some fam"
    using assms(1) known_distros_ok by (auto simp: list_all_iff)
  show ?thesis
    using detect_known [OF osRelease_id [OF assms(3,2) d(1)]] d(2) by simp
qed

text \<open>
  The identifier of Oracle Linux is looked for anywhere in the identifiers: a Debian derivative whose
  name contains \<open>ol\<close>, such as SolydXK, gets the path and the command of Red Hat.
\<close>

theorem debian_derivative_taken_for_rhel:
  assumes "ReadFile s ''/etc/os-release'' = Some (''ID=solydxk'' @ [CHR 0x0A] @ ''ID_LIKE=debian'')"
  shows "detectCAFamily u s = rhel"
proof -
  have "osRelease u s = (''solydxk'', ''debian'')"
    by (simp add: osRelease_def assms os_release_line_def Cut_def Trim_def Let_def
        ToLower_ascii char_lower_def ascii_lower_def char_of_def bit_Suc_0_iff)
  then show ?thesis by (simp add: detectCAFamily_def Let_def HasPrefix_def)
qed

theorem known_distros_recognised_witness:
  "detectCAFamily ex_unicode (ex_linux\<lparr>os_files :=
     [(''/etc/os-release'', ''NAME=x'' @ [CHR 0x0A] @ ''ID='' @ [CHR 0x22] @ ''rocky'' @ [CHR 0x22] @ [CHR 0x0A])]\<rparr>) = rhel"
  by (rule known_distros_recognised [of "''rocky''" _ "[CHR 0x22]"])
    (simp_all add: known_distros_def ReadFile_def ex_linux_simps mget_Cons)

theorem debian_derivative_taken_for_rhel_witness:
  "detectCAFamily ex_unicode (ex_linux\<lparr>os_files :=
     [(''/etc/os-release'', ''ID=solydxk'' @ [CHR 0x0A] @ ''ID_LIKE=debian'')]\<rparr>) = rhel"
  by (rule debian_derivative_taken_for_rhel) (simp add: ReadFile_def ex_linux_simps mget_Cons)

end
