(* ===== verification/Go_Net.thy ===== *)
theory Go_Net
  imports Go_Http Go_Codec Go_Json_Facts
begin

text \<open>
  IP addresses of package net: \<open>ParseIP\<close> (through \<open>netip.ParseAddr\<close>), \<open>IP.String\<close> and \<open>IP.IsLoopback\<close>.
  An address is its four or sixteen bytes.
\<close>

section \<open>Parsing\<close>

text \<open>A field of the dotted form: decimal digits without a leading zero, at most 255.\<close>

definition octet :: "string \<Rightarrow> nat option" where
  "octet f =
     (if f \<noteq> [] \<and> list_all is_digit f \<and> (f = ''0'' \<or> hd f \<noteq> CHR ''0'') \<and> digits_val f \<le> 255
      then Some (digits_val f) else None)"

definition parseIPv4Fields :: "string \<Rightarrow> byte list option" where
  "parseIPv4Fields s =
     (case map octet (split_on CHR ''.'' s) of
        [Some a, Some b, Some c, Some d] \<Rightarrow> Some [of_nat a, of_nat b, of_nat c, of_nat d]
      | _ \<Rightarrow> None)"

definition hex_digit :: "char \<Rightarrow> bool" where
  "hex_digit c \<longleftrightarrow> hex_val c \<noteq> None"

definition hex_num :: "string \<Rightarrow> nat" where
  "hex_num ds = foldl (\<lambda>n c. 16 * n + (case hex_val c of None \<Rightarrow> 0 | Some x \<Rightarrow> x)) 0 ds"

text \<open>
  The loop of \<open>parseIPv6\<close>: \<open>ip\<close> are the bytes saved so far, \<open>ell\<close> their number where the ellipsis stood.
  The result has the bytes, the ellipsis and the rest of the text.
\<close>

function ipv6_loop :: "byte list \<Rightarrow> nat option \<Rightarrow> string \<Rightarrow> (byte list \<times> nat option \<times> string) option" where
  "ipv6_loop ip ell s =
     (if 16 \<le> length ip then Some (ip, ell, s)
      else
        let ds = takeWhile hex_digit s; rest = drop (length ds) s
        in if ds = [] \<or> 4 < length ds then None
           else if rest \<noteq> [] \<and> hd rest = CHR ''.'' then
             (if (ell = None \<and> length ip \<noteq> 12) \<or> 16 < length ip + 4 then None
              else map_option (\<lambda>v. (ip @ v, ell, [])) (parseIPv4Fields s))
           else
             let ip = ip @ be_bytes 2 (hex_num ds)
             in case rest of
                  [] \<Rightarrow> Some (ip, ell, [])
                | [c] \<Rightarrow> None
                | c # d # t \<Rightarrow>
                    if c \<noteq> CHR '':'' then None
                    else if d = CHR '':'' then
                      (if ell \<noteq> None then None
                       else if t = [] then Some (ip, Some (length ip), [])
                       else ipv6_loop ip (Some (length ip)) t)
                    else ipv6_loop ip ell (d # t))"
  by pat_completeness auto
termination
proof (relation "measure (\<lambda>(ip, ell, s). length s)", goal_cases)
  case (2 ip ell s ds rest ip' c l d t)
  then have "length (c # d # t) \<le> length s" by (metis length_drop diff_le_self)
  then show ?case by simp
next
  case (3 ip ell s ds rest ip' c l d t)
  then have "length (c # d # t) \<le> length s" by (metis length_drop diff_le_self)
  then show ?case by simp
qed simp

declare ipv6_loop.simps [simp del]

definition parseIPv6 :: "string \<Rightarrow> byte list option" where
  "parseIPv6 s =
     (let lead = HasPrefix s ''::''; t = (if lead then drop 2 s else s)
      in if lead \<and> t = [] then Some (replicate 16 0)
         else
           case ipv6_loop [] (if lead then Some 0 else None) t of
             None \<Rightarrow> None
           | Some (ip, ell, rest) \<Rightarrow>
               if rest \<noteq> [] then None
               else if length ip < 16 then
                 map_option (\<lambda>e. take e ip @ replicate (16 - length ip) 0 @ drop e ip) ell
               else if ell \<noteq> None then None
               else Some ip)"

text \<open>\<open>ParseIP\<close>: the 16-byte form; a zone, which only \<open>netip\<close> knows, makes the text invalid.\<close>

definition v4_mapped :: "byte list \<Rightarrow> byte list" where
  "v4_mapped v = replicate 10 0 @ [0xff, 0xff] @ v"

definition addr_mark :: "char \<Rightarrow> bool" where
  "addr_mark c \<longleftrightarrow> c = CHR ''.'' \<or> c = CHR '':'' \<or> c = CHR ''%''"

definition ParseIP :: "string \<Rightarrow> byte list option" where
  "ParseIP s =
     (case dropWhile (\<lambda>c. \<not> addr_mark c) s of
        [] \<Rightarrow> None
      | c # _ \<Rightarrow>
          if c = CHR ''.'' then map_option v4_mapped (parseIPv4Fields s)
          else if c = CHR '':'' then (if CHR ''%'' \<in> set s then None else parseIPv6 s)
          else None)"

definition To4 :: "byte list \<Rightarrow> byte list option" where
  "To4 ip =
     (if length ip = 4 then Some ip
      else if length ip = 16 \<and> take 12 ip = replicate 10 0 @ [0xff, 0xff] then Some (drop 12 ip)
      else None)"

definition IsLoopback :: "byte list \<Rightarrow> bool" where
  "IsLoopback ip = (case To4 ip of Some v \<Rightarrow> v ! 0 = 127 | None \<Rightarrow> ip = replicate 15 0 @ [1])"

section \<open>Printing\<close>

definition v4_string :: "byte list \<Rightarrow> string" where
  "v4_string ip = join ''.'' (map (\<lambda>b. dec_nat (unat b)) ip)"

text \<open>Hexadecimal without leading zeros.\<close>

definition hex_short :: "nat \<Rightarrow> string" where
  "hex_short n =
     (let ds = map hex_char [n div 4096 mod 16, n div 256 mod 16, n div 16 mod 16, n mod 16]
      in if n < 16 then drop 3 ds else if n < 256 then drop 2 ds else if n < 4096 then drop 1 ds else ds)"

fun groups :: "byte list \<Rightarrow> nat list" where
  "groups (a # b # r) = (256 * unat a + unat b) # groups r"
| "groups _ = []"

text \<open>The first of the longest runs of at least two zero groups, as its start and length.\<close>

definition zero_run :: "nat list \<Rightarrow> nat \<Rightarrow> nat" where
  "zero_run gs i = length (takeWhile (\<lambda>g. g = 0) (drop i gs))"

definition longest_zeros :: "nat list \<Rightarrow> nat \<times> nat" where
  "longest_zeros gs =
     fold (\<lambda>i (st, l). if 2 \<le> zero_run gs i \<and> l < zero_run gs i then (i, zero_run gs i) else (st, l))
       [0..<length gs] (0, 0)"

definition v6_string :: "byte list \<Rightarrow> string" where
  "v6_string ip =
     (let gs = groups ip; (st, l) = longest_zeros gs; hex = (\<lambda>xs. join '':'' (map hex_short xs))
      in if l = 0 then hex gs else hex (take st gs) @ ''::'' @ hex (drop (st + l) gs))"

definition IP_String :: "byte list \<Rightarrow> string" where
  "IP_String ip =
     (case To4 ip of Some v \<Rightarrow> v4_string v | None \<Rightarrow> v6_string ip)"

section \<open>Facts\<close>

lemma octet_dec_nat: "n \<le> 255 \<Longrightarrow> octet (dec_nat n) = Some n"
proof -
  assume n: "n \<le> 255"
  have "dec_nat n = ''0'' \<or> hd (dec_nat n) \<noteq> CHR ''0''"
  proof (cases "n = 0")
    case True
    then show ?thesis by (simp add: dec_nat.simps digit_char_def char_of_def)
  next
    case False
    then show ?thesis using dec_nat_hd [of n] by auto
  qed
  moreover have "list_all is_digit (dec_nat n)" "dec_nat n \<noteq> []"
    using dec_nat_digits [of n] dec_nat_nonempty [of n] by (auto simp: list_all_iff)
  ultimately show ?thesis using n by (simp add: octet_def)
qed

lemma dec_nat_chars: "c \<in> set (dec_nat n) \<Longrightarrow> \<not> addr_mark c"
  using dec_nat_digits [of n] by (auto simp: is_digit_def addr_mark_def)

lemma v4_string_parts:
  "ip \<noteq> [] \<Longrightarrow> split_on CHR ''.'' (v4_string ip) = map (\<lambda>b. dec_nat (unat b)) ip"
  unfolding v4_string_def using dec_nat_chars by (intro split_on_join) (auto simp: addr_mark_def)

lemma parse_v4_string:
  assumes "length ip = 4"
  shows "parseIPv4Fields (v4_string ip) = Some ip"
proof -
  obtain a b c d where ip: "ip = [a, b, c, d]"
    using assms by (auto simp: length_Suc_conv eval_nat_numeral)
  have "octet (dec_nat (unat w)) = Some (unat w)" for w :: byte
    using unat_byte_less [of w] by (intro octet_dec_nat) simp
  then show ?thesis using v4_string_parts [of ip] by (simp add: parseIPv4Fields_def ip)
qed

lemma hex_short_ok:
  assumes "n < 65536"
  shows "hex_short n \<noteq> []" "length (hex_short n) \<le> 4" "list_all hex_digit (hex_short n)" "hex_num (hex_short n) = n"
proof -
  have dd: "n div 256 = n div 16 div 16" "n div 4096 = n div 16 div 16 div 16"
    by (simp_all only: div_mult2_eq [symmetric]) simp_all
  have dm: "16 * (m div 16) + m mod 16 = m" for m :: nat by simp
  have q: "n div 4096 mod 16 = n div 4096" using assms by simp
  have val: "hex_num (map hex_char ds) = foldl (\<lambda>x d. 16 * x + d) 0 ds" if "\<forall>d \<in> set ds. d < 16" for ds
  proof -
    have "foldl (\<lambda>n c. 16 * n + (case hex_val c of None \<Rightarrow> 0 | Some x \<Rightarrow> x)) k (map hex_char ds)
        = foldl (\<lambda>x d. 16 * x + d) k ds" for k
      using that by (induction ds arbitrary: k) (auto simp: hex_val_hex_char)
    then show ?thesis by (simp add: hex_num_def)
  qed
  have m: "n < 256 \<Longrightarrow> n div 16 mod 16 = n div 16" "n < 4096 \<Longrightarrow> n div 256 mod 16 = n div 256" by simp_all
  consider "n < 16" | "16 \<le> n" "n < 256" | "256 \<le> n" "n < 4096" | "4096 \<le> n" by linarith
  then obtain ds where ds: "hex_short n = map hex_char (map (\<lambda>x. x mod 16) ds)" "ds \<noteq> []" "length ds \<le> 4"
    "foldl (\<lambda>x d. 16 * x + d) 0 (map (\<lambda>x. x mod 16) ds) = n"
  proof cases
    case 1
    then have "hex_short n = map hex_char (map (\<lambda>x. x mod 16) [n])" by (simp add: hex_short_def)
    then show ?thesis using that [of "[n]"] 1 by simp
  next
    case 2
    then have "hex_short n = map hex_char (map (\<lambda>x. x mod 16) [n div 16, n])" by (simp add: hex_short_def)
    moreover have "foldl (\<lambda>x d. 16 * x + d) 0 (map (\<lambda>x. x mod 16) [n div 16, n]) = n"
      unfolding list.map m(1) [OF 2(2)] by simp
    ultimately show ?thesis using that [of "[n div 16, n]"] by (simp only: list.distinct list.size) simp
  next
    case 3
    then have "hex_short n = map hex_char (map (\<lambda>x. x mod 16) [n div 256, n div 16, n])" by (simp add: hex_short_def)
    moreover have "foldl (\<lambda>x d. 16 * x + d) 0 (map (\<lambda>x. x mod 16) [n div 256, n div 16, n]) = n"
      unfolding list.map m(2) [OF 3(2)] by (simp add: dd dm [of "n div 16"] dm [of n])
    ultimately show ?thesis using that [of "[n div 256, n div 16, n]"] by (simp only: list.distinct list.size) simp
  next
    case 4
    then have "hex_short n = map hex_char (map (\<lambda>x. x mod 16) [n div 4096, n div 256, n div 16, n])"
      by (simp add: hex_short_def)
    moreover have "foldl (\<lambda>x d. 16 * x + d) 0 (map (\<lambda>x. x mod 16) [n div 4096, n div 256, n div 16, n]) = n"
      unfolding list.map q by (simp add: dd dm [of "n div 16 div 16"] dm [of "n div 16"] dm [of n])
    ultimately show ?thesis using that [of "[n div 4096, n div 256, n div 16, n]"] by (simp only: list.distinct list.size) simp
  qed
  have d16: "\<forall>d \<in> set (map (\<lambda>x. x mod 16) ds). d < 16" by simp
  have "list_all hex_digit (map hex_char (map (\<lambda>x. x mod 16) ds))"
    using d16 by (auto simp: list_all_iff hex_digit_def hex_val_hex_char)
  then show "hex_short n \<noteq> []" "length (hex_short n) \<le> 4" "list_all hex_digit (hex_short n)" "hex_num (hex_short n) = n"
    using ds(2-4) val [OF d16] by (simp_all add: ds(1))
qed

lemma hex_digit_chars: "hex_digit c \<Longrightarrow> \<not> addr_mark c"
  by (auto simp: hex_digit_def hex_val_def addr_mark_def Let_def split: if_splits)

lemma hex_short_takeWhile:
  assumes "n < 65536" "rest = [] \<or> \<not> hex_digit (hd rest)"
  shows "takeWhile hex_digit (hex_short n @ rest) = hex_short n"
  using hex_short_ok(3) [OF assms(1)] assms(2)
  by (cases rest) (auto simp: list_all_iff takeWhile_eq_all_conv takeWhile_append2)

definition hexes :: "nat list \<Rightarrow> string" where
  "hexes gs = join '':'' (map hex_short gs)"

abbreviation group_bytes :: "nat list \<Rightarrow> byte list" where
  "group_bytes gs \<equiv> concat (map (be_bytes 2) gs)"

lemma loop_last:
  assumes "length ip < 16" "n < 65536"
  shows "ipv6_loop ip ell (hex_short n) = Some (ip @ be_bytes 2 n, ell, [])"
proof -
  have t: "takeWhile hex_digit (hex_short n) = hex_short n"
    using hex_short_takeWhile [OF assms(2), of "[]"] by (simp only: append_Nil2 simp_thms)
  show ?thesis
    using hex_short_ok [OF assms(2)] assms(1)
    by (subst ipv6_loop.simps) (simp add: Let_def t not_le [symmetric] del: not_le)
qed

lemma loop_step:
  assumes "length ip < 16" "n < 65536" "d \<noteq> CHR '':''"
  shows "ipv6_loop ip ell (hex_short n @ CHR '':'' # d # t) = ipv6_loop (ip @ be_bytes 2 n) ell (d # t)"
proof -
  have "takeWhile hex_digit (hex_short n @ CHR '':'' # d # t) = hex_short n"
    by (rule hex_short_takeWhile [OF assms(2)]) (simp add: hex_digit_def hex_val_def)
  then show ?thesis
    using hex_short_ok [OF assms(2)] assms(1,3)
    by (subst ipv6_loop.simps) (simp add: Let_def)
qed

lemma loop_ellipsis:
  assumes "length ip < 16" "n < 65536"
  shows "ipv6_loop ip None (hex_short n @ '':'' @ '':'' @ t) =
     (if t = [] then Some (ip @ be_bytes 2 n, Some (length ip + 2), [])
      else ipv6_loop (ip @ be_bytes 2 n) (Some (length ip + 2)) t)"
proof -
  have "takeWhile hex_digit (hex_short n @ CHR '':'' # CHR '':'' # t) = hex_short n"
    by (rule hex_short_takeWhile [OF assms(2)]) (simp add: hex_digit_def hex_val_def)
  then show ?thesis
    using hex_short_ok [OF assms(2)] assms(1)
    by (subst ipv6_loop.simps) (simp add: Let_def length_be_bytes)
qed

lemma hexes_Cons2:
  assumes "gs \<noteq> []" "list_all (\<lambda>g. g < 65536) gs"
  shows "\<exists>d t. hexes gs = d # t \<and> d \<noteq> CHR '':''"
proof -
  obtain g gs' where gs: "gs = g # gs'" using assms(1) by (cases gs) auto
  then have "g < 65536" using assms(2) by simp
  then obtain d t where "hex_short g = d # t" "hex_digit d"
    using hex_short_ok(1,3) [of g] by (cases "hex_short g") auto
  then show ?thesis using hex_digit_chars [of d] by (cases gs') (auto simp: hexes_def gs addr_mark_def)
qed

lemma loop_groups:
  assumes "list_all (\<lambda>g. g < 65536) gs" "gs \<noteq> []" "length ip + 2 * length gs \<le> 16"
  shows "ipv6_loop ip ell (hexes gs) = Some (ip @ group_bytes gs, ell, [])"
  using assms
proof (induction gs arbitrary: ip)
  case (Cons g gs)
  show ?case
  proof (cases "gs = []")
    case True
    then show ?thesis using Cons.prems loop_last [of ip g ell] by (simp add: hexes_def)
  next
    case False
    obtain d t where d: "hexes gs = d # t" "d \<noteq> CHR '':''" using hexes_Cons2 [of gs] False Cons.prems by auto
    have "hexes (g # gs) = hex_short g @ CHR '':'' # d # t"
      using False d by (cases gs) (auto simp: hexes_def)
    then show ?thesis
      using Cons.prems Cons.IH [of "ip @ be_bytes 2 g"] False d loop_step [of ip g d ell t]
      by (simp add: length_be_bytes)
  qed
qed simp

lemma loop_both:
  assumes "list_all (\<lambda>g. g < 65536) gs" "gs \<noteq> []" "list_all (\<lambda>g. g < 65536) hs"
    and "length ip + 2 * length gs + 2 * length hs \<le> 16"
  shows "ipv6_loop ip None (hexes gs @ ''::'' @ hexes hs) =
    Some (ip @ group_bytes gs @ group_bytes hs, Some (length ip + 2 * length gs), [])"
  using assms
proof (induction gs arbitrary: ip)
  case (Cons g gs)
  show ?case
  proof (cases "gs = []")
    case True
    then show ?thesis
      using Cons.prems loop_ellipsis [of ip g "hexes hs"] loop_groups [of hs "ip @ be_bytes 2 g"] hexes_Cons2 [of hs]
      by (cases "hs = []") (auto simp: hexes_def length_be_bytes)
  next
    case False
    obtain d t where d: "hexes gs = d # t" "d \<noteq> CHR '':''" using hexes_Cons2 [of gs] False Cons.prems by auto
    have "hexes (g # gs) = hex_short g @ CHR '':'' # d # t"
      using False d by (cases gs) (auto simp: hexes_def)
    then show ?thesis
      using Cons.prems Cons.IH [of "ip @ be_bytes 2 g"] False d loop_step [of ip g d None "t @ ''::'' @ hexes hs"]
      by (simp add: length_be_bytes)
  qed
qed simp

section \<open>The groups of an address\<close>

lemma be_bytes_two: "be_bytes 2 (256 * unat a + unat b) = [a, b]"
proof -
  have "(256 * unat a + unat b) div 256 = unat a" using unat_byte_less [of b] by simp
  moreover have "(of_nat (256 * unat a + unat b) :: byte) = b"
  proof -
    have "(of_nat (256 * unat a + unat b) :: byte) = 256 * a + b" by simp
    moreover have "(256 :: byte) = 0" by simp
    ultimately show ?thesis by (simp only: mult_zero_left add_0)
  qed
  ultimately show ?thesis by (simp add: be_bytes_def upt_rec)
qed

lemma group_bytes_groups: "even (length ip) \<Longrightarrow> group_bytes (groups ip) = ip"
  by (induction ip rule: groups.induct) (auto simp: be_bytes_two)

lemma groups_small: "list_all (\<lambda>g. g < 65536) (groups ip)"
proof (induction ip rule: groups.induct)
  case (1 a b r)
  have "256 * unat a + unat b < 65536" using unat_byte_less [of a] unat_byte_less [of b] by linarith
  then show ?case using 1 by simp
qed auto

lemma length_groups: "length (groups ip) = length ip div 2"
  by (induction ip rule: groups.induct) auto

lemma group_bytes_zeros: "group_bytes (replicate n 0) = replicate (2 * n) 0"
  by (induction n) (auto simp: be_bytes_def upt_rec)

lemma length_group_bytes: "length (group_bytes gs) = 2 * length gs"
  by (induction gs) auto

lemma zero_run_take:
  "i < length gs \<Longrightarrow> i + zero_run gs i \<le> length gs \<and> take (zero_run gs i) (drop i gs) = replicate (zero_run gs i) 0"
  using length_takeWhile_le [of "\<lambda>g. g = 0" "drop i gs"]
  by (auto simp: zero_run_def takeWhile_eq_take [symmetric] replicate_eqI dest: set_takeWhileD intro!: replicate_eqI)

lemma longest_zeros_ok:
  assumes "longest_zeros gs = (st, l)"
  shows "l = 0 \<or> (2 \<le> l \<and> st + l \<le> length gs \<and> take l (drop st gs) = replicate l 0)"
proof -
  define P where "P = (\<lambda>(st, l). l = 0 \<or> (2 \<le> l \<and> st + l \<le> length gs \<and> take l (drop st gs) = replicate l (0 :: nat)))"
  have *: "P (fold (\<lambda>i (st, l). if 2 \<le> zero_run gs i \<and> l < zero_run gs i then (i, zero_run gs i) else (st, l)) is z)"
    if "P z" "\<forall>i \<in> set is. i < length gs" for "is" z
    using that
  proof (induction "is" arbitrary: z)
    case (Cons i "is")
    then have "i + zero_run gs i \<le> length gs \<and> take (zero_run gs i) (drop i gs) = replicate (zero_run gs i) 0"
      by (intro zero_run_take) auto
    with Cons show ?case by (cases z) (auto simp: P_def)
  qed simp
  have "P (longest_zeros gs)" unfolding longest_zeros_def by (rule *) (auto simp: P_def)
  then show ?thesis by (simp add: assms P_def)
qed

lemma hexes_chars: "list_all (\<lambda>g. g < 65536) gs \<Longrightarrow> c \<in> set (hexes gs) \<Longrightarrow> c = CHR '':'' \<or> hex_digit c"
proof (induction gs)
  case (Cons g gs)
  then show ?case
    using hex_short_ok(3) [of g] by (cases gs) (auto simp: hexes_def list_all_iff)
qed (simp add: hexes_def)

lemma v6_string_split:
  assumes "longest_zeros (groups ip) = (st, l)"
  shows "v6_string ip = (if l = 0 then hexes (groups ip)
    else hexes (take st (groups ip)) @ ''::'' @ hexes (drop (st + l) (groups ip)))"
  by (simp add: v6_string_def assms hexes_def Let_def)

lemma no_ellipsis: "d \<noteq> CHR '':'' \<Longrightarrow> \<not> HasPrefix (d # t) ''::''"
  by (simp add: HasPrefix_def)

text \<open>An address with a run of zeros left out, at its start and elsewhere.\<close>

lemma parse_v6_leading:
  assumes "list_all (\<lambda>g. g < 65536) hs" "2 \<le> l" "l + length hs = 8" "ip = replicate (2 * l) 0 @ group_bytes hs"
  shows "parseIPv6 (''::'' @ hexes hs) = Some ip"
proof (cases "hs = []")
  case True
  then have "l = 8" using assms(3) by simp
  then show ?thesis using True assms(4) by (simp add: parseIPv6_def HasPrefix_def hexes_def)
next
  case False
  have he: "hexes hs \<noteq> []" using hexes_Cons2 [OF False assms(1)] by auto
  have loop: "ipv6_loop [] (Some 0) (hexes hs) = Some (group_bytes hs, Some 0, [])"
    using loop_groups [OF assms(1), of "[]"] False assms(3) by simp
  have "16 - 2 * length hs = 2 * l" "2 * length hs < 16" using assms(2,3) by simp_all
  then show ?thesis
    using loop assms(4) by (simp add: parseIPv6_def HasPrefix_def he length_group_bytes)
qed

lemma parse_v6_inside:
  assumes "list_all (\<lambda>g. g < 65536) gs" "list_all (\<lambda>g. g < 65536) hs" "gs \<noteq> []" "2 \<le> l" "length gs + l + length hs = 8"
    and "ip = group_bytes gs @ replicate (2 * l) 0 @ group_bytes hs"
  shows "parseIPv6 (hexes gs @ ''::'' @ hexes hs) = Some ip"
proof -
  obtain d t where d: "hexes gs = d # t" "d \<noteq> CHR '':''" using hexes_Cons2 [OF assms(3,1)] by auto
  have "ipv6_loop [] None (hexes gs @ ''::'' @ hexes hs) = Some (group_bytes gs @ group_bytes hs, Some (2 * length gs), [])"
    using loop_both [of gs hs "[]"] assms(1-5) by simp
  moreover have "16 - (2 * length gs + 2 * length hs) = 2 * l" using assms(5) by simp
  ultimately show ?thesis
    using no_ellipsis [OF d(2), of "t @ ''::'' @ hexes hs"] assms(4-6)
    by (simp add: d(1) parseIPv6_def length_group_bytes)
qed

lemma parse_v6_string:
  assumes ip: "length ip = 16"
  shows "parseIPv6 (v6_string ip) = Some ip"
proof -
  obtain st l where z: "longest_zeros (groups ip) = (st, l)" by fastforce
  have len: "length (groups ip) = 8" by (simp add: length_groups ip)
  show ?thesis
  proof (cases "l = 0")
    case True
    obtain d t where d: "hexes (groups ip) = d # t" "d \<noteq> CHR '':''"
      using hexes_Cons2 [OF _ groups_small [of ip]] len by fastforce
    have "ipv6_loop [] None (hexes (groups ip)) = Some (ip, None, [])"
      using loop_groups [OF groups_small, of ip "[]" None] len group_bytes_groups [of ip] ip by fastforce
    then show ?thesis using no_ellipsis [OF d(2), of t] by (simp add: v6_string_split [OF z] True d(1) parseIPv6_def ip)
  next
    case False
    then have l: "2 \<le> l" "st + l \<le> 8" "take l (drop st (groups ip)) = replicate l 0"
      using longest_zeros_ok [OF z] len by auto
    define gs where "gs = take st (groups ip)"
    define hs where "hs = drop (st + l) (groups ip)"
    have small: "list_all (\<lambda>g. g < 65536) gs" "list_all (\<lambda>g. g < 65536) hs"
      using groups_small [of ip] by (auto simp: gs_def hs_def list_all_iff dest: in_set_takeD in_set_dropD)
    have "groups ip = gs @ replicate l 0 @ hs"
      unfolding gs_def hs_def l(3) [symmetric] by (metis append_take_drop_id drop_drop add.commute)
    then have ip_eq: "ip = group_bytes gs @ replicate (2 * l) 0 @ group_bytes hs"
      using group_bytes_groups [of ip] ip group_bytes_zeros [of l] by simp
    have lens: "length gs + l + length hs = 8" using l(2) len by (simp add: gs_def hs_def)
    have str: "v6_string ip = hexes gs @ ''::'' @ hexes hs"
      using False by (simp add: v6_string_split [OF z] gs_def hs_def)
    show ?thesis
    proof (cases "gs = []")
      case True
      then have "v6_string ip = ''::'' @ hexes hs" "ip = replicate (2 * l) 0 @ group_bytes hs" "l + length hs = 8"
        using str ip_eq lens by (simp_all add: hexes_def [of "[]"])
      then show ?thesis using parse_v6_leading [OF small(2) l(1)] by (simp only:)
    qed (use parse_v6_inside [OF small _ l(1) lens ip_eq] str in simp)
  qed
qed

section \<open>Round trip\<close>

lemma first_mark:
  assumes "c \<in> set s" "\<forall>x \<in> set s. addr_mark x \<longrightarrow> x = c" "addr_mark c"
  shows "\<exists>t. dropWhile (\<lambda>c. \<not> addr_mark c) s = c # t"
proof -
  have n: "dropWhile (\<lambda>c. \<not> addr_mark c) s \<noteq> []"
    unfolding dropWhile_eq_Nil_conv using assms(1,3) by blast
  then obtain d t where d: "dropWhile (\<lambda>c. \<not> addr_mark c) s = d # t" by (meson neq_Nil_conv)
  have "addr_mark d" using hd_dropWhile [OF n] d by simp
  moreover have "d \<in> set s" using d by (metis list.set_intros(1) set_dropWhileD)
  ultimately have "d = c" using assms(2) by blast
  then show ?thesis using d by blast
qed

lemma ParseIP_v4:
  assumes "length v = 4"
  shows "ParseIP (v4_string v) = Some (v4_mapped v)"
proof -
  obtain a b c d where v: "v = [a, b, c, d]"
    using assms by (auto simp: length_Suc_conv eval_nat_numeral)
  define S where "S = set (dec_nat (unat a)) \<union> set (dec_nat (unat b)) \<union> set (dec_nat (unat c)) \<union> set (dec_nat (unat d))"
  have S: "\<not> addr_mark x" if "x \<in> S" for x using that dec_nat_chars by (unfold S_def) blast
  have "set (v4_string v) = insert CHR ''.'' S" by (auto simp: v v4_string_def S_def)
  then have 1: "CHR ''.'' \<in> set (v4_string v)" "\<forall>x \<in> set (v4_string v). addr_mark x \<longrightarrow> x = CHR ''.''"
    using S by blast+
  obtain t where "dropWhile (\<lambda>c. \<not> addr_mark c) (v4_string v) = CHR ''.'' # t"
    using first_mark [OF 1] by (auto simp: addr_mark_def)
  then show ?thesis using parse_v4_string [OF assms] by (simp add: ParseIP_def)
qed

lemma v6_string_chars:
  assumes "length ip = 16"
  shows "CHR '':'' \<in> set (v6_string ip)" "x \<in> set (v6_string ip) \<Longrightarrow> x = CHR '':'' \<or> hex_digit x"
proof -
  obtain st l where z: "longest_zeros (groups ip) = (st, l)" by fastforce
  have len: "length (groups ip) = 8" by (simp add: length_groups assms)
  have small: "list_all (\<lambda>g. g < 65536) (take k (groups ip))" "list_all (\<lambda>g. g < 65536) (drop k (groups ip))" for k
    using groups_small [of ip] by (auto simp: list_all_iff dest: in_set_takeD in_set_dropD)
  show "x \<in> set (v6_string ip) \<Longrightarrow> x = CHR '':'' \<or> hex_digit x"
    using hexes_chars [OF groups_small, of x ip] hexes_chars [OF small(1), of x st] hexes_chars [OF small(2), of x "st + l"]
    by (auto simp: v6_string_split [OF z] split: if_splits)
  obtain g h gs where "groups ip = g # h # gs" using len by (auto simp: length_Suc_conv eval_nat_numeral)
  then show "CHR '':'' \<in> set (v6_string ip)" by (simp add: v6_string_split [OF z] hexes_def)
qed

lemma ParseIP_v6:
  assumes "length ip = 16"
  shows "ParseIP (v6_string ip) = Some ip"
proof -
  have c: "\<forall>x \<in> set (v6_string ip). addr_mark x \<longrightarrow> x = CHR '':''"
    using v6_string_chars(2) [OF assms] hex_digit_chars by blast
  then have p: "CHR ''%'' \<notin> set (v6_string ip)" by (auto simp: addr_mark_def)
  obtain t where "dropWhile (\<lambda>c. \<not> addr_mark c) (v6_string ip) = CHR '':'' # t"
    using first_mark [OF v6_string_chars(1) [OF assms] c] by (auto simp: addr_mark_def)
  then show ?thesis using p parse_v6_string [OF assms] by (simp add: ParseIP_def)
qed

text \<open>
  Printing an address and parsing the text gives the address back, in its 16-byte form; this holds for
  every IPv4 and every IPv6 address, with or without a run of zeros to shorten.
\<close>

lemma ParseIP_print:
  assumes "length ip = 4 \<or> length ip = 16"
  shows "ParseIP (IP_String ip) = Some (if length ip = 4 then v4_mapped ip else ip)"
proof (cases "To4 ip")
  case None
  then show ?thesis using assms ParseIP_v6 [of ip] by (auto simp: IP_String_def To4_def)
next
  case (Some v)
  have "ip = v4_mapped v \<or> length ip = 4 \<and> v = ip"
  proof (cases "length ip = 4")
    case False
    then have "take 12 ip = replicate 10 0 @ [0xff, 0xff]" "v = drop 12 ip"
      using Some by (auto simp: To4_def split: if_splits)
    then have "ip = (replicate 10 0 @ [0xff, 0xff]) @ v" by (metis append_take_drop_id)
    then show ?thesis by (simp add: v4_mapped_def)
  qed (use Some in \<open>simp add: To4_def\<close>)
  moreover have "length v = 4" using Some assms by (auto simp: To4_def split: if_splits)
  ultimately show ?thesis using Some ParseIP_v4 [of v] by (auto simp: IP_String_def v4_mapped_def)
qed

end
