(* ===== verification/Flags.thy ===== *)
theory Flags
  imports Go_Net Ws
begin

text \<open>
  How main.go reads its flags: comma-separated lists, port lists, the port of an address and the test
  whether an address is on the loopback interface.
\<close>

definition isLoopback :: "string \<Rightarrow> bool" where
  "isLoopback addr =
     (case SplitHostPort addr of
        Inl _ \<Rightarrow> False
      | Inr (host, _) \<Rightarrow>
          host = ''localhost'' \<or> (case ParseIP host of None \<Rightarrow> False | Some ip \<Rightarrow> IsLoopback ip))"

definition splitCSV :: "string \<Rightarrow> string list" where
  "splitCSV s = filter (\<lambda>p. p \<noteq> []) (map TrimSpace (split_on CHR '','' s))"

text \<open>The characters of a number, in 64-bit arithmetic; \<open>None\<close> at the first character that is no digit.\<close>

fun int_loop :: "int64 \<Rightarrow> nat list \<Rightarrow> int64 option" where
  "int_loop n [] = Some n"
| "int_loop n (c # cs) =
     (if c < 48 \<or> 57 < c then None else int_loop (n * 10 + of_nat (c - 48)) cs)"

definition parse_port :: "string \<Rightarrow> int64 option" where
  "parse_port p =
     (case int_loop 0 (runes p) of None \<Rightarrow> None | Some n \<Rightarrow> if 0 < sint n then Some n else None)"

definition parseInts :: "string \<Rightarrow> int64 list" where
  "parseInts s =
     (let out = List.map_filter parse_port (splitCSV s) in if out = [] then [80, 443] else out)"

text \<open>\<open>mustPort\<close> does not look whether the characters are digits.\<close>

definition mustPort :: "string \<Rightarrow> int64" where
  "mustPort addr =
     (case SplitHostPort addr of
        Inl _ \<Rightarrow> 3128
      | Inr (_, p) \<Rightarrow> foldl (\<lambda>n c. n * 10 + of_int (int c - 48)) 0 (runes p))"

section \<open>Facts\<close>

lemma int_loop_digits:
  "list_all is_digit ds \<Longrightarrow>
     int_loop (of_nat k) (map code_of ds) = Some (of_nat (foldl (\<lambda>n c. n * 10 + digit_val c) k ds))"
proof (induction ds arbitrary: k)
  case (Cons d ds)
  have "48 \<le> code_of d" "code_of d \<le> 57" "digit_val d = code_of d - 48"
    using Cons.prems by (auto simp: is_digit_def digit_val_def)
  then show ?case using Cons.IH [of "k * 10 + digit_val d"] Cons.prems by (simp add: algebra_simps)
qed simp

lemma runes_dec_nat: "runes (dec_nat n) = map code_of (dec_nat n)"
  by (rule runes_ascii) (rule is_ascii_dec_nat)

lemma parse_port_dec_nat: "0 < n \<Longrightarrow> n < 2 ^ 63 \<Longrightarrow> parse_port (dec_nat n) = Some (of_nat n)"
  using int_loop_digits [of "dec_nat n" 0] digits_val_dec_nat [of n] list_all_iff dec_nat_digits [of n]
  by (simp add: parse_port_def runes_dec_nat digits_val_def sint_of_nat_small list_all_iff del: digits_val_dec_nat)

lemma dec_nat_only: "\<not> is_digit c \<Longrightarrow> c \<notin> set (dec_nat n)"
  using dec_nat_digits by blast

lemma TrimSpace_dec_nat: "TrimSpace (dec_nat n) = dec_nat n"
  using dec_nat_digits digit_not_space is_ascii_dec_nat by (intro TrimSpace_id) blast+

lemma IP_String_chars:
  assumes "length ip = 4 \<or> length ip = 16" "c \<in> set (IP_String ip)"
  shows "c = CHR '':'' \<or> c = CHR ''.'' \<or> hex_digit c"
proof -
  have v4: "c = CHR ''.'' \<or> hex_digit c" if "c \<in> set (v4_string v)" for v
  proof -
    have "c \<in> set (join ''.'' ps) \<Longrightarrow> c = CHR ''.'' \<or> (\<exists>p \<in> set ps. c \<in> set p)" for ps
      by (induction ps rule: induct_list012) auto
    then have "c = CHR ''.'' \<or> is_digit c" using that dec_nat_digits by (fastforce simp: v4_string_def)
    then show ?thesis by (auto simp: is_digit_def hex_digit_def hex_val_def Let_def)
  qed
  show ?thesis
    using assms v4 v6_string_chars(2) [of ip c] by (auto simp: IP_String_def To4_def split: if_splits)
qed

lemma IP_String_mark: "length ip = 4 \<or> length ip = 16 \<Longrightarrow> \<exists>c \<in> set (IP_String ip). addr_mark c"
proof -
  assume l: "length ip = 4 \<or> length ip = 16"
  have "ParseIP s = None" if "\<not> (\<exists>c \<in> set s. addr_mark c)" for s
  proof -
    have "dropWhile (\<lambda>c. \<not> addr_mark c) s = []" unfolding dropWhile_eq_Nil_conv using that by blast
    then show ?thesis unfolding ParseIP_def by (simp only: list.case)
  qed
  then show ?thesis using ParseIP_print [OF l] by fastforce
qed

section \<open>Properties\<close>

text \<open>
  A comma-separated list of port numbers is read as these numbers, in order.
\<close>

theorem parseInts_numbers:
  assumes "ns \<noteq> []" "list_all (\<lambda>n. 0 < n \<and> n < 2 ^ 63) ns"
  shows "parseInts (join '','' (map dec_nat ns)) = map of_nat ns"
proof -
  have "split_on CHR '','' (join '','' (map dec_nat ns)) = map dec_nat ns"
    using assms(1) dec_nat_only [of "CHR '',''"] by (intro split_on_join) (auto simp: is_digit_def)
  moreover have "filter (\<lambda>p. p \<noteq> []) (map TrimSpace (map dec_nat ns)) = map dec_nat ns"
    using dec_nat_nonempty by (simp add: TrimSpace_dec_nat filter_id_conv)
  moreover have "List.map_filter parse_port (map dec_nat ns) = map of_nat ns"
    using assms(2) by (induction ns) (auto simp: map_filter_simps parse_port_dec_nat)
  ultimately show ?thesis using assms(1) by (simp add: parseInts_def splitCSV_def)
qed

theorem parseInts_numbers_witness: "parseInts (join '','' (map dec_nat [80, 443])) = [80, 443]"
  using parseInts_numbers [of "[80, 443]"] by simp

text \<open>
  The port that the redirect rules get is that of the listen address.
\<close>

theorem mustPort_port:
  assumes "CHR ''['' \<notin> set h" "CHR '']'' \<notin> set h"
  shows "mustPort (JoinHostPort h (dec_nat p)) = of_nat p"
proof -
  have d: "c \<in> set (dec_nat p) \<Longrightarrow> is_digit c" for c using dec_nat_digits by blast
  have "SplitHostPort (JoinHostPort h (dec_nat p)) = Inr (h, dec_nat p)"
    by (intro SplitHostPort_Join assms dec_nat_only) (simp_all add: is_digit_def)
  moreover have "foldl (\<lambda>n c. n * 10 + of_int (int c - 48)) (of_nat k) (map code_of ds)
      = (of_nat (foldl (\<lambda>n c. n * 10 + digit_val c) k ds) :: int64)" if "list_all is_digit ds" for k ds
    using that
  proof (induction ds arbitrary: k)
    case (Cons d ds)
    have "48 \<le> code_of d" "digit_val d = code_of d - 48"
      using Cons.prems by (auto simp: is_digit_def digit_val_def)
    then show ?case using Cons.IH [of "k * 10 + digit_val d"] Cons.prems by (simp add: algebra_simps)
  qed simp
  from this [of "dec_nat p" 0] have "foldl (\<lambda>n c. n * 10 + of_int (int c - 48)) 0 (map code_of (dec_nat p)) = (of_nat p :: int64)"
    using d digits_val_dec_nat [of p] by (simp add: list_all_iff digits_val_def del: digits_val_dec_nat)
  ultimately show ?thesis by (simp add: mustPort_def runes_dec_nat)
qed

theorem mustPort_port_witness: "mustPort (JoinHostPort [] (dec_nat 3128)) = 3128"
  using mustPort_port [of "[]" 3128] by simp

lemma IsLoopback_mapped: "length v = 4 \<Longrightarrow> IsLoopback (v4_mapped v) \<longleftrightarrow> v ! 0 = 127"
  by (simp add: IsLoopback_def To4_def v4_mapped_def)

lemma mapped_inj: "v4_mapped v = v4_mapped v' \<longleftrightarrow> v = v'"
  by (simp add: v4_mapped_def)

lemma mapped_not_one: "v4_mapped v \<noteq> replicate 15 0 @ [1]"
proof
  assume "v4_mapped v = replicate 15 0 @ [1]"
  then have "v4_mapped v ! 10 = (replicate 15 0 @ [1]) ! 10" by simp
  then show False by (simp add: v4_mapped_def nth_append)
qed

text \<open>
  C37: an address counts as loopback exactly when it is 127.0.0.0/8 (also as an IPv4-mapped address) or ::1,
  for every IPv4 and IPv6 address and port.
\<close>

theorem isLoopback_addresses:
  assumes "length ip = 4 \<or> length ip = 16" "CHR '':'' \<notin> set p" "CHR ''['' \<notin> set p" "CHR '']'' \<notin> set p"
  shows "isLoopback (JoinHostPort (IP_String ip) p) \<longleftrightarrow>
     (length ip = 4 \<and> ip ! 0 = 127) \<or> (\<exists>v. ip = v4_mapped v \<and> length v = 4 \<and> v ! 0 = 127) \<or> ip = replicate 15 0 @ [1]"
proof -
  have b: "CHR ''['' \<notin> set (IP_String ip)" "CHR '']'' \<notin> set (IP_String ip)"
    using IP_String_chars [OF assms(1)] by (fastforce simp: hex_digit_def hex_val_def Let_def)+
  have "\<not> (\<exists>c \<in> set ''localhost''. addr_mark c)" by (simp add: addr_mark_def)
  then have "IP_String ip \<noteq> ''localhost''" using IP_String_mark [OF assms(1)] by metis
  then have i: "isLoopback (JoinHostPort (IP_String ip) p) \<longleftrightarrow> IsLoopback (if length ip = 4 then v4_mapped ip else ip)"
    using SplitHostPort_Join [OF b assms(2-4)] by (simp add: isLoopback_def ParseIP_print [OF assms(1)])
  show ?thesis
  proof (cases "length ip = 4")
    case True
    then have "ip \<noteq> v4_mapped v" "ip \<noteq> replicate 15 0 @ [1]" for v
      by (auto simp: v4_mapped_def dest: arg_cong [where f = length])
    then show ?thesis using i True by (auto simp: IsLoopback_mapped)
  next
    case False
    then have l: "length ip = 16" using assms(1) by simp
    show ?thesis
    proof (cases "take 12 ip = replicate 10 0 @ [0xff, 0xff]")
      case True
      have "v4_mapped (drop 12 ip) = take 12 ip @ drop 12 ip" by (simp only: v4_mapped_def True append_assoc)
      then have v: "ip = v4_mapped (drop 12 ip)" "length (drop 12 ip) = 4" using l by simp_all
      have "ip = v4_mapped v \<longleftrightarrow> v = drop 12 ip" for v
        using v(1) mapped_inj [of v "drop 12 ip"] by metis
      moreover have "ip \<noteq> replicate 15 0 @ [1]" using v(1) mapped_not_one by metis
      moreover have "IsLoopback ip \<longleftrightarrow> drop 12 ip ! 0 = 127" using IsLoopback_mapped [OF v(2)] v(1) by metis
      ultimately show ?thesis using i False v(2) by (simp only: if_False simp_thms)
    next
      case m: False
      then have "ip \<noteq> v4_mapped v" if "length v = 4" for v using that by (auto simp: v4_mapped_def)
      moreover have "IsLoopback ip \<longleftrightarrow> ip = replicate 15 0 @ [1]" using m l by (simp add: IsLoopback_def To4_def)
      ultimately show ?thesis using i False by auto
    qed
  qed
qed

theorem isLoopback_addresses_witness:
  "\<not> isLoopback (JoinHostPort (IP_String [0, 0, 0, 0]) ''8080'')"
proof -
  have "length (v4_mapped v) \<noteq> length [0, 0, 0, 0 :: byte]" for v by (simp add: v4_mapped_def)
  then have "[0, 0, 0, 0] \<noteq> v4_mapped v" for v by metis
  then show ?thesis using isLoopback_addresses [of "[0, 0, 0, 0]" "''8080''"] by simp
qed

end
