(* ===== verification/Admin.thy ===== *)
theory Admin
  imports App Mcp Ca_Trust Flags
begin

text \<open>
  The admin server (admin.go): its routes, the token check in front of them, and the effect of every
  request on the state that the proxy works with.

  The handlers run under the mutexes of the parts they call; a request is one step of the server here.
\<close>

section \<open>State and surroundings\<close>

text \<open>
  The registry, the rules and the hub that \<open>adminMux\<close> gets are those of the application object (main.go
  passes the same pointers); \<open>ac_hasApp\<close> is whether the application itself is passed (tests pass nil).
\<close>

record server =
  sv_os :: os
  sv_app :: app

record admin_conf =
  ac_dataDir :: string
  ac_token :: string
  ac_caPEM :: string
  ac_bind :: string
  ac_hasApp :: bool

text \<open>
  What a request meets: the libraries, the iteration order of maps, random bytes, the connection that a
  WebSocket request hijacks, the error of reading the body, and from net/http the replies of the file server
  over the embedded files and of the mux for a path that is not clean.
\<close>

record admin_env =
  ae_L :: json_lib
  ae_u :: unicode
  ae_tls :: tls_lib
  ae_ord :: "string map_order"
  ae_rnd :: entropy
  ae_conn :: nat
  ae_hijack :: "net_conn option option"
  ae_bodyerr :: "string option"
  ae_index :: "string + string"
  ae_files :: "request \<Rightarrow> reply"
  ae_moved :: "request \<Rightarrow> string \<Rightarrow> reply"

datatype answer = Answer reply | Streaming nat

abbreviation sv_reg :: "server \<Rightarrow> registry" where "sv_reg s \<equiv> ap_reg (sv_app s)"

abbreviation sv_rules :: "server \<Rightarrow> rule_engine" where "sv_rules s \<equiv> ap_rules (sv_app s)"

definition set_reg :: "registry \<Rightarrow> server \<Rightarrow> server" where
  "set_reg r s = s\<lparr>sv_app := (sv_app s)\<lparr>ap_reg := r\<rparr>\<rparr>"

definition set_rules :: "rule_engine \<Rightarrow> server \<Rightarrow> server" where
  "set_rules e s = s\<lparr>sv_app := (sv_app s)\<lparr>ap_rules := e\<rparr>\<rparr>"

definition set_kit :: "SSLKitStore \<Rightarrow> server \<Rightarrow> server" where
  "set_kit k s = s\<lparr>sv_app := (sv_app s)\<lparr>ap_kit := Some k\<rparr>\<rparr>"

definition set_hub :: "hub \<Rightarrow> server \<Rightarrow> server" where
  "set_hub h s = s\<lparr>sv_app := (sv_app s)\<lparr>ap_hub := Some h\<rparr>\<rparr>"

definition save :: "admin_env \<Rightarrow> admin_conf \<Rightarrow> server \<Rightarrow> server" where
  "save E C s = s\<lparr>sv_os := fst (savePersist (ae_ord E) (sv_os s) (ac_dataDir C) (sv_reg s) (sv_rules s))\<rparr>"

section \<open>Replies\<close>

text \<open>
  \<open>writeJSON\<close>: \<open>Encoder.Encode\<close> writes the indented text and a newline, and nothing when the value (\<open>None\<close>)
  cannot be encoded.
\<close>

definition writeJSON :: "json option \<Rightarrow> reply \<Rightarrow> reply" where
  "writeJSON v w =
     (let w = reply_set ''Content-Type'' ''application/json'' w
      in case v of None \<Rightarrow> w | Some j \<Rightarrow> reply_write (marshal_indent j @ [CHR 0x0A]) w)"

abbreviation ok_json :: "json \<Rightarrow> answer" where
  "ok_json j \<equiv> Answer (writeJSON (Some j) new_reply)"

abbreviation fail :: "string \<Rightarrow> int \<Rightarrow> answer" where
  "fail msg code \<equiv> Answer (http_Error msg code new_reply)"

abbreviation body_text :: "request \<Rightarrow> string" where
  "body_text r \<equiv> (case req_Body r of None \<Rightarrow> [] | Some b \<Rightarrow> b)"

section \<open>Handlers\<close>

type_synonym handler = "admin_env \<Rightarrow> admin_conf \<Rightarrow> server \<Rightarrow> request \<Rightarrow> server \<times> answer"

definition h_domains :: handler where
  "h_domains E C s r =
     (if req_Method r = ''DELETE'' then
        let host = query_get r ''host''
        in if host = [] then (s, fail ''host required'' 400)
           else (save E C (set_reg (DeleteHost (sv_reg s) host) s),
                 ok_json (map_json [(''ok'', JBool True), (''host'', JStr host)]))
      else (s, ok_json (JArr (map domain_json (Domains (ae_ord E) (sv_reg s))))))"

definition h_history :: handler where
  "h_history E C s r =
     (if req_Method r \<noteq> ''DELETE'' then (s, fail ''DELETE only'' 405)
      else
        let scope = query_get r ''scope''; host = query_get r ''host'';
            fin = (\<lambda>reg. (save E C (set_reg reg s),
              ok_json (map_json [(''ok'', JBool True), (''scope'', JStr scope), (''host'', JStr host)])))
        in if scope = ''all'' then fin (Reset (sv_reg s))
           else if scope = ''flows'' then fin (ClearFlows (sv_reg s) host)
           else (s, fail ''scope=all|flows'' 400))"

definition h_flows :: handler where
  "h_flows E C s r =
     (let host = query_get r ''host''
      in if host = [] then
           (s, Answer (writeJSON (map_option nil_slice (list_json flow_view_json (all_flow_views (ae_ord E) (sv_reg s)))) new_reply))
         else (s, Answer (writeJSON (flow_views_json (flowViews (Flows (sv_reg s) host))) new_reply)))"

definition h_state :: handler where
  "h_state E C s r =
     (let host = query_get r ''host''; st = ToUpper (ae_u E) (query_get r ''state'')
      in if host = [] \<or> st = [] then (s, fail ''host and state required'' 400)
         else if st = StateObserved \<or> st = StateIntercepted \<or> st = StateMocked then
           (save E C (set_reg (SetState (sv_reg s) host st) s),
            ok_json (map_json [(''host'', JStr host), (''state'', JStr st)]))
         else (s, fail ''state must be OBSERVED, INTERCEPTED, or MOCKED'' 400))"

definition h_rules :: handler where
  "h_rules E C s r =
     (if req_Method r = ''DELETE'' then
        let i = query_get r ''id''
        in if i = [] then (s, fail ''id required'' 400)
           else
             (case Delete (sv_rules s) i of
                (e, ok) \<Rightarrow>
                  (let s = set_rules e s
                   in if \<not> ok then (s, fail ''not found'' 404)
                      else (save E C s, ok_json (map_json [(''ok'', JBool True), (''id'', JStr i)]))))
      else if req_Method r = ''POST'' then
        (case Decode (ae_L E) ''Rule'' (\<lambda>v. dec_rule (ae_u E) v zero_rule) zero_rule (body_text r) of
           (_, Some err) \<Rightarrow> (s, fail err 400)
         | (rule, None) \<Rightarrow>
             (case Add (ae_rnd E) (sv_rules s) rule of
                (e, rule) \<Rightarrow> (save E C (set_rules e s), ok_json (rule_json rule))))
      else (s, ok_json (nil_slice (map rule_json (All (sv_rules s))))))"

definition h_mcp :: handler where
  "h_mcp E C s r =
     (case mcpHandler (ae_L E) (ae_u E) (ae_ord E) (ae_rnd E) (ac_dataDir C)
          \<lparr>ts_os = sv_os s, ts_reg = sv_reg s, ts_rules = sv_rules s\<rparr>
          (case ae_bodyerr E of Some err \<Rightarrow> Inl err | None \<Rightarrow> Inr (body_text r)) of
        (t, w) \<Rightarrow> (set_rules (ts_rules t) (set_reg (ts_reg t) (s\<lparr>sv_os := ts_os t\<rparr>)), Answer w))"

definition h_ca_pem :: handler where
  "h_ca_pem E C s r =
     (s, Answer (reply_write (ac_caPEM C)
        (reply_set ''Content-Disposition'' (''attachment; filename='' @ [CHR 0x22] @ ''skytap-ca.pem'' @ [CHR 0x22])
          (reply_set ''Content-Type'' ''application/x-pem-file'' new_reply))))"

definition h_ca_status :: handler where
  "h_ca_status E C s r = (s, ok_json (map_json (caStatus (ae_u E) (sv_os s) (ac_caPEM C) (ac_dataDir C))))"

definition h_ca_trust :: handler where
  "h_ca_trust E C s r =
     (if req_Method r \<noteq> ''POST'' then (s, fail ''POST only'' 405)
      else
        (case installCATrust (ae_u E) (sv_os s) (ac_caPEM C) (ac_dataDir C) of
           (os, Some err) \<Rightarrow> (s\<lparr>sv_os := os\<rparr>, fail err 500)
         | (os, None) \<Rightarrow>
             (s\<lparr>sv_os := os\<rparr>, ok_json (map_json (caStatus (ae_u E) os (ac_caPEM C) (ac_dataDir C))))))"

definition the_kit :: "admin_conf \<Rightarrow> server \<Rightarrow> SSLKitStore option" where
  "the_kit C s = (if ac_hasApp C then ap_kit (sv_app s) else None)"

definition h_sslkit :: handler where
  "h_sslkit E C s r =
     (case the_kit C s of
        None \<Rightarrow> (s, fail ''no sslkit store'' 503)
      | Some k \<Rightarrow>
          if req_Method r = ''POST'' then
            (case Decode (ae_L E) ''HostSSLPolicy'' (\<lambda>v. dec_policy (ae_u E) v zero_policy) zero_policy (body_text r) of
               (_, Some err) \<Rightarrow> (s, fail err 400)
             | (p, None) \<Rightarrow>
                 if hp_Host p = [] then (s, fail ''host required'' 400)
                 else
                   (case kit_Put (ae_u E) (ae_tls E) (ae_ord E) (sv_os s) k p of
                      (os, k, p) \<Rightarrow> (set_kit k (s\<lparr>sv_os := os\<rparr>), ok_json (policy_json p))))
          else
            let host = query_get r ''host''
            in if host \<noteq> [] then
                 (case kit_Get (ae_u E) (ae_tls E) (sv_os s) k host of
                    (k, p) \<Rightarrow> (set_kit k s, ok_json (policy_json p)))
               else
                 (case kit_All (ae_tls E) (ae_ord E) (sv_os s) k of
                    (k, ps) \<Rightarrow> (set_kit k s, ok_json (JArr (map policy_json ps)))))"

definition set_capture_field :: "string \<Rightarrow> json \<Rightarrow> string \<times> string \<Rightarrow> (string \<times> string) \<times> bool" where
  "set_capture_field f v b =
     (if f = ''host'' then (case dec_string v (fst b) of (x, ok) \<Rightarrow> ((x, snd b), ok))
      else if f = ''dst'' then (case dec_string v (snd b) of (x, ok) \<Rightarrow> ((fst b, x), ok))
      else (b, True))"

definition h_capture :: handler where
  "h_capture E C s r =
     (if req_Method r \<noteq> ''POST'' then (s, fail ''POST only'' 405)
      else
        case the_kit C s of
          None \<Rightarrow> (s, fail ''no sslkit store'' 503)
        | Some k \<Rightarrow>
            (let (body, _) = Decode (ae_L E) ''capture''
                   (\<lambda>v. dec_struct (ae_u E) [''host'', ''dst''] set_capture_field v ([], [])) ([], []) (body_text r);
                 host = (if fst body = [] then query_get r ''host'' else fst body)
             in case kit_Capture (ae_u E) (ae_tls E) (ae_ord E) (sv_os s) k host (snd body) of
                  (os, k, Inl err) \<Rightarrow> (set_kit k (s\<lparr>sv_os := os\<rparr>), fail err 502)
                | (os, k, Inr p) \<Rightarrow> (set_kit k (s\<lparr>sv_os := os\<rparr>), ok_json (policy_json p))))"

definition set_enabled_field :: "string \<Rightarrow> json \<Rightarrow> bool \<Rightarrow> bool \<times> bool" where
  "set_enabled_field f v b = (if f = ''enabled'' then dec_bool v b else (b, True))"

definition h_pin_bypass :: handler where
  "h_pin_bypass E C s r =
     (if \<not> ac_hasApp C then (s, fail ''no app'' 503)
      else
        let s = (if req_Method r = ''POST'' then
                   let (enabled, _) = Decode (ae_L E) ''enabled''
                         (\<lambda>v. dec_struct (ae_u E) [''enabled''] set_enabled_field v False) False (body_text r);
                       (os, a) = SetPinBypass (sv_os s) (sv_app s) enabled
                   in s\<lparr>sv_os := os, sv_app := a\<rparr>
                 else s)
        in (s, ok_json (map_json [(''enabled'', JBool (PinBypass (sv_app s)))])))"

definition h_meta :: handler where
  "h_meta E C s r =
     (s, ok_json (map_json [(''bind'', JStr (ac_bind C)), (''loopback'', JBool (isLoopback (ac_bind C))),
        (''auth_required'', JBool (ac_token C \<noteq> [])), (''ws'', JStr ''/ws'')]))"

text \<open>The WebSocket route: after the upgrade the connection stays open and has been sent the snapshot.\<close>

definition h_ws :: handler where
  "h_ws E C s r =
     (case ap_hub (sv_app s) of
        None \<Rightarrow> (s, fail ''no hub'' 503)
      | Some h \<Rightarrow>
          (case ws_upgrade r (ae_hijack E) (ae_conn E) h of
             (h, WsReply w) \<Rightarrow> (set_hub h s, Answer w)
           | (h, WsOpen) \<Rightarrow> (set_hub (ws_snapshot (ae_ord E) (sv_reg s) (ae_conn E) h) s, Streaming (ae_conn E))))"

definition h_root :: handler where
  "h_root E C s r =
     (if req_Path r = ''/'' \<or> req_Path r = ''/index.html'' then
        (case ae_index E of
           Inl err \<Rightarrow> (s, fail err 500)
         | Inr b \<Rightarrow> (s, Answer (reply_write b (reply_set ''Content-Type'' ''text/html; charset=utf-8'' new_reply))))
      else (s, Answer (ae_files E r)))"

section \<open>Routing and the token\<close>

definition routes :: "(string \<times> handler) list" where
  "routes =
     [(''/domains'', h_domains), (''/history'', h_history), (''/flows'', h_flows), (''/state'', h_state),
      (''/rules'', h_rules), (''/mcp'', h_mcp), (''/ca.pem'', h_ca_pem), (''/ca/status'', h_ca_status),
      (''/ca/trust'', h_ca_trust), (''/sslkit'', h_sslkit), (''/sslkit/capture'', h_capture),
      (''/pin-bypass'', h_pin_bypass), (''/meta'', h_meta), (''/ws'', h_ws)]"

text \<open>
  \<open>http.ServeMux\<close>: a path that is not clean is redirected, except for CONNECT; \<open>/\<close> takes the rest. The model
  is for request lines without escaped slashes, for which the mux sees the same segments as \<open>r.URL.Path\<close>.
\<close>

definition cleanPath :: "string \<Rightarrow> string" where
  "cleanPath p =
     (if p = [] then ''/''
      else
        let p = (if hd p \<noteq> CHR ''/'' then CHR ''/'' # p else p); np = Clean p
        in if last p = CHR ''/'' \<and> np \<noteq> ''/'' then np @ ''/'' else np)"

definition mux :: handler where
  "mux E C s r =
     (if req_Method r \<noteq> ''CONNECT'' \<and> cleanPath (req_Path r) \<noteq> req_Path r
      then (s, Answer (ae_moved E r (cleanPath (req_Path r))))
      else (case map_of routes (req_Path r) of Some h \<Rightarrow> h E C s r | None \<Rightarrow> h_root E C s r))"

text \<open>\<open>subtle.ConstantTimeCompare\<close>: the bits in which the texts differ are collected.\<close>

definition ct_compare :: "byte list \<Rightarrow> byte list \<Rightarrow> bool" where
  "ct_compare x y \<longleftrightarrow>
     (if length x \<noteq> length y then False
      else fold (\<lambda>i v. v OR (x ! i XOR y ! i)) [0..<length x] 0 = 0)"

definition tokenOK :: "string \<Rightarrow> string \<Rightarrow> bool" where
  "tokenOK got token \<longleftrightarrow>
     (if token = [] then False
      else if length got \<noteq> length token then False
      else ct_compare (bytes_of got) (bytes_of token))"

definition public_path :: "string \<Rightarrow> bool" where
  "public_path p \<longleftrightarrow> p = ''/meta'' \<or> p = ''/'' \<or> p = ''/index.html'' \<or> p = ''/pin-bypass''"

definition adminMux :: handler where
  "adminMux E C s r =
     (if ac_token C = [] then mux E C s r
      else if public_path (req_Path r) then mux E C s r
      else if req_Path r = ''/ws'' then
        (if \<not> tokenOK (query_get r ''token'') (ac_token C) then (s, fail ''unauthorized'' 401)
         else mux E C s r)
      else if \<not> tokenOK (TrimPrefix (Header_Get (req_Header r) ''Authorization'') ''Bearer '') (ac_token C) then
        (s, Answer (http_Error ''unauthorized'' 401 (reply_set ''WWW-Authenticate'' ''Bearer'' new_reply)))
      else mux E C s r)"

end
