(* ===== verification/Sslkit_Facts.thy ===== *)
theory Sslkit_Facts
  imports Sslkit
begin

text \<open>
  What the TLS policy store guarantees: a policy that is put is the one that is read, under any spelling of
  its host; a restart restores the store from \<open>sslkit.json\<close>; the client's configuration lists exactly the
  hosts with the kit and with impersonation.
\<close>

section \<open>Policies survive their encoding\<close>

lemma dec_policy_opt:
  assumes "k \<in> set policy_fields" "s \<noteq> [] \<Longrightarrow> set_policy_field k (JStr s) r = (r', True)" "s = [] \<Longrightarrow> r' = r"
  shows "dec_members u policy_fields set_policy_field (opt_str k s) r = (r', True)"
  using assms dec_members_Cons [of u policy_fields k k set_policy_field "JStr s" r r' True "[]"]
  by (auto simp: opt_str_def field_name_exact)

lemma dec_policy_json: "dec_policy u (policy_json p) zero_policy = (p, True)"
proof -
  note s = policy_fields_def set_policy_field_def dec_string_def dec_bool_def
  have a: "dec_members u policy_fields set_policy_field
      [(''host'', JStr (hp_Host p)), (''kit'', JBool (hp_Kit p)), (''impersonate'', JBool (hp_Impersonate p)),
       (''pin'', JStr (hp_Pin p)), (''verify'', JStr (hp_Verify p)), (''captured'', JBool (hp_Captured p))] z =
     (z\<lparr>hp_Host := hp_Host p, hp_Kit := hp_Kit p, hp_Impersonate := hp_Impersonate p, hp_Pin := hp_Pin p,
        hp_Verify := hp_Verify p, hp_Captured := hp_Captured p\<rparr>, True)" for z
    by (simp add: dec_members_Cons [OF field_name_exact] s)
  have k: "dec_members u policy_fields set_policy_field (opt_str ''spki'' x) z = (z\<lparr>hp_SPKI := x\<rparr>, True)"
    if "hp_SPKI z = []" for x z
    by (rule dec_policy_opt) (use that in \<open>auto simp: s\<close>)
  have j: "dec_members u policy_fields set_policy_field (opt_str ''subject'' x) z = (z\<lparr>hp_Subject := x\<rparr>, True)"
    if "hp_Subject z = []" for x z
    by (rule dec_policy_opt) (use that in \<open>auto simp: s\<close>)
  have i: "dec_members u policy_fields set_policy_field (opt_str ''issuer'' x) z = (z\<lparr>hp_Issuer := x\<rparr>, True)"
    if "hp_Issuer z = []" for x z
    by (rule dec_policy_opt) (use that in \<open>auto simp: s\<close>)
  show ?thesis
    unfolding dec_policy_def dec_struct_def policy_json_def json.case zero_policy_def
    by (simp only: dec_members_append a k j i prod.case HostSSLPolicy.select_convs HostSSLPolicy.update_convs) simp
qed

lemma policy_json_good: "nums_ok (policy_json p)" "depth (policy_json p) \<le> 1"
proof -
  show "nums_ok (policy_json p)" by (simp add: policy_json_def nums_ok_members)
  show "depth (policy_json p) \<le> 1" unfolding policy_json_def depth_obj_le by (auto simp: opt_str_def)
qed

section \<open>Paths\<close>

lemma Join_inject_names:
  assumes "file_name a" "file_name b" "a \<noteq> b"
  shows "Join [d, a] \<noteq> Join [e, b]"
proof
  assume eq: "Join [d, a] = Join [e, b]"
  have l: "last (split_on CHR ''/'' (Join [d, n])) = n" if n: "file_name n" for d n
  proof -
    have ns: "\<forall>x \<in> set (path_parts d @ [n]). CHR ''/'' \<notin> set x"
      using n path_parts_no_slash [of _ d] by (auto simp: file_name_def)
    have j: "split_on CHR ''/'' (join ''/'' (path_parts d @ [n])) = path_parts d @ [n]"
      by (rule split_on_join) (use ns in simp_all)
    have n0: "split_on CHR ''/'' n = [n]" using n by (simp add: file_name_def split_on_no_sep)
    show ?thesis using n0 j by (auto simp: Join_name [OF n])
  qed
  from l [OF assms(1), of d] l [OF assms(2), of e] eq assms(3) show False by simp
qed

lemma kit_paths_differ: "kit_path k \<noteq> conf_path k"
  unfolding kit_path_def conf_path_def by (rule Join_inject_names) (simp_all add: file_name_def)

section \<open>The client's configuration\<close>

text \<open>How the client reads the file: a line is cut at its first equals sign, the last line of a key counts.\<close>

definition conf_get :: "string \<Rightarrow> string \<Rightarrow> string option" where
  "conf_get key t =
     foldl (\<lambda>acc l. case Cut CHR ''='' l of (k, v, ok) \<Rightarrow> if ok \<and> k = key then Some v else acc) None
       (split_on CHR 0x0A t)"

lemma set_join: "set (join sep xs) \<subseteq> set sep \<union> \<Union> (set ` set xs)"
  by (induction sep xs rule: join.induct) auto

definition conf_clean :: "HostSSLPolicy \<Rightarrow> bool" where
  "conf_clean p \<longleftrightarrow> CHR 0x0A \<notin> set (hp_Host p) \<union> set (hp_Pin p) \<union> set (hp_Verify p)"

lemma split_lines:
  "\<forall>l \<in> set ls. CHR 0x0A \<notin> set l \<Longrightarrow> split_on CHR 0x0A (concat (map line ls)) = ls @ [[]]"
  by (induction ls) (simp_all add: line_def split_on_append)

lemma conf_lines_clean:
  assumes "\<forall>p \<in> set ps. conf_clean p" "l \<in> set (conf_lines ps)"
  shows "CHR 0x0A \<notin> set l"
proof -
  have c: "CHR 0x0A \<notin> set (join '','' (map f (filter P ps)))"
    if "\<And>p. conf_clean p \<Longrightarrow> CHR 0x0A \<notin> set (f p)" for f and P
    using set_join [of "'',''" "map f (filter P ps)"] that assms(1) by fastforce
  have k: "CHR 0x0A \<notin> set (join '','' (map hp_Host (filter hp_Kit ps)))"
    "CHR 0x0A \<notin> set (join '','' (map hp_Host (filter hp_Impersonate ps)))"
    "CHR 0x0A \<notin> set (join '','' (map (\<lambda>p. hp_Host p @ ''='' @ hp_Pin p) (filter (\<lambda>p. hp_Pin p \<noteq> []) ps)))"
    "CHR 0x0A \<notin> set (join '','' (map (\<lambda>p. hp_Host p @ ''='' @ hp_Verify p) (filter (\<lambda>p. hp_Verify p \<noteq> []) ps)))"
    by (rule c; simp add: conf_clean_def)+
  show ?thesis using assms(2) k by (auto simp: conf_lines_def boolEnv_def Let_def split: if_splits)
qed

lemma Cut_key: "c \<notin> set k \<Longrightarrow> Cut c (k @ c # v) = (k, v, True)"
proof -
  assume "c \<notin> set k"
  then have "takeWhile (\<lambda>x. x \<noteq> c) (k @ c # v) = k" by (induction k) auto
  then show ?thesis by (simp add: Cut_def)
qed

lemma Cut_literal:
  "Cut c (x # s) = (if x = c then ([], s, True) else case Cut c s of (k, v, ok) \<Rightarrow> (x # k, v, ok))"
  by (auto simp: Cut_def Let_def)

lemma Cut_Nil: "Cut c [] = ([], [], False)"
  by (simp add: Cut_def)

lemma conf_get_values:
  assumes "\<forall>p \<in> set ps. conf_clean p"
  shows "conf_get ''SKYTAP_SSL_KIT_HOSTS'' (conf_text ps) = Some (join '','' (map hp_Host (filter hp_Kit ps)))"
    "conf_get ''SKYTAP_SSL_IMPERSONATE_HOSTS'' (conf_text ps) = Some (join '','' (map hp_Host (filter hp_Impersonate ps)))"
    "conf_get ''SKYTAP_SSL_IMPERSONATE'' (conf_text ps) = Some (boolEnv (filter hp_Impersonate ps \<noteq> []))"
    "conf_get ''SKYTAP_SSL_PROXY'' (conf_text ps) = Some ''http://skytap:8080''"
proof -
  have l: "split_on CHR 0x0A (conf_text ps) = conf_lines ps @ [[]]"
    unfolding conf_text_def using conf_lines_clean [OF assms] by (intro split_lines) blast
  show "conf_get ''SKYTAP_SSL_KIT_HOSTS'' (conf_text ps) = Some (join '','' (map hp_Host (filter hp_Kit ps)))"
    "conf_get ''SKYTAP_SSL_IMPERSONATE_HOSTS'' (conf_text ps) = Some (join '','' (map hp_Host (filter hp_Impersonate ps)))"
    "conf_get ''SKYTAP_SSL_IMPERSONATE'' (conf_text ps) = Some (boolEnv (filter hp_Impersonate ps \<noteq> []))"
    "conf_get ''SKYTAP_SSL_PROXY'' (conf_text ps) = Some ''http://skytap:8080''"
    unfolding conf_get_def l by (simp_all add: conf_lines_def Let_def Cut_literal Cut_Nil)
qed

section \<open>Properties\<close>

text \<open>
  Putting a policy stores it under its host in lower case without surrounding blanks, with the modes
  \<open>off\<close> and \<open>ca\<close> for those left empty; it is what every later look-up of any spelling of that host finds,
  impersonation is answered from it, a certificate captured before is kept when none is given and none can
  be read anew, and the policies of the other hosts stay as they are.
\<close>

theorem put_policy_effect:
  assumes "kit_Put u T ord s k p = (s', k', q)"
  shows "hp_Host q = norm_host u (hp_Host p)
    \<and> hp_Kit q = hp_Kit p \<and> hp_Impersonate q = hp_Impersonate p
    \<and> hp_Pin q = (if hp_Pin p = [] then ''off'' else hp_Pin p)
    \<and> hp_Verify q = (if hp_Verify p = [] then ''ca'' else hp_Verify p)
    \<and> (norm_host u h = hp_Host q \<longrightarrow>
         mget (kt_hosts k') (norm_host u h) = Some q \<and> ImpersonateEnabled u k' h = hp_Impersonate p)
    \<and> (h' \<noteq> hp_Host q \<longrightarrow> mget (kt_hosts k') h' = mget (kt_hosts k) h')
    \<and> (hp_SPKI p = [] \<and> ReadFile s (pem_path T (hp_Host q)) = None \<longrightarrow>
         hp_SPKI q = hp_SPKI (mgetd zero_policy (kt_hosts k) (hp_Host q)))"
proof -
  define p0 where "p0 = policy_defaults (p\<lparr>hp_Host := norm_host u (hp_Host p)\<rparr>)"
  define cur where "cur = mgetd zero_policy (kt_hosts k) (hp_Host p0)"
  define p1 where "p1 = (if hp_SPKI p0 = [] then p0\<lparr>hp_SPKI := hp_SPKI cur, hp_Subject := hp_Subject cur,
      hp_Issuer := hp_Issuer cur, hp_Captured := hp_Captured cur\<rparr> else p0)"
  obtain k1 where r: "refresh T s k p1 = (k1, q)" and k': "k' = k1\<lparr>kt_hosts := mput (hp_Host q) q (kt_hosts k1)\<rparr>"
    using assms unfolding kit_Put_def Let_def p0_def [symmetric] cur_def [symmetric] p1_def [symmetric]
    by (auto split: prod.splits)
  have f: "hp_Host p1 = norm_host u (hp_Host p)" "hp_Kit p1 = hp_Kit p" "hp_Impersonate p1 = hp_Impersonate p"
    "hp_Pin p1 = (if hp_Pin p = [] then ''off'' else hp_Pin p)"
    "hp_Verify p1 = (if hp_Verify p = [] then ''ca'' else hp_Verify p)"
    by (simp_all add: p1_def p0_def)
  note q = refresh_frame [OF r]
  have "h' \<noteq> hp_Host q \<Longrightarrow> mget (kt_hosts k') h' = mget (kt_hosts k) h'"
    using refresh_store [OF r] q by (auto simp: k')
  moreover have "hp_SPKI p = [] \<Longrightarrow> ReadFile s (pem_path T (hp_Host q)) = None \<Longrightarrow> hp_SPKI q = hp_SPKI cur"
    using r q by (auto simp: refresh_def p1_def p0_def split: if_splits)
  ultimately show ?thesis
    using q f by (simp add: k' ImpersonateEnabled_def cur_def p0_def)
qed

definition ex_tls :: tls_lib where
  "ex_tls = \<lparr>tl_dump_dir = ''/d'', tl_dump = (\<lambda>h d s. (s, None)), tl_cert = (\<lambda>b. NoBlock)\<rparr>"

definition ex_kit :: SSLKitStore where
  "ex_kit = \<lparr>kt_dataDir = ''/data'', kt_confDir = ''/certs'', kt_hosts = []\<rparr>"

lemma norm_ascii_simps: "norm_host ex_unicode '' A.test'' = ''a.test''" "norm_host ex_unicode ''a.TEST'' = ''a.test''"
  by (simp_all add: norm_host_def TrimSpace_ascii ToLower_ascii is_space_def char_lower_def ascii_lower_def char_of_def
      bit_Suc_0_iff)

theorem put_policy_effect_witness:
  "\<exists>s' k' q. kit_Put ex_unicode ex_tls rev ex_os ex_kit (zero_policy\<lparr>hp_Host := '' A.test'', hp_Impersonate := True\<rparr>) = (s', k', q)
     \<and> hp_Host q = ''a.test'' \<and> ImpersonateEnabled ex_unicode k' ''a.TEST''"
proof -
  obtain s' k' q where p: "kit_Put ex_unicode ex_tls rev ex_os ex_kit (zero_policy\<lparr>hp_Host := '' A.test'', hp_Impersonate := True\<rparr>) = (s', k', q)"
    using prod_cases3 by blast
  from put_policy_effect [OF p, of "''a.TEST''" "[]"] show ?thesis
    using p by (auto simp: norm_ascii_simps)
qed

text \<open>
  The configuration tells the client exactly what the store holds: reading it back gives the hosts with
  the kit, the hosts to impersonate and whether there is any, as long as no policy's text has a line break;
  a list of hosts without commas is split into exactly these hosts.
\<close>

theorem client_conf_lists_hosts:
  assumes "list_all conf_clean ps"
  shows "conf_get ''SKYTAP_SSL_KIT_HOSTS'' (conf_text ps) = Some (join '','' (map hp_Host (filter hp_Kit ps)))
    \<and> conf_get ''SKYTAP_SSL_IMPERSONATE_HOSTS'' (conf_text ps) = Some (join '','' (map hp_Host (filter hp_Impersonate ps)))
    \<and> conf_get ''SKYTAP_SSL_IMPERSONATE'' (conf_text ps) = Some (boolEnv (list_ex hp_Impersonate ps))
    \<and> (list_ex hp_Kit ps \<and> list_all (\<lambda>p. CHR '','' \<notin> set (hp_Host p)) ps \<longrightarrow>
         split_on CHR '','' (join '','' (map hp_Host (filter hp_Kit ps))) = map hp_Host (filter hp_Kit ps))"
proof -
  have c: "\<forall>p \<in> set ps. conf_clean p" using assms by (simp add: list_all_iff)
  have i: "filter hp_Impersonate ps \<noteq> [] \<longleftrightarrow> list_ex hp_Impersonate ps"
    by (auto simp: filter_empty_conv list_ex_iff)
  have "list_ex hp_Kit ps \<Longrightarrow> list_all (\<lambda>p. CHR '','' \<notin> set (hp_Host p)) ps \<Longrightarrow>
      split_on CHR '','' (join '','' (map hp_Host (filter hp_Kit ps))) = map hp_Host (filter hp_Kit ps)"
    by (rule split_on_join) (auto simp: list_ex_iff list_all_iff filter_empty_conv)
  with conf_get_values(1,2) [OF c] conf_get_values(3) [OF c, unfolded i] show ?thesis by blast
qed

theorem client_conf_lists_hosts_witness:
  "conf_get ''SKYTAP_SSL_KIT_HOSTS'' (conf_text
     [zero_policy\<lparr>hp_Host := ''a'', hp_Kit := True\<rparr>, zero_policy\<lparr>hp_Host := ''b''\<rparr>, zero_policy\<lparr>hp_Host := ''c'', hp_Kit := True\<rparr>])
     = Some ''a,c''"
  using client_conf_lists_hosts [of "[zero_policy\<lparr>hp_Host := ''a'', hp_Kit := True\<rparr>, zero_policy\<lparr>hp_Host := ''b''\<rparr>,
      zero_policy\<lparr>hp_Host := ''c'', hp_Kit := True\<rparr>]"]
  by (simp add: conf_clean_def zero_policy_def)

text \<open>
  The texts of a policy are written unescaped: a verification mode with a line break adds a line of its
  own to the configuration, which overrides the proxy that the client is told to use.
\<close>

theorem policy_can_inject_config:
  assumes "CHR 0x0A \<notin> set h" "CHR 0x0A \<notin> set v" "CHR 0x0A \<notin> set x" "v \<noteq> []"
  shows "conf_get ''SKYTAP_SSL_PROXY''
      (conf_text [zero_policy\<lparr>hp_Host := h, hp_Verify := v @ CHR 0x0A # ''SKYTAP_SSL_PROXY='' @ x\<rparr>]) = Some x"
proof -
  have "conf_text [zero_policy\<lparr>hp_Host := h, hp_Verify := v @ CHR 0x0A # ''SKYTAP_SSL_PROXY='' @ x\<rparr>] =
      concat (map line (butlast (conf_lines [zero_policy\<lparr>hp_Host := h, hp_Verify := v\<rparr>])))
      @ concat (map line [''SKYTAP_SSL_VERIFY_BY_HOST='' @ h @ ''='' @ v, ''SKYTAP_SSL_PROXY='' @ x])"
    using assms(4) by (simp add: conf_text_def conf_lines_def zero_policy_def line_def)
  also have "\<dots> = concat (map line (butlast (conf_lines [zero_policy\<lparr>hp_Host := h, hp_Verify := v\<rparr>])
      @ [''SKYTAP_SSL_VERIFY_BY_HOST='' @ h @ ''='' @ v, ''SKYTAP_SSL_PROXY='' @ x]))" by simp
  finally have t: "conf_text [zero_policy\<lparr>hp_Host := h, hp_Verify := v @ CHR 0x0A # ''SKYTAP_SSL_PROXY='' @ x\<rparr>] =
      concat (map line (butlast (conf_lines [zero_policy\<lparr>hp_Host := h, hp_Verify := v\<rparr>])
      @ [''SKYTAP_SSL_VERIFY_BY_HOST='' @ h @ ''='' @ v, ''SKYTAP_SSL_PROXY='' @ x]))" .
  have c: "\<forall>l \<in> set (butlast (conf_lines [zero_policy\<lparr>hp_Host := h, hp_Verify := v\<rparr>])
      @ [''SKYTAP_SSL_VERIFY_BY_HOST='' @ h @ ''='' @ v, ''SKYTAP_SSL_PROXY='' @ x]). CHR 0x0A \<notin> set l"
    using assms by (simp add: conf_lines_def zero_policy_def boolEnv_def)
  show ?thesis
    unfolding conf_get_def t split_lines [OF c]
    by (simp add: conf_lines_def zero_policy_def boolEnv_def Cut_literal Cut_Nil split: prod.splits)
qed

theorem policy_can_inject_config_witness:
  "conf_get ''SKYTAP_SSL_PROXY''
      (conf_text [zero_policy\<lparr>hp_Host := ''a'', hp_Verify := ''ca'' @ CHR 0x0A # ''SKYTAP_SSL_PROXY='' @ ''http://evil''\<rparr>])
     = Some ''http://evil''"
  by (rule policy_can_inject_config) simp_all

text \<open>
  C33: a restart restores the store: when the data directory works, a store opened on the files that
  \<open>Put\<close> left has, for every host, the policy that was there, including captured certificates.
\<close>

theorem kit_restart:
  assumes "kit_ok k" "kt_dataDir k \<noteq> []" "kit_Put u T ord s k p = (s', k', q)"
    and "list_all (\<lambda>(h, p). texts_ok (policy_json p) \<and> utf8_valid h) (kt_hosts k')"
    and "os_wfault s (kit_path k) = None" "\<not> os_unreadable s (kit_path k)"
    and "NewSSLKitStore L u ord' s' (kt_dataDir k) (kt_confDir k) = (s'', k'')"
  shows "mget (kt_hosts k'') h = mget (kt_hosts k') h \<and> kit_ok k''"
proof -
  have ok: "kit_ok k'" using kit_ok_Put [OF assms(1,3)] .
  have fr: "kt_dataDir k' = kt_dataDir k" "kt_confDir k' = kt_confDir k" and s': "s' = kit_persist ord s k'"
    using assms(3) by (auto simp: kit_Put_def Let_def split: prod.splits dest!: refresh_store)
  have path: "kit_path k' = kit_path k" "conf_path k' = conf_path k"
    using fr by (simp_all add: kit_path_def conf_path_def conf_dir_def)
  define s2 where "s2 = fst (WriteFile (fst (MkdirAll s (kt_dataDir k'))) (kit_path k') (kit_text k'))"
  have conf: "ReadFile (fst (writeClientConf ord s2 k')) (kit_path k) = ReadFile s2 (kit_path k)"
  proof -
    obtain s3 e where m: "MkdirAll s2 (conf_dir k') = (s3, e)" by fastforce
    have "ReadFile s3 (kit_path k) = ReadFile s2 (kit_path k)"
      using ReadFile_MkdirAll [of s2 "conf_dir k'" "kit_path k"] by (simp add: m)
    then show ?thesis
      using kit_paths_differ [of k] by (simp add: writeClientConf_def m path ReadFile_WriteFile_other split: option.splits)
  qed
  have "ReadFile s2 (kit_path k) = Some (kit_text k')"
    using assms(5,6) by (simp add: s2_def path WriteFile_ok) (simp add: ReadFile_def)
  moreover have "s' = fst (writeClientConf ord s2 k')"
    using assms(2) by (simp add: s' kit_persist_def s2_def fr Let_def)
  ultimately have r: "ReadFile s' (kit_path k) = Some (kit_text k')" using conf by simp
  have n: "nums_ok (obj_of policy_json (kt_hosts k'))" by (rule nums_ok_obj_of) (rule policy_json_good)
  have t: "texts_ok (obj_of policy_json (kt_hosts k'))"
    by (rule texts_ok_obj_of) (use assms(4) in \<open>auto simp: list_all_iff\<close>)
  have d: "depth (obj_of policy_json (kt_hosts k')) \<le> max_depth"
    by (rule depth_obj_of) (use policy_json_good(2) [THEN le_trans] in \<open>auto simp: max_depth_def\<close>)
  have m: "dec_map (dec_policy u) zero_policy (obj_of policy_json (kt_hosts k')) None = (Some (sort_key fst (kt_hosts k')), True)"
    using ok by (intro dec_map_obj_of) (simp_all add: kit_ok_def dec_policy_json)
  have "k'' = kit_load L u s' \<lparr>kt_dataDir = kt_dataDir k, kt_confDir = kt_confDir k, kt_hosts = []\<rparr>"
    using assms(7) by (simp add: NewSSLKitStore_def Let_def)
  also have "\<dots> = \<lparr>kt_dataDir = kt_dataDir k, kt_confDir = kt_confDir k, kt_hosts = sort_key fst (kt_hosts k')\<rparr>"
    using r parse_all_marshal(2) [OF n t d] m
    by (simp add: kit_load_def kit_path_def Unmarshal_def kit_text_def)
  finally have k'': "kt_hosts k'' = sort_key fst (kt_hosts k')" by simp
  then show ?thesis using ok by (simp add: kit_ok_def mget_sort mok_sort)
qed

lemma ex_put:
  "\<exists>s' q. kit_Put ex_unicode ex_tls rev ex_os ex_kit (zero_policy\<lparr>hp_Host := ''a.TEST''\<rparr>)
       = (s', ex_kit\<lparr>kt_hosts := [(''a.test'', q)]\<rparr>, q)
     \<and> q = zero_policy\<lparr>hp_Host := ''a.test'', hp_Pin := ''off'', hp_Verify := ''ca''\<rparr>"
  by (simp add: kit_Put_def policy_defaults_def Let_def norm_ascii_simps refresh_def ReadFile_def ex_tls_def ex_os_def
      ex_kit_def zero_policy_def mput_def split: prod.splits)

theorem kit_restart_witness:
  "\<exists>s' k' q s'' k''. kit_Put ex_unicode ex_tls rev ex_os ex_kit (zero_policy\<lparr>hp_Host := ''a.TEST''\<rparr>) = (s', k', q)
     \<and> NewSSLKitStore ex_lib ex_unicode rev s' ''/data'' ''/certs'' = (s'', k'') \<and> mget (kt_hosts k'') ''a.test'' = Some q"
proof -
  define q where "q = zero_policy\<lparr>hp_Host := ''a.test'', hp_Pin := ''off'', hp_Verify := ''ca''\<rparr>"
  obtain s' where p: "kit_Put ex_unicode ex_tls rev ex_os ex_kit (zero_policy\<lparr>hp_Host := ''a.TEST''\<rparr>)
      = (s', ex_kit\<lparr>kt_hosts := [(''a.test'', q)]\<rparr>, q)" using ex_put by (auto simp: q_def)
  obtain s'' k'' where n: "NewSSLKitStore ex_lib ex_unicode rev s' ''/data'' ''/certs'' = (s'', k'')" by fastforce
  have t: "texts_ok (policy_json q)"
    by (simp add: q_def zero_policy_def policy_json_def opt_str_def utf8_valid_ascii)
  have "mget (kt_hosts k'') ''a.test'' = mget (kt_hosts (ex_kit\<lparr>kt_hosts := [(''a.test'', q)]\<rparr>)) ''a.test'' \<and> kit_ok k''"
    by (rule kit_restart [OF _ _ p, of ex_lib rev s''])
      (use n t in \<open>simp_all add: kit_ok_def ex_kit_def ex_os_def utf8_valid_ascii\<close>)
  then show ?thesis using p n by (simp add: mget_Cons)
qed

end
