(* ===== verification/Admin_Facts.thy ===== *)
theory Admin_Facts
  imports Admin Sslkit_Facts
begin

text \<open>
  What the admin API guarantees: who may use it, what a request can change, that the invariants are kept and
  that every accepted change is on disk when the answer is sent.
\<close>

section \<open>The token\<close>

lemma fold_or_zero: "fold (\<lambda>i v. v OR f i) is a = (0 :: byte) \<longleftrightarrow> a = 0 \<and> (\<forall>i \<in> set is. f i = 0)"
  by (induction "is" arbitrary: a) (auto simp: or_eq_0_iff)

lemma xor_zero: "(x :: byte) XOR y = 0 \<longleftrightarrow> x = y"
proof
  assume z: "x XOR y = 0"
  have "x = (x XOR y) XOR y" by (simp add: xor.assoc)
  also have "\<dots> = 0 XOR y" by (simp only: z)
  finally show "x = y" by simp
qed simp

lemma ct_compare_iff: "ct_compare x y \<longleftrightarrow> x = y"
proof (cases "length x = length y")
  case True
  have "ct_compare x y \<longleftrightarrow> (\<forall>i \<in> set [0..<length x]. x ! i XOR y ! i = 0)"
    unfolding ct_compare_def using True fold_or_zero [of "\<lambda>i. x ! i XOR y ! i" "[0..<length x]" 0] by simp
  also have "\<dots> \<longleftrightarrow> (\<forall>i < length x. x ! i = y ! i)" by (auto simp only: xor_zero set_upt atLeastLessThan_iff)
  also have "\<dots> \<longleftrightarrow> x = y" using True by (simp only: list_eq_iff_nth_eq simp_thms)
  finally show ?thesis .
qed (auto simp: ct_compare_def)

lemma bytes_of_inject: "bytes_of s = bytes_of t \<longleftrightarrow> s = t"
  by (metis text_of_bytes_of)

lemma tokenOK_iff: "tokenOK got token \<longleftrightarrow> token \<noteq> [] \<and> got = token"
  unfolding tokenOK_def ct_compare_iff bytes_of_inject by auto

text \<open>The text that a request offers as its token.\<close>

definition credential :: "request \<Rightarrow> string" where
  "credential r =
     (if req_Path r = ''/ws'' then query_get r ''token''
      else TrimPrefix (Header_Get (req_Header r) ''Authorization'') ''Bearer '')"

definition unauthorized :: "request \<Rightarrow> reply" where
  "unauthorized r =
     http_Error ''unauthorized'' 401
       (if req_Path r = ''/ws'' then new_reply else reply_set ''WWW-Authenticate'' ''Bearer'' new_reply)"

definition may_use :: "admin_conf \<Rightarrow> request \<Rightarrow> bool" where
  "may_use C r \<longleftrightarrow> ac_token C = [] \<or> public_path (req_Path r) \<or> credential r = ac_token C"

lemma adminMux_access:
  "adminMux E C s r = (if may_use C r then mux E C s r else (s, Answer (unauthorized r)))"
proof (cases "ac_token C = [] \<or> public_path (req_Path r)")
  case True
  then show ?thesis unfolding adminMux_def may_use_def by (cases "ac_token C = []") simp_all
next
  case False
  then show ?thesis
    unfolding adminMux_def tokenOK_iff may_use_def credential_def unauthorized_def
    by (cases "req_Path r = ''/ws''"; simp only: if_True if_False simp_thms de_Morgan_disj not_not if_cancel split: if_split; blast)
qed

lemma unauthorized_reply: "rp_Status (unauthorized r) = 401" "rp_Body (unauthorized r) = ''unauthorized'' @ [CHR 0x0A]"
  by (simp_all add: unauthorized_def http_Error_def)

section \<open>What the handlers change\<close>

lemma server_simps [simp]:
  "sv_reg (set_reg x s) = x" "sv_rules (set_reg x s) = sv_rules s" "sv_os (set_reg x s) = sv_os s"
  "sv_reg (set_rules e s) = sv_reg s" "sv_rules (set_rules e s) = e" "sv_os (set_rules e s) = sv_os s"
  "sv_reg (set_kit k s) = sv_reg s" "sv_rules (set_kit k s) = sv_rules s" "sv_os (set_kit k s) = sv_os s"
  "sv_reg (set_hub h s) = sv_reg s" "sv_rules (set_hub h s) = sv_rules s" "sv_os (set_hub h s) = sv_os s"
  "sv_app (save E C s) = sv_app s"
  "sv_os (save E C s) = fst (savePersist (ae_ord E) (sv_os s) (ac_dataDir C) (sv_reg s) (sv_rules s))"
  "ap_hub (sv_app (set_reg x s)) = ap_hub (sv_app s)" "ap_kit (sv_app (set_reg x s)) = ap_kit (sv_app s)"
  "ap_hub (sv_app (set_rules e s)) = ap_hub (sv_app s)" "ap_kit (sv_app (set_rules e s)) = ap_kit (sv_app s)"
  "ap_hub (sv_app (set_kit k s)) = ap_hub (sv_app s)" "ap_kit (sv_app (set_kit k s)) = Some k"
  "ap_hub (sv_app (set_hub h s)) = Some h" "ap_kit (sv_app (set_hub h s)) = ap_kit (sv_app s)"
  by (simp_all add: set_reg_def set_rules_def set_kit_def set_hub_def save_def)

text \<open>The steps a request can make on registry and rules, with the saving that goes with them.\<close>

inductive admin_effect :: "admin_env \<Rightarrow> admin_conf \<Rightarrow> string \<Rightarrow> server \<Rightarrow> server \<Rightarrow> bool" for E C p s where
  keep: "sv_reg s' = sv_reg s \<Longrightarrow> sv_rules s' = sv_rules s \<Longrightarrow> admin_effect E C p s s'"
| delete_host: "admin_effect E C p s (save E C (set_reg (DeleteHost (sv_reg s) h) s))"
| reset: "admin_effect E C p s (save E C (set_reg (Reset (sv_reg s)) s))"
| clear: "admin_effect E C p s (save E C (set_reg (ClearFlows (sv_reg s) h) s))"
| set_state: "p = ''/state'' \<Longrightarrow> st \<in> {StateObserved, StateIntercepted, StateMocked} \<Longrightarrow>
    admin_effect E C p s (save E C (set_reg (SetState (sv_reg s) h st) s))"
| mcp_state: "p = ''/mcp'' \<Longrightarrow> admin_effect E C p s (save E C (set_reg (SetState (sv_reg s) h st) s))"
| delete_rule: "admin_effect E C p s (save E C (set_rules (fst (Delete (sv_rules s) i)) s))"
| add_rule: "admin_effect E C p s (save E C (set_rules (fst (Add (ae_rnd E) (sv_rules s) q)) s))"

inductive_cases admin_effectE: "admin_effect E C p s s'"

lemma Delete_absent: "Delete e i = (e', False) \<Longrightarrow> e' = e"
  by (auto simp: Delete_eq_filter filter_id_conv intro: rule_engine.equality)

lemma callTool_state:
  "fst (callTool L u ord rnd dataDir s name args) = s
   \<or> (\<exists>h st. fst (callTool L u ord rnd dataDir s name args) = save_tools ord dataDir (s\<lparr>ts_reg := SetState (ts_reg s) h st\<rparr>))
   \<or> (\<exists>q. fst (callTool L u ord rnd dataDir s name args) = save_tools ord dataDir (s\<lparr>ts_rules := fst (Add rnd (ts_rules s) q)\<rparr>))"
proof -
  consider "name = ''set_state''" | "name = ''add_rule''" | "name \<noteq> ''set_state''" "name \<noteq> ''add_rule''" by blast
  then show ?thesis
  proof cases
    case 1
    then show ?thesis by (auto simp: callTool_def Let_def)
  next
    case 2
    then show ?thesis by (auto simp: callTool_def Let_def)
  next
    case 3
    then have "fst (callTool L u ord rnd dataDir s name args) = s" by (simp add: callTool_def Let_def)
    then show ?thesis by blast
  qed
qed

lemma mcpHandler_state:
  "fst (mcpHandler L u ord rnd dataDir s b) = s
   \<or> (\<exists>name args. fst (mcpHandler L u ord rnd dataDir s b) = fst (callTool L u ord rnd dataDir s name args))"
proof (cases b)
  case (Inr raw)
  obtain req e where q: "Unmarshal L ''rpcReq'' (dec_rpcReq L u) zero_rpcReq raw = (req, e)" by fastforce
  have "fst (handle_method L u ord rnd dataDir s req) = s
      \<or> (\<exists>name args. fst (handle_method L u ord rnd dataDir s req) = fst (callTool L u ord rnd dataDir s name args))"
  proof (cases "tool_call L u (rq_Params req)")
    case (Inr tc)
    then have "fst (handle_method L u ord rnd dataDir s req) = s
        \<or> fst (handle_method L u ord rnd dataDir s req) = fst (callTool L u ord rnd dataDir s (tc_Name tc) (tc_Arguments tc))"
      by (cases "callTool L u ord rnd dataDir s (tc_Name tc) (tc_Arguments tc)"; cases "snd (callTool L u ord rnd dataDir s (tc_Name tc) (tc_Arguments tc))")
        (auto simp: handle_method_def Let_def)
    then show ?thesis by blast
  qed (simp add: handle_method_def Let_def)
  moreover have "fst (mcpHandler L u ord rnd dataDir s b) = (if e = None then fst (handle_method L u ord rnd dataDir s req) else s)"
    by (auto simp: Inr mcpHandler_def handleRPC_def q split: prod.splits option.splits)
  ultimately show ?thesis by auto
qed (simp add: mcpHandler_def)

definition rejoin :: "server \<Rightarrow> tool_state \<Rightarrow> server" where
  "rejoin s t = set_rules (ts_rules t) (set_reg (ts_reg t) (s\<lparr>sv_os := ts_os t\<rparr>))"

definition split_off :: "server \<Rightarrow> tool_state" where
  "split_off s = \<lparr>ts_os = sv_os s, ts_reg = sv_reg s, ts_rules = sv_rules s\<rparr>"

lemma rejoin_simps:
  "rejoin s (split_off s) = s"
  "rejoin s (save_tools (ae_ord E) (ac_dataDir C) (split_off s\<lparr>ts_reg := x\<rparr>)) = save E C (set_reg x s)"
  "rejoin s (save_tools (ae_ord E) (ac_dataDir C) (split_off s\<lparr>ts_rules := e\<rparr>)) = save E C (set_rules e s)"
  "ts_reg (split_off s) = sv_reg s" "ts_rules (split_off s) = sv_rules s"
  by (simp_all add: rejoin_def split_off_def set_rules_def set_reg_def save_tools_def save_def)

lemma mcp_effect:
  assumes "h_mcp E C s r = (s', a)"
  shows "admin_effect E C ''/mcp'' s s'"
proof -
  define b where "b = (case ae_bodyerr E of Some err \<Rightarrow> Inl err | None \<Rightarrow> Inr (body_text r))"
  have s': "s' = rejoin s (fst (mcpHandler (ae_L E) (ae_u E) (ae_ord E) (ae_rnd E) (ac_dataDir C) (split_off s) b))"
    using assms by (auto simp: h_mcp_def rejoin_def split_off_def b_def split: prod.splits)
  consider "s' = s" | h st where "s' = save E C (set_reg (SetState (sv_reg s) h st) s)"
    | q where "s' = save E C (set_rules (fst (Add (ae_rnd E) (sv_rules s) q)) s)"
    using mcpHandler_state [of "ae_L E" "ae_u E" "ae_ord E" "ae_rnd E" "ac_dataDir C" "split_off s" b]
      callTool_state [of "ae_L E" "ae_u E" "ae_ord E" "ae_rnd E" "ac_dataDir C" "split_off s"]
    unfolding s' by (metis rejoin_simps)
  then show ?thesis by cases (auto intro: admin_effect.intros)
qed

text \<open>Every request is one of these steps, on every route; only \<open>/state\<close> and \<open>/mcp\<close> set a state.\<close>

lemma route_effects:
  assumes "(p, h) \<in> set routes" "h E C s r = (s', a)"
  shows "admin_effect E C p s s'"
proof -
  have k: "sv_reg s' = sv_reg s \<Longrightarrow> sv_rules s' = sv_rules s \<Longrightarrow> admin_effect E C p s s'" by (rule admin_effect.keep)
  consider "h = h_domains" | "h = h_history" | "h = h_state" "p = ''/state''" | "h = h_rules" | "h = h_mcp" "p = ''/mcp''"
    | "h \<in> {h_flows, h_ca_pem, h_ca_status, h_ca_trust, h_sslkit, h_capture, h_pin_bypass, h_meta, h_ws}"
    using assms(1) by (auto simp: routes_def)
  then show ?thesis
  proof cases
    case 1
    then show ?thesis using assms(2) by (auto simp: h_domains_def Let_def intro: admin_effect.intros split: if_splits)
  next
    case 2
    then show ?thesis using assms(2) by (auto simp: h_history_def Let_def intro: admin_effect.intros split: if_splits)
  next
    case 3
    then show ?thesis using assms(2) by (auto simp: h_state_def Let_def intro: admin_effect.intros split: if_splits)
  next
    case 4
    then show ?thesis
      using assms(2) Delete_absent [of "sv_rules s"] admin_effect.delete_rule [of E C p s "query_get r ''id''"]
        admin_effect.add_rule [of E C p s]
      by (auto simp: h_rules_def Let_def intro: admin_effect.keep split: if_splits prod.splits option.splits)
        (metis fst_conv)+
  next
    case 5
    then show ?thesis using assms(2) mcp_effect by simp
  next
    case 6
    then have "sv_reg s' = sv_reg s \<and> sv_rules s' = sv_rules s"
      using assms(2)
      by (auto simp: h_flows_def h_ca_pem_def h_ca_status_def h_ca_trust_def h_sslkit_def h_capture_def h_pin_bypass_def
          h_meta_def h_ws_def Let_def SetPinBypass_def split: if_splits option.splits prod.splits sum.splits ws_start.splits)
    then show ?thesis using k by blast
  qed
qed

lemma root_state: "fst (h_root E C s r) = s"
  by (simp add: h_root_def split: sum.splits)

lemma mux_cases:
  obtains "fst (mux E C s r) = s"
    | h where "(req_Path r, h) \<in> set routes" "mux E C s r = h E C s r"
proof (cases "req_Method r \<noteq> ''CONNECT'' \<and> cleanPath (req_Path r) \<noteq> req_Path r")
  case True
  then show ?thesis using that(1) by (simp add: mux_def)
next
  case False
  then have m: "mux E C s r = (case map_of routes (req_Path r) of Some h \<Rightarrow> h E C s r | None \<Rightarrow> h_root E C s r)"
    unfolding mux_def by (simp only: if_False)
  show ?thesis
  proof (cases "map_of routes (req_Path r)")
    case None
    then show ?thesis using m root_state [of E C s r] by (intro that(1)) simp
  next
    case (Some h)
    then show ?thesis using m map_of_SomeD [OF Some] by (intro that(2) [of h]) simp_all
  qed
qed

lemma admin_step:
  assumes "adminMux E C s r = (s', a)"
  shows "admin_effect E C (req_Path r) s s'"
proof (cases "may_use C r")
  case True
  then have m: "mux E C s r = (s', a)" using assms by (simp add: adminMux_access)
  show ?thesis
  proof (cases rule: mux_cases [of E C s r])
    case 1
    then show ?thesis using m by (auto intro: admin_effect.keep)
  next
    case (2 h)
    then show ?thesis using m route_effects [of "req_Path r" h E C s r s' a] by simp
  qed
qed (use assms in \<open>auto simp: adminMux_access intro: admin_effect.keep\<close>)

section \<open>Invariants\<close>

lemma app_ok_iff:
  "app_ok a \<longleftrightarrow> registry_ok (ap_reg a) \<and> engine_ok (ap_rules a) \<and> (\<forall>h. ap_hub a = Some h \<longrightarrow> hub_ok h)
     \<and> (\<forall>k. ap_kit a = Some k \<longrightarrow> mok (kt_hosts k))"
  by (auto simp: app_ok_def split: option.splits)

lemma effect_ok:
  assumes "admin_effect E C p s s'" "is_entropy (ae_rnd E)" "registry_ok (sv_reg s)" "engine_ok (sv_rules s)"
  shows "registry_ok (sv_reg s') \<and> engine_ok (sv_rules s')"
  using assms
  by (cases rule: admin_effect.cases)
    (simp_all add: ok_DeleteHost ok_Reset ok_ClearFlows ok_SetState engine_ok_Delete engine_ok_Add)

lemma mok_refresh: "mok (kt_hosts k) \<Longrightarrow> refresh T s k p = (k', p') \<Longrightarrow> mok (kt_hosts k')"
  using refresh_store [of T s k p k' p'] by auto

lemma mok_all_loop: "mok (kt_hosts k) \<Longrightarrow> all_loop T s k hs = (k', ps) \<Longrightarrow> mok (kt_hosts k')"
  by (induction hs arbitrary: k ps) (auto dest: mok_refresh split: prod.splits)

lemma kit_calls_mok:
  assumes "mok (kt_hosts k)"
  shows "kit_Get u T s k host = (k', p) \<Longrightarrow> mok (kt_hosts k')" "kit_All T ord s k = (k', ps) \<Longrightarrow> mok (kt_hosts k')"
    "kit_Put u T ord s k q = (os', k', p) \<Longrightarrow> mok (kt_hosts k')"
    "kit_Capture u T ord s k host dst = (os', k', res) \<Longrightarrow> mok (kt_hosts k')"
  using assms
  by (auto simp: kit_Get_def kit_All_def kit_Put_def kit_Capture_def Let_def dest: mok_refresh mok_all_loop
      split: option.splits prod.splits if_splits)

lemma route_hub:
  assumes "(p, h) \<in> set routes" "h E C s r = (s', a)" "\<And>x. ap_hub (sv_app s) = Some x \<Longrightarrow> hub_ok x"
    and "ap_hub (sv_app s') = Some y"
  shows "hub_ok y"
proof -
  have "h = h_ws \<or> ap_hub (sv_app s') = ap_hub (sv_app s)"
    using assms(1,2)
    by (auto simp: routes_def)
      (auto simp: h_flows_def h_ca_pem_def h_ca_status_def h_ca_trust_def h_sslkit_def h_capture_def h_pin_bypass_def
          h_meta_def h_domains_def h_history_def h_state_def h_rules_def h_mcp_def save_def Let_def SetPinBypass_def
          set_reg_def set_rules_def set_kit_def
          split: if_splits option.splits prod.splits sum.splits)
  then show ?thesis
  proof
    assume "h = h_ws"
    then show ?thesis
      using assms(2-4) hub_ok_ops(4,5)
      by (auto simp: h_ws_def split: option.splits prod.splits ws_start.splits) (metis fst_conv)+
  qed (use assms(3,4) in auto)
qed

lemma sslkit_kit:
  assumes "the_kit C s = Some k" "mok (kt_hosts k)" "h_sslkit E C s r = (s', a)"
  shows "ap_kit (sv_app s') = ap_kit (sv_app s) \<or> (\<exists>k'. ap_kit (sv_app s') = Some k' \<and> mok (kt_hosts k'))"
proof (cases "req_Method r = ''POST''")
  case True
  obtain p e where d: "Decode (ae_L E) ''HostSSLPolicy'' (\<lambda>v. dec_policy (ae_u E) v zero_policy) zero_policy (body_text r) = (p, e)"
    by fastforce
  obtain os k' p' where k: "kit_Put (ae_u E) (ae_tls E) (ae_ord E) (sv_os s) k p = (os, k', p')" by (metis prod_cases3)
  have "s' = s \<or> s' = set_kit k' (s\<lparr>sv_os := os\<rparr>)"
    using assms(3) by (cases e; cases "hp_Host p = []") (auto simp: h_sslkit_def assms(1) True d k)
  then show ?thesis using kit_calls_mok(3) [OF assms(2) k] by auto
next
  case False
  obtain k1 p1 where g: "kit_Get (ae_u E) (ae_tls E) (sv_os s) k (query_get r ''host'') = (k1, p1)" by fastforce
  obtain k2 ps where l: "kit_All (ae_tls E) (ae_ord E) (sv_os s) k = (k2, ps)" by fastforce
  have "s' = set_kit k1 s \<or> s' = set_kit k2 s"
    using assms(3) False by (cases "query_get r ''host'' = []") (auto simp: h_sslkit_def assms(1) g l)
  then show ?thesis using kit_calls_mok(1) [OF assms(2) g] kit_calls_mok(2) [OF assms(2) l] by auto
qed

lemma capture_kit:
  assumes "the_kit C s = Some k" "mok (kt_hosts k)" "h_capture E C s r = (s', a)"
  shows "ap_kit (sv_app s') = ap_kit (sv_app s) \<or> (\<exists>k'. ap_kit (sv_app s') = Some k' \<and> mok (kt_hosts k'))"
proof (cases "req_Method r = ''POST''")
  case True
  obtain b ok where d: "Decode (ae_L E) ''capture''
      (\<lambda>v. dec_struct (ae_u E) [''host'', ''dst''] set_capture_field v ([], [])) ([], []) (body_text r) = (b, ok)" by fastforce
  define host where "host = (if fst b = [] then query_get r ''host'' else fst b)"
  obtain os k' res where k: "kit_Capture (ae_u E) (ae_tls E) (ae_ord E) (sv_os s) k host (snd b) = (os, k', res)"
    by (metis prod_cases3)
  have "s' = set_kit k' (s\<lparr>sv_os := os\<rparr>)"
    using assms(3) by (cases res) (auto simp: h_capture_def assms(1) True d host_def [symmetric] k)
  then show ?thesis using kit_calls_mok(4) [OF assms(2) k] by auto
qed (use assms(3) in \<open>simp add: h_capture_def\<close>)

lemma route_kit:
  assumes "(p, h) \<in> set routes" "h E C s r = (s', a)" "\<And>k. ap_kit (sv_app s) = Some k \<Longrightarrow> mok (kt_hosts k)"
    and "ap_kit (sv_app s') = Some k'"
  shows "mok (kt_hosts k')"
proof -
  have "h = h_sslkit \<or> h = h_capture \<or> ap_kit (sv_app s') = ap_kit (sv_app s)"
    using assms(1,2)
    by (auto simp: routes_def)
      (auto simp: h_flows_def h_ca_pem_def h_ca_status_def h_ca_trust_def h_pin_bypass_def h_ws_def
          h_meta_def h_domains_def h_history_def h_state_def h_rules_def h_mcp_def save_def Let_def SetPinBypass_def
          set_reg_def set_rules_def set_hub_def
          split: if_splits option.splits prod.splits sum.splits ws_start.splits)
  then show ?thesis
  proof (elim disjE)
    assume h: "h = h_sslkit"
    show ?thesis
    proof (cases "the_kit C s")
      case None
      then show ?thesis using assms(2-4) by (auto simp: h h_sslkit_def)
    next
      case (Some k)
      then have "mok (kt_hosts k)" using assms(3) by (auto simp: the_kit_def split: if_splits)
      then show ?thesis
        using sslkit_kit [OF Some _ assms(2) [unfolded h]] assms(3,4) by auto
    qed
  next
    assume h: "h = h_capture"
    show ?thesis
    proof (cases "the_kit C s")
      case None
      then show ?thesis using assms(2-4) by (auto simp: h h_capture_def split: if_splits)
    next
      case (Some k)
      then have "mok (kt_hosts k)" using assms(3) by (auto simp: the_kit_def split: if_splits)
      then show ?thesis
        using capture_kit [OF Some _ assms(2) [unfolded h]] assms(3,4) by auto
    qed
  qed (use assms(3,4) in auto)
qed

lemma app_ok_adminMux:
  assumes "app_ok (sv_app s)" "is_entropy (ae_rnd E)" "adminMux E C s r = (s', a)"
  shows "app_ok (sv_app s')"
proof -
  note ok = assms(1) [unfolded app_ok_iff]
  have "registry_ok (sv_reg s') \<and> engine_ok (sv_rules s')"
    using effect_ok [OF admin_step [OF assms(3)] assms(2)] ok by blast
  moreover have "(\<forall>h. ap_hub (sv_app s') = Some h \<longrightarrow> hub_ok h) \<and> (\<forall>k. ap_kit (sv_app s') = Some k \<longrightarrow> mok (kt_hosts k))"
  proof (cases "may_use C r")
    case True
    then have m: "mux E C s r = (s', a)" using assms(3) by (simp add: adminMux_access)
    show ?thesis
    proof (cases rule: mux_cases [of E C s r])
      case 1
      then show ?thesis using m ok by auto
    next
      case (2 h)
      then show ?thesis using m ok route_hub [OF 2(1)] route_kit [OF 2(1)] by metis
    qed
  qed (use assms(3) ok in \<open>auto simp: adminMux_access\<close>)
  ultimately show ?thesis by (simp add: app_ok_iff)
qed

section \<open>Properties\<close>

text \<open>
  C17: the token guards the API: when a token is configured, a request outside the four public paths that
  does not offer exactly this token is answered 401 and changes nothing; on a public path other than
  \<open>/pin-bypass\<close> nothing changes either, with any credential and any method.
\<close>

theorem admin_needs_token:
  assumes "ac_token C \<noteq> []" "credential r \<noteq> ac_token C" "req_Path r \<noteq> ''/pin-bypass''"
  shows "\<exists>w. adminMux E C s r = (s, w)
    \<and> (\<not> public_path (req_Path r) \<longrightarrow> (\<exists>rep. w = Answer rep \<and> rp_Status rep = 401 \<and> rp_Body rep = ''unauthorized'' @ [CHR 0x0A]))"
proof (cases "public_path (req_Path r)")
  case False
  then show ?thesis using assms(1,2) by (simp add: adminMux_access may_use_def unauthorized_reply)
next
  case True
  then have "adminMux E C s r = mux E C s r" by (simp add: adminMux_access may_use_def)
  moreover have "fst (mux E C s r) = s"
  proof (cases rule: mux_cases [of E C s r])
    case (2 h)
    then have "h = h_meta" using True assms(3) by (auto simp: public_path_def routes_def)
    then show ?thesis using 2(2) by (simp add: h_meta_def)
  qed
  ultimately show ?thesis using True by (metis prod.collapse)
qed

definition ex_admin_env :: admin_env where
  "ex_admin_env = \<lparr>ae_L = ex_lib, ae_u = ex_unicode, ae_tls = ex_tls, ae_ord = id, ae_rnd = (\<lambda>i. replicate 8 0), ae_conn = 0,
     ae_hijack = None, ae_bodyerr = None, ae_index = Inr ''<html>'', ae_files = (\<lambda>r. new_reply), ae_moved = (\<lambda>r p. new_reply)\<rparr>"

definition ex_admin_conf :: admin_conf where
  "ex_admin_conf = \<lparr>ac_dataDir = ''/data'', ac_token = ''secret'', ac_caPEM = ex_pem, ac_bind = ''0.0.0.0:8080'', ac_hasApp = True\<rparr>"

definition ex_server :: server where
  "ex_server = \<lparr>sv_os = ex_os, sv_app = ex_app\<rparr>"

definition ex_get :: "string \<Rightarrow> request" where
  "ex_get p = ex_request\<lparr>req_Method := ''GET'', req_Path := p, req_RawQuery := [], req_Header := []\<rparr>"

definition ex_mock_request :: request where
  "ex_mock_request = (ex_get ''/state'')\<lparr>req_RawQuery := ''host=a&state=MOCKED''\<rparr>"

definition ex_open_conf :: admin_conf where
  "ex_open_conf = ex_admin_conf\<lparr>ac_token := []\<rparr>"

theorem admin_needs_token_witness:
  "\<exists>rep. adminMux ex_admin_env ex_admin_conf ex_server (ex_get ''/rules'') = (ex_server, Answer rep) \<and> rp_Status rep = 401"
proof -
  have "credential (ex_get ''/rules'') \<noteq> ac_token ex_admin_conf"
    by (simp add: credential_def ex_get_def ex_admin_conf_def Header_Get_def TrimPrefix_def HasPrefix_def)
  from admin_needs_token [OF _ this, of ex_admin_env ex_server] show ?thesis
    by (auto simp: ex_admin_conf_def ex_get_def public_path_def)
qed

text \<open>
  What is public does not depend on the token: two servers that differ in their (non-empty) tokens only
  answer a request for a public path alike, and change alike.
\<close>

theorem public_answers_hide_token:
  assumes "t \<noteq> []" "t' \<noteq> []" "public_path (req_Path r)"
  shows "adminMux E (C\<lparr>ac_token := t\<rparr>) s r = adminMux E (C\<lparr>ac_token := t'\<rparr>) s r"
proof -
  have m: "adminMux E (C\<lparr>ac_token := x\<rparr>) s r = mux E (C\<lparr>ac_token := x\<rparr>) s r" for x
    using assms(3) by (simp add: adminMux_access may_use_def)
  consider "map_of routes (req_Path r) = Some h_meta" | "map_of routes (req_Path r) = Some h_pin_bypass"
    | "map_of routes (req_Path r) = None"
    using assms(3) by (auto simp: public_path_def routes_def)
  then show ?thesis
    unfolding m mux_def using assms(1,2) by cases (simp_all add: h_meta_def h_pin_bypass_def h_root_def)
qed

theorem public_answers_hide_token_witness:
  "adminMux ex_admin_env (ex_admin_conf\<lparr>ac_token := ''a''\<rparr>) ex_server (ex_get ''/meta'')
     = adminMux ex_admin_env (ex_admin_conf\<lparr>ac_token := ''b''\<rparr>) ex_server (ex_get ''/meta'')"
  by (rule public_answers_hide_token) (simp_all add: ex_get_def public_path_def)

text \<open>
  C38: \<open>/pin-bypass\<close> is the exception: without any credential, a POST to it sets the flag to the value in its
  body (false when the body has none), although the flag decides how certificates are checked.
\<close>

theorem pin_bypass_needs_no_token:
  assumes "ac_hasApp C" "req_Path r = ''/pin-bypass''" "req_Method r = ''POST''"
    and "req_Body r = Some (marshal (JObj [(''enabled'', JBool v)]))"
  shows "PinBypass (sv_app (fst (adminMux E C s r))) = v"
proof -
  have "cleanPath ''/pin-bypass'' = ''/pin-bypass''"
    by (simp add: cleanPath_def Clean_def HasPrefix_def path_parts_def path_step_def)
  then have "adminMux E C s r = h_pin_bypass E C s r"
    using assms(2) by (simp add: adminMux_access may_use_def public_path_def mux_def routes_def)
  moreover have "decode_first (marshal (JObj [(''enabled'', JBool v)])) = Some (JObj [(''enabled'', JBool v)], [])"
    using parse_pr [of "JObj [(''enabled'', JBool v)]" "[]" False 0]
    by (simp add: marshal_def max_depth_def sanitize_ascii del: clean.simps(2))
  then have "Decode (ae_L E) ''enabled'' (\<lambda>v. dec_struct (ae_u E) [''enabled''] set_enabled_field v False) False (body_text r)
      = (v, None)"
    by (simp add: assms(4) Decode_def dec_struct_def dec_members_def dec_member_def field_name_def set_enabled_field_def dec_bool_def)
  ultimately show ?thesis
    using assms(1,3) by (auto simp: h_pin_bypass_def Let_def SetPinBypass_def PinBypass_def split: prod.splits)
qed

theorem pin_bypass_needs_no_token_witness:
  "PinBypass (sv_app (fst (adminMux ex_admin_env ex_admin_conf ex_server
     ((ex_get ''/pin-bypass'')\<lparr>req_Method := ''POST'', req_Body := Some (marshal (JObj [(''enabled'', JBool True)]))\<rparr>)))) = True"
  by (rule pin_bypass_needs_no_token) (simp_all add: ex_admin_conf_def ex_get_def)

definition states_valid :: "registry \<Rightarrow> bool" where
  "states_valid reg \<longleftrightarrow> (\<forall>h st. mget (states reg) h = Some st \<longrightarrow> st \<in> {StateObserved, StateIntercepted, StateMocked})"

text \<open>
  The admin API, MCP aside, keeps the states of all hosts within OBSERVED, INTERCEPTED and MOCKED.
\<close>

theorem admin_keeps_states_valid:
  assumes "states_valid (sv_reg s)" "req_Path r \<noteq> ''/mcp''" "adminMux E C s r = (s', a)"
  shows "states_valid (sv_reg s')"
proof -
  show ?thesis
    using admin_step [OF assms(3)] assms(1,2)
    by (cases rule: admin_effect.cases)
      (auto simp: states_valid_def DeleteHost_def Reset_def ClearFlows_def SetState_def split: if_splits)
qed

theorem admin_keeps_states_valid_witness:
  "states_valid (sv_reg (fst (adminMux ex_admin_env ex_open_conf ex_server ex_mock_request)))"
proof -
  obtain s' a where m: "adminMux ex_admin_env ex_open_conf ex_server ex_mock_request = (s', a)" by fastforce
  have "states_valid (sv_reg ex_server)" by (simp add: states_valid_def ex_server_def ex_app_def NewRegistry_def)
  moreover have "req_Path ex_mock_request \<noteq> ''/mcp''" by (simp add: ex_mock_request_def ex_get_def)
  ultimately show ?thesis using admin_keeps_states_valid [OF _ _ m] by (simp add: m)
qed

text \<open>
  C4: an accepted change is durable: when a request changes a state or a rule and the data directory works,
  a process started afterwards on the same files has exactly the states and the rules that the server has.
\<close>

theorem accepted_changes_survive:
  assumes "app_ok (sv_app s)" "is_entropy (ae_rnd E)" "adminMux E C s r = (s', a)"
    and "states (sv_reg s') \<noteq> states (sv_reg s) \<or> sv_rules s' \<noteq> sv_rules s"
    and "storable (sv_reg s') (sv_rules s')" "is_map_order (ae_ord E)" "is_map_order ord"
    and "\<not> os_dfault (sv_os s) (ac_dataDir C)" "os_wfault (sv_os s) (state_path (ac_dataDir C)) = None"
    and "os_wfault (sv_os s) (rules_path (ac_dataDir C)) = None"
    and "\<not> os_unreadable (sv_os s) (state_path (ac_dataDir C))" "\<not> os_unreadable (sv_os s) (rules_path (ac_dataDir C))"
    and "loadPersist L u ord rnd (sv_os s') (ac_dataDir C) NewRegistry NewRuleEngine = (os, reg, e, err)"
  shows "err = None \<and> (\<forall>h. mget (states reg) h = mget (states (sv_reg s')) h)
    \<and> rules e = map normal_rule (rules (sv_rules s'))"
proof -
  have "app_ok (sv_app s')" by (rule app_ok_adminMux [OF assms(1-3)])
  then have ok: "registry_ok (sv_reg s')" "engine_ok (sv_rules s')" by (simp_all add: app_okD)
  have "sv_os s' = fst (savePersist (ae_ord E) (sv_os s) (ac_dataDir C) (sv_reg s') (sv_rules s'))"
    using admin_step [OF assms(3)] assms(4) by (cases rule: admin_effect.cases) auto
  then obtain err' where "savePersist (ae_ord E) (sv_os s) (ac_dataDir C) (sv_reg s') (sv_rules s') = (sv_os s', err')"
    by (metis prod.collapse)
  from restart_state [OF ok assms(5-12) this assms(13)] show ?thesis by blast
qed

lemma ex_mock_query: "query_get ex_mock_request ''host'' = ''a''" "query_get ex_mock_request ''state'' = ''MOCKED''"
  by (simp_all add: ex_mock_request_def parse_query_def add_setting_def Cut_def Values_Get_def mput_def mget_Cons mgetd_def)

lemma ex_mock_step:
  "fst (adminMux ex_admin_env ex_open_conf ex_server ex_mock_request)
     = save ex_admin_env ex_open_conf (set_reg (SetState NewRegistry ''a'' StateMocked) ex_server)"
proof -
  have p: "req_Path ex_mock_request = ''/state''" by (simp add: ex_mock_request_def ex_get_def)
  have "cleanPath ''/state'' = ''/state''"
    by (simp add: cleanPath_def Clean_def HasPrefix_def path_parts_def path_step_def)
  then have "adminMux ex_admin_env ex_open_conf ex_server ex_mock_request = h_state ex_admin_env ex_open_conf ex_server ex_mock_request"
    by (simp add: adminMux_def ex_open_conf_def mux_def p routes_def)
  moreover have "ToUpper (ae_u ex_admin_env) ''MOCKED'' = StateMocked"
    by (simp add: ToUpper_ascii char_upper_def ascii_upper_def Let_def char_of_def bit_Suc_0_iff StateMocked_def)
  ultimately show ?thesis
    by (simp add: h_state_def Let_def ex_mock_query ex_server_def ex_app_def) (simp add: StateMocked_def)
qed

theorem accepted_changes_survive_witness:
  "\<exists>os reg e. loadPersist ex_lib ex_unicode id (\<lambda>i. replicate 8 0)
       (sv_os (fst (adminMux ex_admin_env ex_open_conf ex_server ex_mock_request))) ''/data'' NewRegistry NewRuleEngine = (os, reg, e, None)
     \<and> mget (states reg) ''a'' = Some StateMocked"
proof -
  obtain s' a where m: "adminMux ex_admin_env ex_open_conf ex_server ex_mock_request = (s', a)" by fastforce
  have s': "sv_reg s' = SetState NewRegistry ''a'' StateMocked" "sv_rules s' = ex_engine"
    using ex_mock_step m by (simp_all add: ex_server_def ex_app_def)
  obtain os reg e err where l: "loadPersist ex_lib ex_unicode id (\<lambda>i. replicate 8 0) (sv_os s') (ac_dataDir ex_open_conf)
      NewRegistry NewRuleEngine = (os, reg, e, err)" using prod_cases4 by blast
  have "app_ok (sv_app ex_server)"
    by (simp add: ex_server_def ex_app_def app_ok_iff ok_NewRegistry engine_ok_def ex_engine_def rule_ok_def ex_rewrite_def)
  moreover have "is_entropy (ae_rnd ex_admin_env)" by (simp add: is_entropy_def ex_admin_env_def)
  moreover have "is_map_order (ae_ord ex_admin_env)" "is_map_order (id :: string list \<Rightarrow> string list)"
    by (simp_all add: ex_admin_env_def is_map_order_id id_def)
  moreover have "states (sv_reg s') \<noteq> states (sv_reg ex_server) \<or> sv_rules s' \<noteq> sv_rules ex_server"
    by (simp add: s' ex_server_def ex_app_def NewRegistry_def SetState_def mput_def)
  ultimately have "err = None \<and> (\<forall>h. mget (states reg) h = mget (states (sv_reg s')) h)"
    using accepted_changes_survive [OF _ _ m _ _ _ _ _ _ _ _ _ l] storable_ex
    by (simp add: s' ex_server_def ex_os_def)
  then show ?thesis using l m by (simp add: s' SetState_def ex_open_conf_def ex_admin_conf_def)
qed

end
