(* ===== verification/Server.thy ===== *)
theory Server
  imports Admin_Facts
begin

text \<open>
  The running server: the engine's callbacks, the admin requests and the ends of WebSocket connections, as
  they interleave. Every part has its own mutex and a callback or handler is one step, so a run is a
  sequence of steps in the order in which the server performs them.
\<close>

section \<open>Steps\<close>

text \<open>
  A request that is decided (\<open>OnRequest\<close>) changes nothing and is no step. \<open>Gone c bs\<close> is the end of the
  reading loop of the WebSocket client \<open>c\<close>, which has sent the bytes \<open>bs\<close>.
\<close>

datatype event =
    Connect string string
  | Exchange flow "nat map_order"
  | Api admin_env request
  | Gone nat "byte list"

inductive step :: "admin_conf \<Rightarrow> server \<Rightarrow> event \<Rightarrow> server \<Rightarrow> bool" for C where
  connect: "step C s (Connect h d) (s\<lparr>sv_app := fst (OnConnect (sv_app s) h d)\<rparr>)"
| exchange: "step C s (Exchange f ord) (s\<lparr>sv_app := OnFlow ord (sv_app s) f\<rparr>)"
| api: "adminMux E C s r = (s', a) \<Longrightarrow> step C s (Api E r) s'"
| gone: "ap_hub (sv_app s) = Some h \<Longrightarrow> step C s (Gone c bs) (set_hub (ws_end c bs h) s)"

inductive_cases step_connectE: "step C s (Connect h d) s'"
inductive_cases step_exchangeE: "step C s (Exchange f ord) s'"
inductive_cases step_apiE: "step C s (Api E r) s'"
inductive_cases step_goneE: "step C s (Gone c bs) s'"

inductive_simps step_connect_iff: "step C s (Connect h d) s'"
inductive_simps step_api_iff: "step C s (Api E r) s'"

inductive runs :: "admin_conf \<Rightarrow> server \<Rightarrow> event list \<Rightarrow> server \<Rightarrow> bool" for C s where
  start: "runs C s [] s"
| more: "runs C s es s' \<Longrightarrow> step C s' e s'' \<Longrightarrow> runs C s (es @ [e]) s''"

text \<open>The random bytes of a request are eight at a time.\<close>

fun event_ok :: "event \<Rightarrow> bool" where
  "event_ok (Api E r) \<longleftrightarrow> is_entropy (ae_rnd E)"
| "event_ok _ \<longleftrightarrow> True"

section \<open>Facts\<close>

lemma app_ok_step:
  assumes "step C s e s'" "app_ok (sv_app s)" "event_ok e"
  shows "app_ok (sv_app s')"
  using assms(1)
proof cases
  case (connect h d)
  then show ?thesis using assms(2) by (simp add: app_ok_OnConnect)
next
  case (exchange f ord)
  then show ?thesis using assms(2) by (simp add: app_ok_OnFlow)
next
  case (api E r a)
  then show ?thesis using assms(2,3) app_ok_adminMux [of s E C r s' a] by simp
next
  case (gone h c bs)
  then show ?thesis using assms(2) hub_ok_ops(6) by (simp add: app_ok_iff)
qed

lemma runs_ok:
  "runs C s es s' \<Longrightarrow> app_ok (sv_app s) \<Longrightarrow> list_all event_ok es \<Longrightarrow> app_ok (sv_app s')"
  by (induction rule: runs.induct) (auto intro: app_ok_step)

definition deciding :: "admin_conf \<Rightarrow> event \<Rightarrow> bool" where
  "deciding C e \<longleftrightarrow>
     (\<exists>E r. e = Api E r \<and> credential r = ac_token C \<and> req_Path r \<in> {''/state'', ''/rules'', ''/mcp''})"

definition decrypted :: "server \<Rightarrow> string \<Rightarrow> bool" where
  "decrypted s h \<longleftrightarrow> State (sv_reg s) h \<in> {StateIntercepted, StateMocked}"

lemma State_none: "mget (states r) h = None \<Longrightarrow> State r h = StateObserved"
  by (simp add: State_def)

lemma effect_quiet:
  assumes "admin_effect E C p s s'" "p \<notin> {''/state'', ''/mcp''}"
  shows "State (sv_reg s') h \<in> {State (sv_reg s) h, StateObserved}"
  using assms by (cases rule: admin_effect.cases) (auto simp: reg_simps)

lemma route_rules:
  assumes "(p, h) \<in> set routes" "h E C s r = (s', a)" "p \<notin> {''/rules'', ''/mcp''}"
  shows "sv_rules s' = sv_rules s"
proof -
  have "h \<in> {h_domains, h_history, h_state, h_flows, h_ca_pem, h_ca_status, h_ca_trust, h_sslkit, h_capture, h_pin_bypass, h_meta, h_ws}"
    using assms(1,3) by (auto simp: routes_def)
  then show ?thesis
    using assms(2)
    by (auto simp: h_flows_def h_ca_pem_def h_ca_status_def h_ca_trust_def h_sslkit_def h_capture_def h_pin_bypass_def
        h_domains_def h_history_def h_state_def
        h_meta_def h_ws_def Let_def SetPinBypass_def split: if_splits option.splits prod.splits sum.splits ws_start.splits)
qed

lemma step_quiet:
  assumes "step C s e s'" "\<not> deciding C e" "ac_token C \<noteq> []"
  shows "State (sv_reg s') h \<in> {State (sv_reg s) h, StateObserved} \<and> sv_rules s' = sv_rules s"
  using assms(1)
proof cases
  case (connect x d)
  then show ?thesis by (simp add: OnConnect_def Let_def State_Observe)
next
  case (exchange f ord)
  then show ?thesis by (simp add: OnFlow_def reg_simps)
next
  case (api E r a)
  show ?thesis
  proof (cases "may_use C r")
    case True
    have p: "req_Path r \<notin> {''/state'', ''/rules'', ''/mcp''}"
      using assms(2,3) True by (auto simp: api(1) deciding_def may_use_def public_path_def)
    have m: "mux E C s r = (s', a)" using api(2) True by (simp add: adminMux_access)
    have "sv_rules s' = sv_rules s"
    proof (cases rule: mux_cases [of E C s r])
      case 1
      then show ?thesis using m by simp
    next
      case (2 x)
      then show ?thesis using m route_rules [OF 2(1), of E C s r s' a] p by simp
    qed
    then show ?thesis using effect_quiet [OF admin_step [OF api(2)]] p by blast
  qed (use api in \<open>simp add: adminMux_access\<close>)
next
  case (gone x c bs)
  then show ?thesis by simp
qed

lemma find_append: "find P (xs @ ys) = (case find P xs of None \<Rightarrow> find P ys | Some x \<Rightarrow> Some x)"
  by (induction xs) auto

section \<open>Properties\<close>

text \<open>
  C1: only the holder of the token decides what is decrypted and what is answered: when a run changes the
  rules, or makes the proxy decrypt a host that it passed through before, the run contains a request to
  \<open>/state\<close>, \<open>/rules\<close> or \<open>/mcp\<close> with the configured token.
\<close>

theorem decryption_needs_token:
  assumes "ac_token C \<noteq> []" "runs C s es s'"
    and "sv_rules s' \<noteq> sv_rules s
      \<or> snd (OnConnect (sv_app s) h d) = Passthrough \<and> snd (OnConnect (sv_app s') h d) = Terminate"
  shows "\<exists>E r. Api E r \<in> set es \<and> credential r = ac_token C \<and> req_Path r \<in> {''/state'', ''/rules'', ''/mcp''}"
proof (rule ccontr)
  assume n: "\<not> ?thesis"
  have "State (sv_reg s') h \<in> {State (sv_reg s) h, StateObserved} \<and> sv_rules s' = sv_rules s"
    using assms(2) n
  proof (induction rule: runs.induct)
    case (more es s' e s'')
    have "\<not> (\<exists>E r. Api E r \<in> set es \<and> credential r = ac_token C \<and> req_Path r \<in> {''/state'', ''/rules'', ''/mcp''})"
      using more.prems by auto
    note ih = more.IH [OF this]
    have "\<not> deciding C e" using more.prems by (auto simp: deciding_def)
    then show ?case using step_quiet [OF more(2) _ assms(1), of h] ih by auto
  qed simp
  then have "sv_rules s' = sv_rules s"
    and "snd (OnConnect (sv_app s) h d) = Passthrough \<Longrightarrow> snd (OnConnect (sv_app s') h d) \<noteq> Terminate"
    using OnConnect_action [of "sv_app s" h d] OnConnect_action [of "sv_app s'" h d] by auto
  then show False using assms(3) by blast
qed

definition ex_token_request :: request where
  "ex_token_request = ex_mock_request\<lparr>req_Header := Header_Set ''Authorization'' ''Bearer secret'' []\<rparr>"

lemma ex_token_credential: "credential ex_token_request = ''secret''"
  by (simp add: credential_def ex_token_request_def ex_mock_request_def ex_get_def Header_Get_Set TrimPrefix_def HasPrefix_def)

lemma ex_token_step:
  "\<exists>a. adminMux ex_admin_env ex_admin_conf ex_server ex_token_request
     = (save ex_admin_env ex_admin_conf (set_reg (SetState NewRegistry ''a'' StateMocked) ex_server), a)"
proof -
  have p: "req_Path ex_token_request = ''/state''" by (simp add: ex_token_request_def ex_mock_request_def ex_get_def)
  have q: "query_get ex_token_request k = query_get ex_mock_request k" for k by (simp add: ex_token_request_def)
  have "cleanPath ''/state'' = ''/state''"
    by (simp add: cleanPath_def Clean_def HasPrefix_def path_parts_def path_step_def)
  moreover have "may_use ex_admin_conf ex_token_request"
    by (simp add: may_use_def ex_token_credential) (simp add: ex_admin_conf_def)
  ultimately have "adminMux ex_admin_env ex_admin_conf ex_server ex_token_request = h_state ex_admin_env ex_admin_conf ex_server ex_token_request"
    by (simp add: adminMux_access mux_def p routes_def)
  moreover have "ToUpper (ae_u ex_admin_env) ''MOCKED'' = StateMocked"
    by (simp add: ToUpper_ascii char_upper_def ascii_upper_def Let_def char_of_def bit_Suc_0_iff StateMocked_def)
  ultimately show ?thesis
    by (simp add: h_state_def Let_def q ex_mock_query ex_server_def ex_app_def) (simp add: StateMocked_def)
qed

theorem decryption_needs_token_witness:
  "\<exists>s' E r. runs ex_admin_conf ex_server [Api ex_admin_env ex_token_request] s'
     \<and> snd (OnConnect (sv_app s') ''a'' []) = Terminate \<and> credential r = ''secret''
     \<and> Api E r \<in> set [Api ex_admin_env ex_token_request]"
proof -
  obtain s' a where m: "adminMux ex_admin_env ex_admin_conf ex_server ex_token_request = (s', a)" by fastforce
  have "s' = save ex_admin_env ex_admin_conf (set_reg (SetState NewRegistry ''a'' StateMocked) ex_server)"
    using ex_token_step m by auto
  then have t: "snd (OnConnect (sv_app s') ''a'' []) = Terminate"
    by (simp add: OnConnect_action State_SetState)
  have p: "snd (OnConnect (sv_app ex_server) ''a'' []) = Passthrough"
    by (simp add: OnConnect_def ex_server_def ex_app_def Observe_def State_def NewRegistry_def)
  have "runs ex_admin_conf ex_server ([] @ [Api ex_admin_env ex_token_request]) s'"
    by (rule runs.more [OF runs.start]) (rule step.api [OF m])
  then have r: "runs ex_admin_conf ex_server [Api ex_admin_env ex_token_request] s'" by simp
  have "ac_token ex_admin_conf \<noteq> []" by (simp add: ex_admin_conf_def)
  from decryption_needs_token [OF this r, of "''a''" "[]"] p t r show ?thesis
    by (auto simp: ex_admin_conf_def)
qed

text \<open>
  C3: mocking works from end to end: after the holder of the API has posted a rule (as JSON: its texts are
  UTF-8 and its status is an int64) whose action is not rewrite, named as in the page or left out, and has then
  set the host MOCKED, a request for the host that this rule accepts and that no rule stored before accepts is
  answered by the proxy with the rule's rendered response, on a connection that is decrypted.
\<close>

theorem mocked_end_to_end:
  assumes "may_use C r1" "req_Path r1 = ''/rules''" "req_Method r1 = ''POST''" "req_Body r1 = Some (marshal (rule_json q))"
    and "may_use C r2" "req_Path r2 = ''/state''" "query_get r2 ''host'' = host" "host \<noteq> []"
    and "ToUpper (ae_u E2) (query_get r2 ''state'') = StateMocked"
    and "fits_int64 (ru_Status q)" "mok (ru_RewriteJSON q)" "texts_ok (rule_json q)" "\<not> EqualFold u (ru_Action q) ''rewrite''"
    and "matchRule u (sv_rules s) host req = None" "rule_applies u (host, req_Path req, req_Method req) q"
    and "adminMux E1 C s r1 = (s1, a1)" "adminMux E2 C s1 r2 = (s2, a2)"
  shows "\<exists>q'. q' = with_defaults (ae_rnd E1 0) (normal_rule q)
    \<and> snd (OnConnect (sv_app s2) host d) = Terminate
    \<and> OnRequest L u X (sv_app s2) host req = (req, Some (renderRule X q' (Some req)))"
proof -
  define q' where "q' = with_defaults (ae_rnd E1 0) (normal_rule q)"
  have clean: "cleanPath ''/rules'' = ''/rules''" "cleanPath ''/state'' = ''/state''"
    by (simp_all add: cleanPath_def Clean_def HasPrefix_def path_parts_def path_step_def)
  have m1: "h_rules E1 C s r1 = (s1, a1)"
    using assms(16) assms(1,2) by (simp add: adminMux_access mux_def routes_def clean)
  have m2: "h_state E2 C s1 r2 = (s2, a2)"
    using assms(17) assms(5,6) by (simp add: adminMux_access mux_def routes_def clean)
  have "decode_first (marshal (rule_json q)) = Some (rule_json q, [])"
    using parse_pr [of "rule_json q" "[]" False 0] rule_json_nums [of q] rule_json_depth [of q] clean_texts_ok [OF assms(12)]
    by (simp add: marshal_def max_depth_def)
  then have "Decode (ae_L E1) ''Rule'' (\<lambda>v. dec_rule (ae_u E1) v zero_rule) zero_rule (body_text r1) = (normal_rule q, None)"
    using dec_rule_rule_json [OF assms(10,11)] by (simp add: Decode_def assms(4) normal_rule_def)
  then have s1: "sv_reg s1 = sv_reg s" "rules (sv_rules s1) = rules (sv_rules s) @ [q']"
    using m1 assms(3) by (auto simp: h_rules_def Add_def Let_def q'_def)
  have s2: "sv_reg s2 = SetState (sv_reg s1) host StateMocked" "sv_rules s2 = sv_rules s1"
    using m2 assms(7-9) by (auto simp: h_state_def Let_def StateMocked_def)
  have "rule_applies u (host, req_Path req, req_Method req) q'"
    using assms(15) by (simp add: rule_applies_def q'_def normal_rule_def)
  then have "matchRule u (sv_rules s2) host req = Some q'"
    using assms(14) unfolding matchRule_find s2(2) s1(2) by (simp add: find_append)
  moreover have "\<not> EqualFold u ''mock'' ''rewrite''" by (simp add: EqualFold_ascii)
  then have "\<not> EqualFold u (ru_Action q') ''rewrite''"
    using assms(13) by (simp add: q'_def with_defaults_Action normal_rule_def)
  moreover have "State (sv_reg s2) host = StateMocked" by (simp add: s2 State_SetState)
  ultimately have "OnRequest L u X (sv_app s2) host req = (req, Some (renderRule X q' (Some req)))"
    "snd (OnConnect (sv_app s2) host d) = Terminate"
    by (simp_all add: OnRequest_def Let_def is_rewrite_def Match_def OnConnect_action)
  then show ?thesis using q'_def by blast
qed

definition ex_empty_server :: server where
  "ex_empty_server = \<lparr>sv_os = ex_os, sv_app = ex_app\<lparr>ap_rules := NewRuleEngine\<rparr>\<rparr>"

definition ex_mock_rule :: rule where
  "ex_mock_rule = zero_rule\<lparr>ru_Host := ''a'', ru_Action := ''mock'', ru_Body := ''hi''\<rparr>"

definition ex_rule_request :: request where
  "ex_rule_request = (ex_get ''/rules'')\<lparr>req_Method := ''POST'', req_Body := Some (marshal (rule_json ex_mock_rule))\<rparr>"

theorem mocked_end_to_end_witness:
  "\<exists>s1 a1 s2 a2 resp. adminMux ex_admin_env ex_open_conf ex_empty_server ex_rule_request = (s1, a1)
     \<and> adminMux ex_admin_env ex_open_conf s1 ex_mock_request = (s2, a2)
     \<and> OnRequest ex_lib ex_unicode ex_host (sv_app s2) ''a'' ex_request = (ex_request, Some resp)"
proof -
  obtain s1 a1 where 1: "adminMux ex_admin_env ex_open_conf ex_empty_server ex_rule_request = (s1, a1)" by fastforce
  obtain s2 a2 where 2: "adminMux ex_admin_env ex_open_conf s1 ex_mock_request = (s2, a2)" by fastforce
  have u: "may_use ex_open_conf r" for r by (simp add: may_use_def ex_open_conf_def)
  have r1: "req_Path ex_rule_request = ''/rules''" "req_Method ex_rule_request = ''POST''"
    "req_Body ex_rule_request = Some (marshal (rule_json ex_mock_rule))"
    by (simp_all add: ex_rule_request_def ex_get_def)
  have r2: "req_Path ex_mock_request = ''/state''" by (simp add: ex_mock_request_def ex_get_def)
  have up: "ToUpper (ae_u ex_admin_env) (query_get ex_mock_request ''state'') = StateMocked"
    by (simp add: ex_mock_query ToUpper_ascii char_upper_def ascii_upper_def Let_def char_of_def bit_Suc_0_iff StateMocked_def)
  have q: "fits_int64 (ru_Status ex_mock_rule)" "mok (ru_RewriteJSON ex_mock_rule)" "texts_ok (rule_json ex_mock_rule)"
    "\<not> EqualFold ex_unicode (ru_Action ex_mock_rule) ''rewrite''"
    by (simp_all add: ex_mock_rule_def zero_rule_def fits_int64_def rule_json_def opt_str_def utf8_valid_ascii EqualFold_ascii)
  have m: "matchRule ex_unicode (sv_rules ex_empty_server) ''a'' ex_request = None"
    by (simp add: ex_empty_server_def NewRuleEngine_def matchRule_def)
  have a: "rule_applies ex_unicode (''a'', req_Path ex_request, req_Method ex_request) ex_mock_rule"
    by (simp add: rule_applies_def ex_mock_rule_def zero_rule_def EqualFold_refl)
  from mocked_end_to_end [OF u r1 u r2 ex_mock_query(1) _ up q m a 1 2, of "[]" ex_lib ex_host] 1 2
  show ?thesis by auto
qed

end
