(* ===== verification/Relay.thy ===== *)
theory Relay
  imports Ws
begin

text \<open>
  The relay of the HTTP proxy (end of \<open>handleHTTPProxyConn\<close> in proxy.go). Two goroutines copy at the same
  time: one from the client to the upstream, which closes the upstream's connection when it ends, and the
  handler itself from the upstream to the client, which then closes the client's connection. Each is a loop
  of reads and writes of arbitrary pieces, and their steps interleave. No deadline is set, so that a write to
  a peer that has stopped reading blocks for good.

  What the relay promises: it ends when neither peer stops reading, both connections are closed then, bytes
  arrive in order, and all of the answer arrives when the client waits for it. A client that stops reading
  keeps everything open.
\<close>

section \<open>States\<close>

text \<open>
  A copying goroutine is about to read, holds the bytes it still has to write, is about to close the connection
  it writes to, or has returned.
\<close>

datatype pump = Reading | Holding "byte list" | Closing | Returned

text \<open>
  What a peer is going to take of the bytes written to it: all of them; only so many more, read or kept in the
  buffers in between, after which it leaves the connection open and reads no more; or only so many more, after
  which the connection breaks.
\<close>

datatype reader = Reads_on | Stops nat | Breaks nat

fun stalls :: "reader \<Rightarrow> byte list \<Rightarrow> bool" where
  "stalls (Stops k) bs \<longleftrightarrow> k < length bs"
| "stalls _ bs \<longleftrightarrow> False"

fun breaks :: "reader \<Rightarrow> byte list \<Rightarrow> bool" where
  "breaks (Breaks k) bs \<longleftrightarrow> k < length bs"
| "breaks _ bs \<longleftrightarrow> False"

text \<open>
  \<open>rl_in\<close> and \<open>rl_up_in\<close> are the bytes still to come from the client and from the upstream; \<open>rl_ends\<close> and
  \<open>rl_up_ends\<close> say whether that side closes its sending direction after them or just falls silent; \<open>rl_takes\<close>
  and \<open>rl_up_takes\<close> what it takes of the other's bytes.
\<close>

record relay =
  rl_in :: "byte list"
  rl_ends :: bool
  rl_client :: net_conn
  rl_takes :: reader
  rl_client_closed :: bool
  rl_up_in :: "byte list"
  rl_up_ends :: bool
  rl_up :: net_conn
  rl_up_takes :: reader
  rl_up_closed :: bool
  rl_forward :: pump
  rl_back :: pump

definition relay_start ::
    "byte list \<Rightarrow> bool \<Rightarrow> net_conn \<Rightarrow> reader \<Rightarrow> byte list \<Rightarrow> bool \<Rightarrow> net_conn \<Rightarrow> reader \<Rightarrow> relay" where
  "relay_start s ends c t us up_ends up up_t =
     \<lparr>rl_in = s, rl_ends = ends, rl_client = c, rl_takes = t, rl_client_closed = False,
      rl_up_in = us, rl_up_ends = up_ends, rl_up = up, rl_up_takes = up_t, rl_up_closed = False,
      rl_forward = Reading, rl_back = Reading\<rparr>"

section \<open>Steps\<close>

text \<open>
  Writing: on a closed or failing connection the copy ends. Otherwise the bytes that the peer takes are
  written; when it takes fewer than there are, the call goes on holding the others or, on a connection that
  breaks, fails. A call that can write nothing has no step, it blocks: the result is then \<open>None\<close>.
\<close>

definition pump_write :: "bool \<Rightarrow> reader \<Rightarrow> net_conn \<Rightarrow> byte list \<Rightarrow> (net_conn \<times> reader \<times> pump) option" where
  "pump_write closed t c bs =
     (if closed then Some (c, t, Closing)
      else
        (case Write c bs of
           (_, Some _) \<Rightarrow> Some (c, t, Closing)
         | (c', None) \<Rightarrow>
             (case t of
                Reads_on \<Rightarrow> Some (c', t, Reading)
              | Stops k \<Rightarrow>
                  if length bs \<le> k then Some (c', Stops (k - length bs), Reading)
                  else if k = 0 then None
                  else Some (c\<lparr>nc_out := nc_out c @ take k bs\<rparr>, Stops 0, Holding (drop k bs))
              | Breaks k \<Rightarrow>
                  if length bs \<le> k then Some (c', Breaks (k - length bs), Reading)
                  else Some (c\<lparr>nc_out := nc_out c @ take k bs\<rparr>, Breaks 0, Closing))))"

text \<open>
  The forward copy reads through the buffer of the client's connection, which may hold bytes after the
  connection has been closed; the copy back reads the upstream's connection itself. Reading ends at the end
  of the stream and on a connection that was closed here.
\<close>

inductive relay_step :: "relay \<Rightarrow> relay \<Rightarrow> bool" where
  fwd_read: "rl_forward r = Reading \<Longrightarrow> 0 < n \<Longrightarrow> n \<le> length (rl_in r) \<Longrightarrow>
    relay_step r (r\<lparr>rl_in := drop n (rl_in r), rl_forward := Holding (take n (rl_in r))\<rparr>)"
| fwd_end: "rl_forward r = Reading \<Longrightarrow> rl_client_closed r \<or> rl_in r = [] \<and> rl_ends r \<Longrightarrow>
    relay_step r (r\<lparr>rl_forward := Closing\<rparr>)"
| fwd_write: "rl_forward r = Holding bs \<Longrightarrow>
    pump_write (rl_up_closed r) (rl_up_takes r) (rl_up r) bs = Some (up, t, p) \<Longrightarrow>
    relay_step r (r\<lparr>rl_up := up, rl_up_takes := t, rl_forward := p\<rparr>)"
| fwd_close: "rl_forward r = Closing \<Longrightarrow>
    relay_step r (r\<lparr>rl_up_closed := True, rl_forward := Returned\<rparr>)"
| back_read: "rl_back r = Reading \<Longrightarrow> \<not> rl_up_closed r \<Longrightarrow> 0 < n \<Longrightarrow> n \<le> length (rl_up_in r) \<Longrightarrow>
    relay_step r (r\<lparr>rl_up_in := drop n (rl_up_in r), rl_back := Holding (take n (rl_up_in r))\<rparr>)"
| back_end: "rl_back r = Reading \<Longrightarrow> rl_up_closed r \<or> rl_up_in r = [] \<and> rl_up_ends r \<Longrightarrow>
    relay_step r (r\<lparr>rl_back := Closing\<rparr>)"
| back_write: "rl_back r = Holding bs \<Longrightarrow>
    pump_write (rl_client_closed r) (rl_takes r) (rl_client r) bs = Some (c, t, p) \<Longrightarrow>
    relay_step r (r\<lparr>rl_client := c, rl_takes := t, rl_back := p\<rparr>)"
| back_close: "rl_back r = Closing \<Longrightarrow>
    relay_step r (r\<lparr>rl_client_closed := True, rl_back := Returned\<rparr>)"

inductive_cases relay_stepE: "relay_step r r'"

text \<open>A run until nothing more can happen: a copy that has not returned then waits for bytes or is blocked.\<close>

definition relay_final :: "relay \<Rightarrow> bool" where
  "relay_final r \<longleftrightarrow> (\<forall>r'. \<not> relay_step r r')"

definition relay_result :: "relay \<Rightarrow> relay \<Rightarrow> bool" where
  "relay_result r r' \<longleftrightarrow> relay_step\<^sup>*\<^sup>* r r' \<and> relay_final r'"

section \<open>Writing\<close>

lemma Write_None: "Write c bs = (c', None) \<Longrightarrow> nc_out c' = nc_out c @ bs \<and> (nc_left c = None \<longrightarrow> nc_left c' = None)"
  by (auto simp: Write_def split: option.splits nat.splits)

lemma pump_write_blocks:
  "pump_write closed t c bs = None \<Longrightarrow> \<not> closed \<and> t = Stops 0 \<and> bs \<noteq> []"
  by (auto simp: pump_write_def split: if_splits prod.splits option.splits reader.splits)

text \<open>The four ways in which a write ends.\<close>

lemma pump_write_cases [consumes 1, case_names failed written partly broken]:
  assumes "pump_write closed t c bs = Some (c', t', p)"
  obtains "c' = c" "t' = t" "p = Closing" "closed \<or> nc_left c \<noteq> None"
  | "nc_out c' = nc_out c @ bs" "nc_left c = None \<Longrightarrow> nc_left c' = None" "p = Reading" "\<not> stalls t bs" "\<not> breaks t bs"
      "t' = (case t of Reads_on \<Rightarrow> Reads_on | Stops k \<Rightarrow> Stops (k - length bs) | Breaks k \<Rightarrow> Breaks (k - length bs))"
  | k where "t = Stops k" "0 < k" "k < length bs" "c' = c\<lparr>nc_out := nc_out c @ take k bs\<rparr>" "t' = Stops 0" "p = Holding (drop k bs)"
  | k where "t = Breaks k" "k < length bs" "c' = c\<lparr>nc_out := nc_out c @ take k bs\<rparr>" "t' = Breaks 0" "p = Closing"
proof -
  obtain w e where w: "Write c bs = (w, e)" by fastforce
  show ?thesis
  proof (cases "closed \<or> e \<noteq> None")
    case True
    then have "c' = c \<and> t' = t \<and> p = Closing" using assms w by (auto simp: pump_write_def split: if_splits)
    moreover have "closed \<or> nc_left c \<noteq> None" using True w by (auto simp: Write_def)
    ultimately show ?thesis using that(1) by blast
  next
    case False
    then show ?thesis
      using assms w Write_None [of c bs w] that(2-4)
      by (cases t) (auto simp: pump_write_def split: if_splits)
  qed
qed

section \<open>Termination\<close>

text \<open>Three steps at most for a byte that is read: reading, writing, and a write in two parts.\<close>

fun pump_weight :: "pump \<Rightarrow> nat" where
  "pump_weight Reading = 2"
| "pump_weight (Holding bs) = 3 + length bs"
| "pump_weight Closing = 1"
| "pump_weight Returned = 0"

definition relay_weight :: "relay \<Rightarrow> nat" where
  "relay_weight r = 3 * length (rl_in r) + 3 * length (rl_up_in r) + pump_weight (rl_forward r) + pump_weight (rl_back r)"

lemma pump_write_weight: "pump_write closed t c bs = Some (c', t', p) \<Longrightarrow> pump_weight p < 3 + length bs"
  by (cases rule: pump_write_cases) auto

lemma relay_step_weight: "relay_step r r' \<Longrightarrow> relay_weight r' < relay_weight r"
  by (induction rule: relay_step.induct) (auto simp: relay_weight_def dest: pump_write_weight)

interpretation relay: terminating relay_step "\<lambda>r. True" relay_weight
  by unfold_locales (simp_all add: relay_step_weight)

lemma relay_steps_weight: "(relay_step ^^ n) r r' \<Longrightarrow> n + relay_weight r' \<le> relay_weight r"
proof (induction n arbitrary: r')
  case (Suc n)
  then obtain r1 where "(relay_step ^^ n) r r1" "relay_step r1 r'" by auto
  then show ?case using Suc.IH [of r1] relay_step_weight by fastforce
qed simp

lemma relay_reaches_final: "\<exists>r'. relay_result r r'"
  using relay.reaches_final [of r] by (simp add: relay_result_def relay_final_def)

section \<open>The end\<close>

text \<open>Where a goroutine can only wait.\<close>

lemma final_forward:
  assumes "relay_final r"
  shows "rl_forward r = Returned
    \<or> rl_forward r = Reading \<and> rl_in r = [] \<and> \<not> rl_ends r \<and> \<not> rl_client_closed r
    \<or> (\<exists>bs. rl_forward r = Holding bs \<and> bs \<noteq> [] \<and> rl_up_takes r = Stops 0 \<and> \<not> rl_up_closed r)"
proof (cases "rl_forward r")
  case Reading
  have "rl_in r = []"
  proof (rule ccontr)
    assume "rl_in r \<noteq> []"
    then have "0 < length (rl_in r)" by simp
    from fwd_read [OF Reading this] assms show False by (auto simp: relay_final_def)
  qed
  then show ?thesis using Reading assms fwd_end [OF Reading] by (auto simp: relay_final_def)
next
  case (Holding bs)
  then have "pump_write (rl_up_closed r) (rl_up_takes r) (rl_up r) bs = None"
    using assms fwd_write [OF Holding] by (cases "pump_write (rl_up_closed r) (rl_up_takes r) (rl_up r) bs") (auto simp: relay_final_def)
  then show ?thesis using Holding pump_write_blocks by blast
qed (use assms fwd_close in \<open>auto simp: relay_final_def\<close>)

lemma final_back:
  assumes "relay_final r"
  shows "rl_back r = Returned
    \<or> rl_back r = Reading \<and> rl_up_in r = [] \<and> \<not> rl_up_ends r \<and> \<not> rl_up_closed r
    \<or> (\<exists>bs. rl_back r = Holding bs \<and> bs \<noteq> [] \<and> rl_takes r = Stops 0 \<and> \<not> rl_client_closed r)"
proof (cases "rl_back r")
  case Reading
  then show ?thesis
  proof (cases "rl_up_closed r")
    case False
    have "rl_up_in r = []"
    proof (rule ccontr)
      assume "rl_up_in r \<noteq> []"
      then have "0 < length (rl_up_in r)" by simp
      from back_read [OF Reading False this] assms show False by (auto simp: relay_final_def)
    qed
    then show ?thesis using Reading assms back_end [OF Reading] by (auto simp: relay_final_def)
  qed (use assms back_end Reading in \<open>auto simp: relay_final_def\<close>)
next
  case (Holding bs)
  then have "pump_write (rl_client_closed r) (rl_takes r) (rl_client r) bs = None"
    using assms back_write [OF Holding] by (cases "pump_write (rl_client_closed r) (rl_takes r) (rl_client r) bs") (auto simp: relay_final_def)
  then show ?thesis using Holding pump_write_blocks by blast
qed (use assms back_close in \<open>auto simp: relay_final_def\<close>)

section \<open>Invariants\<close>

text \<open>What has been delivered in one direction: while a copy runs nothing is lost, afterwards a prefix is there.\<close>

fun held :: "pump \<Rightarrow> byte list" where
  "held (Holding bs) = bs"
| "held _ = []"

definition running :: "pump \<Rightarrow> bool" where
  "running p \<longleftrightarrow> p \<noteq> Closing \<and> p \<noteq> Returned"

definition delivered :: "byte list \<Rightarrow> byte list \<Rightarrow> byte list \<Rightarrow> pump \<Rightarrow> byte list \<Rightarrow> bool" where
  "delivered sent before out p rest \<longleftrightarrow>
     (\<exists>s. out = before @ s \<and> (if running p then s @ held p @ rest = sent else prefix s sent))"

lemma running_simps [simp]:
  "running Reading" "running (Holding bs)" "\<not> running Closing" "\<not> running Returned"
  by (simp_all add: running_def)

lemma delivered_start: "delivered sent out out Reading sent"
  by (simp add: delivered_def)

lemma delivered_read:
  "delivered sent b out Reading rest \<Longrightarrow> delivered sent b out (Holding (take n rest)) (drop n rest)"
  by (simp add: delivered_def)

lemma delivered_stop: "delivered sent b out p rest \<Longrightarrow> delivered sent b out Closing rest'"
  by (auto simp: delivered_def split: if_splits)

lemma delivered_close: "delivered sent b out Closing rest \<Longrightarrow> delivered sent b out Returned rest"
  by (simp add: delivered_def)

text \<open>While a copy runs, what its peer still takes is measured against what is still to be written.\<close>

definition undisturbed :: "(reader \<Rightarrow> byte list \<Rightarrow> bool) \<Rightarrow> reader \<Rightarrow> pump \<Rightarrow> byte list \<Rightarrow> bool" where
  "undisturbed P t p rest \<longleftrightarrow> (running p \<longrightarrow> \<not> P t (held p @ rest))"

lemma undisturbed_simps [simp]:
  "undisturbed P t Closing rest" "undisturbed P t Returned rest"
  "undisturbed P t Reading rest \<longleftrightarrow> \<not> P t rest" "undisturbed P t (Holding bs) rest \<longleftrightarrow> \<not> P t (bs @ rest)"
  by (simp_all add: undisturbed_def)

lemma delivered_write:
  assumes "delivered sent b (nc_out c) (Holding bs) rest" "pump_write closed t c bs = Some (c', t', p)"
  shows "delivered sent b (nc_out c') p rest"
  using assms(2)
proof (cases rule: pump_write_cases)
  case failed
  then show ?thesis using delivered_stop [OF assms(1)] by simp
next
  case written
  then show ?thesis using assms(1) by (auto simp: delivered_def)
next
  case (partly k)
  then show ?thesis using assms(1) by (auto simp: delivered_def)
next
  case (broken k)
  obtain s where "nc_out c = b @ s" "s @ take k bs @ drop k bs @ rest = sent"
    using assms(1) by (auto simp: delivered_def)
  then have "nc_out c' = b @ (s @ take k bs) \<and> prefix (s @ take k bs) sent" using broken(3) by (auto simp: prefix_def)
  then show ?thesis using broken(5) by (auto simp: delivered_def)
qed

lemma stalls_write:
  assumes "\<not> stalls t (bs @ rest)" "pump_write closed t c bs = Some (c', t', p)"
  shows "undisturbed stalls t' p rest"
  using assms(2) by (cases rule: pump_write_cases) (use assms(1) in \<open>auto split: reader.splits\<close>)

lemma breaks_write:
  assumes "\<not> breaks t (bs @ rest)" "pump_write closed t c bs = Some (c', t', p)"
  shows "undisturbed breaks t' p rest"
  using assms(2) by (cases rule: pump_write_cases) (use assms(1) in \<open>auto split: reader.splits\<close>)

definition relay_inv :: "relay \<Rightarrow> relay \<Rightarrow> bool" where
  "relay_inv r0 r \<longleftrightarrow>
     rl_ends r = rl_ends r0 \<and> rl_up_ends r = rl_up_ends r0
     \<and> (rl_forward r = Returned \<longleftrightarrow> rl_up_closed r) \<and> (rl_back r = Returned \<longleftrightarrow> rl_client_closed r)
     \<and> delivered (rl_in r0) (nc_out (rl_up r0)) (nc_out (rl_up r)) (rl_forward r) (rl_in r)
     \<and> delivered (rl_up_in r0) (nc_out (rl_client r0)) (nc_out (rl_client r)) (rl_back r) (rl_up_in r)
     \<and> (\<not> stalls (rl_up_takes r0) (rl_in r0) \<longrightarrow> undisturbed stalls (rl_up_takes r) (rl_forward r) (rl_in r))
     \<and> (\<not> stalls (rl_takes r0) (rl_up_in r0) \<longrightarrow> undisturbed stalls (rl_takes r) (rl_back r) (rl_up_in r))"

lemma pump_write_pump: "pump_write closed t c bs = Some (c', t', p) \<Longrightarrow> p \<noteq> Returned"
  by (cases rule: pump_write_cases) auto

lemma relay_inv_step:
  assumes "relay_step r r'" "relay_inv r0 r"
  shows "relay_inv r0 r'"
  using assms(1)
proof cases
  case (fwd_read n)
  then show ?thesis using assms(2) delivered_read by (fastforce simp: relay_inv_def)
next
  case fwd_end
  then show ?thesis using assms(2) delivered_stop by (fastforce simp: relay_inv_def)
next
  case (fwd_write bs up t p)
  then show ?thesis
    using assms(2) delivered_write [OF _ fwd_write(3)] stalls_write [OF _ fwd_write(3)] pump_write_pump [OF fwd_write(3)]
    by (auto simp: relay_inv_def)
next
  case fwd_close
  then show ?thesis using assms(2) delivered_close by (fastforce simp: relay_inv_def)
next
  case (back_read n)
  then show ?thesis using assms(2) delivered_read by (fastforce simp: relay_inv_def)
next
  case back_end
  then show ?thesis using assms(2) delivered_stop by (fastforce simp: relay_inv_def)
next
  case (back_write bs c t p)
  then show ?thesis
    using assms(2) delivered_write [OF _ back_write(3)] stalls_write [OF _ back_write(3)] pump_write_pump [OF back_write(3)]
    by (auto simp: relay_inv_def)
next
  case back_close
  then show ?thesis using assms(2) delivered_close by (fastforce simp: relay_inv_def)
qed

lemma relay_inv_run:
  assumes "relay_step\<^sup>*\<^sup>* r0 r" "relay_inv r0 r0"
  shows "relay_inv r0 r"
  using assms by (induction rule: rtranclp_induct) (auto intro: relay_inv_step)

lemma relay_inv_start: "relay_inv (relay_start s e c t us ue up ut) (relay_start s e c t us ue up ut)"
  by (simp add: relay_inv_def relay_start_def delivered_start)

text \<open>A client that keeps its side open, on working connections: only the end of the answer ends the relay.\<close>

definition patient :: "relay \<Rightarrow> relay \<Rightarrow> bool" where
  "patient r0 r \<longleftrightarrow>
     \<not> rl_ends r \<and> nc_left (rl_client r) = None \<and> nc_left (rl_up r) = None
     \<and> undisturbed breaks (rl_up_takes r) (rl_forward r) (rl_in r)
     \<and> undisturbed breaks (rl_takes r) (rl_back r) (rl_up_in r)
     \<and> undisturbed stalls (rl_takes r) (rl_back r) (rl_up_in r)
     \<and> (running (rl_forward r) \<or> rl_client_closed r) \<and> (rl_client_closed r \<longrightarrow> rl_back r = Returned)
     \<and> (rl_up_closed r \<longrightarrow> \<not> running (rl_forward r))
     \<and> (if running (rl_back r) then nc_out (rl_client r) @ held (rl_back r) @ rl_up_in r else nc_out (rl_client r))
         = nc_out (rl_client r0) @ rl_up_in r0"

text \<open>On a working connection that does not break, a write never ends the copy.\<close>

lemma pump_write_works:
  assumes "pump_write False t c bs = Some (c', t', p)" "nc_left c = None" "\<not> breaks t (bs @ rest)"
  shows "running p \<and> nc_left c' = None \<and> nc_out c' @ held p = nc_out c @ bs"
  using assms(1) by (cases rule: pump_write_cases) (use assms(2,3) in auto)

lemma patient_step:
  assumes "relay_step r r'" "patient r0 r"
  shows "patient r0 r'"
  using assms(1)
proof cases
  case (fwd_write bs up t p)
  have "\<not> rl_up_closed r" "\<not> breaks (rl_up_takes r) (bs @ rl_in r)" "nc_left (rl_up r) = None"
    using assms(2) fwd_write(2) by (auto simp: patient_def)
  then show ?thesis
    using assms(2) fwd_write pump_write_works [of _ "rl_up r" bs up t p] breaks_write [OF _ fwd_write(3)]
    by (auto simp: patient_def)
next
  case (back_write bs c t p)
  have b: "\<not> rl_client_closed r" "\<not> breaks (rl_takes r) (bs @ rl_up_in r)" "\<not> stalls (rl_takes r) (bs @ rl_up_in r)"
    "nc_left (rl_client r) = None" using assms(2) back_write(2) by (auto simp: patient_def)
  then have "running p \<and> nc_left c = None \<and> nc_out c @ held p = nc_out (rl_client r) @ bs"
    using back_write(3) pump_write_works [of _ "rl_client r" bs c t p] by auto
  moreover have "nc_out c @ held p @ rl_up_in r = nc_out (rl_client r) @ bs @ rl_up_in r"
    using calculation by (metis append_assoc)
  moreover have "running p \<Longrightarrow> nc_out c @ held p @ rl_up_in r = nc_out (rl_client r0) @ rl_up_in r0"
    using assms(2) back_write(2) calculation(2) by (simp add: patient_def)
  ultimately show ?thesis
    using assms(2) b back_write(1,2) breaks_write [OF b(2) back_write(3)] stalls_write [OF b(3) back_write(3)]
    by (auto simp: patient_def)
qed (use assms(2) in \<open>auto simp: patient_def\<close>)

lemma patient_run:
  assumes "relay_step\<^sup>*\<^sup>* r0 r" "patient r0 r0"
  shows "patient r0 r"
  using assms by (induction rule: rtranclp_induct) (auto intro: patient_step)

lemma patient_start:
  "\<not> e \<Longrightarrow> nc_left c = None \<Longrightarrow> nc_left up = None \<Longrightarrow> \<not> stalls t us \<Longrightarrow> \<not> breaks t us \<Longrightarrow> \<not> breaks ut s \<Longrightarrow>
   patient (relay_start s e c t us ue up ut) (relay_start s e c t us ue up ut)"
  by (simp add: patient_def relay_start_def)

text \<open>A client that stops reading before the end of the answer, on working connections.\<close>

definition stalled :: "relay \<Rightarrow> relay \<Rightarrow> bool" where
  "stalled r0 r \<longleftrightarrow>
     \<not> rl_ends r \<and> nc_left (rl_client r) = None \<and> nc_left (rl_up r) = None
     \<and> undisturbed breaks (rl_up_takes r) (rl_forward r) (rl_in r)
     \<and> running (rl_forward r) \<and> running (rl_back r) \<and> \<not> rl_client_closed r \<and> \<not> rl_up_closed r
     \<and> (\<exists>j k. rl_takes r = Stops j \<and> rl_takes r0 = Stops k \<and> j < length (held (rl_back r) @ rl_up_in r)
          \<and> nc_out (rl_client r) @ take j (held (rl_back r) @ rl_up_in r) = nc_out (rl_client r0) @ take k (rl_up_in r0))"

lemma stalled_step:
  assumes "relay_step r r'" "stalled r0 r"
  shows "stalled r0 r'"
  using assms(1)
proof cases
  case (fwd_write bs up t p)
  have "\<not> rl_up_closed r" "\<not> breaks (rl_up_takes r) (bs @ rl_in r)" "nc_left (rl_up r) = None"
    using assms(2) fwd_write(2) by (auto simp: stalled_def)
  then show ?thesis
    using assms(2) fwd_write pump_write_works [of _ "rl_up r" bs up t p] breaks_write [OF _ fwd_write(3)]
    by (auto simp: stalled_def)
next
  case (back_write bs c t p)
  obtain j k where j: "rl_takes r = Stops j" "rl_takes r0 = Stops k" "j < length (bs @ rl_up_in r)"
    "nc_out (rl_client r) @ take j (bs @ rl_up_in r) = nc_out (rl_client r0) @ take k (rl_up_in r0)"
    using assms(2) back_write(2) by (auto simp: stalled_def)
  have w: "pump_write False (Stops j) (rl_client r) bs = Some (c, t, p)" "nc_left (rl_client r) = None"
    using assms(2) back_write(3) j(1) by (auto simp: stalled_def)
  have "running p \<and> nc_left c = None" using pump_write_works [OF w, of "[]"] by simp
  moreover from w(1) have "\<exists>i. t = Stops i \<and> i < length (held p @ rl_up_in r)
    \<and> nc_out c @ take i (held p @ rl_up_in r) = nc_out (rl_client r) @ take j (bs @ rl_up_in r)"
    by (cases rule: pump_write_cases) (use w(2) j(3) in auto)
  ultimately show ?thesis using assms(2) j(2,4) back_write(1) by (auto simp: stalled_def)
qed (use assms(2) in \<open>auto simp: stalled_def\<close>)

lemma stalled_run:
  assumes "relay_step\<^sup>*\<^sup>* r0 r" "stalled r0 r0"
  shows "stalled r0 r"
  using assms by (induction rule: rtranclp_induct) (auto intro: stalled_step)

text \<open>The end of a run.\<close>

lemma result_inv:
  assumes "relay_result (relay_start s e c t us ue up ut) r"
  shows "relay_inv (relay_start s e c t us ue up ut) r" "relay_final r"
  using assms relay_inv_run [OF _ relay_inv_start] by (auto simp: relay_result_def)

lemma result_closed:
  assumes "relay_result (relay_start s e c t us ue up ut) r" "e \<or> ue" "\<not> stalls t us" "\<not> stalls ut s"
  shows "rl_forward r = Returned \<and> rl_back r = Returned \<and> rl_client_closed r \<and> rl_up_closed r"
proof -
  have "undisturbed stalls (rl_up_takes r) (rl_forward r) (rl_in r)" "undisturbed stalls (rl_takes r) (rl_back r) (rl_up_in r)"
    using result_inv(1) [OF assms(1)] assms(3,4) by (auto simp: relay_inv_def relay_start_def)
  then have "\<not> (\<exists>bs. rl_forward r = Holding bs \<and> bs \<noteq> [] \<and> rl_up_takes r = Stops 0)"
    "\<not> (\<exists>bs. rl_back r = Holding bs \<and> bs \<noteq> [] \<and> rl_takes r = Stops 0)" by auto
  then show ?thesis
    using result_inv [OF assms(1)] final_forward [of r] final_back [of r] assms(2)
    by (auto simp: relay_inv_def relay_start_def)
qed

lemma result_prefix:
  assumes "relay_result (relay_start s e c t us ue up ut) r"
  shows "\<exists>x y. nc_out (rl_up r) = nc_out up @ x \<and> prefix x s \<and> nc_out (rl_client r) = nc_out c @ y \<and> prefix y us"
  using result_inv(1) [OF assms] by (force simp: relay_inv_def relay_start_def delivered_def split: if_splits)

lemma result_patient:
  assumes "relay_result (relay_start s e c t us ue up ut) r" "\<not> e" "nc_left c = None" "nc_left up = None"
    and "\<not> stalls t us" "\<not> breaks t us" "\<not> breaks ut s"
  shows "nc_out (rl_client r) = nc_out c @ us"
proof -
  have p: "patient (relay_start s e c t us ue up ut) r"
    using assms patient_run patient_start by (auto simp: relay_result_def)
  then have "\<not> (\<exists>bs. rl_back r = Holding bs \<and> bs \<noteq> [] \<and> rl_takes r = Stops 0)" by (auto simp: patient_def)
  then show ?thesis
    using p result_inv(2) [OF assms(1)] final_back [of r] by (auto simp: patient_def relay_start_def split: if_splits)
qed

lemma result_stalled:
  assumes "relay_result (relay_start s False c (Stops k) us ue up ut) r" "nc_left c = None" "nc_left up = None"
    and "k < length us" "\<not> breaks ut s"
  shows "nc_out (rl_client r) = nc_out c @ take k us \<and> rl_back r \<noteq> Returned \<and> rl_forward r \<noteq> Returned
    \<and> \<not> rl_client_closed r \<and> \<not> rl_up_closed r"
proof -
  have "stalled (relay_start s False c (Stops k) us ue up ut) (relay_start s False c (Stops k) us ue up ut)"
    using assms by (simp add: stalled_def relay_start_def)
  then have p: "stalled (relay_start s False c (Stops k) us ue up ut) r"
    using assms(1) stalled_run by (auto simp: relay_result_def)
  then show ?thesis
    using result_inv(2) [OF assms(1)] final_back [of r] by (auto simp: stalled_def relay_start_def)
qed

text \<open>A client that closes its sending side, and is overtaken by the closing of the upstream's connection.\<close>

lemma half_close_run:
  "relay_result (relay_start [] True c t us ue up ut)
     \<lparr>rl_in = [], rl_ends = True, rl_client = c, rl_takes = t, rl_client_closed = True,
      rl_up_in = us, rl_up_ends = ue, rl_up = up, rl_up_takes = ut, rl_up_closed = True,
      rl_forward = Returned, rl_back = Returned\<rparr>" (is "relay_result _ ?r")
proof -
  define r where "r = relay_start [] True c t us ue up ut"
  have 0: "relay_step r (r\<lparr>rl_forward := Closing\<rparr>)" by (rule fwd_end) (simp_all add: r_def relay_start_def)
  have 1: "relay_step (r\<lparr>rl_forward := Closing\<rparr>) (r\<lparr>rl_up_closed := True, rl_forward := Returned\<rparr>)"
    using fwd_close [of "r\<lparr>rl_forward := Closing\<rparr>"] by simp
  have 2: "relay_step (r\<lparr>rl_up_closed := True, rl_forward := Returned\<rparr>)
      (r\<lparr>rl_up_closed := True, rl_forward := Returned, rl_back := Closing\<rparr>)"
    using back_end [of "r\<lparr>rl_up_closed := True, rl_forward := Returned\<rparr>"] by (simp add: r_def relay_start_def)
  have 3: "relay_step (r\<lparr>rl_up_closed := True, rl_forward := Returned, rl_back := Closing\<rparr>) ?r"
    using back_close [of "r\<lparr>rl_up_closed := True, rl_forward := Returned, rl_back := Closing\<rparr>"]
    by (simp add: r_def relay_start_def)
  have "relay_final ?r" by (auto simp: relay_final_def elim: relay_stepE)
  then show ?thesis
    using 0 1 2 3 unfolding relay_result_def r_def [symmetric]
    by (meson converse_rtranclp_into_rtranclp rtranclp.rtrancl_refl)
qed

end
