(* ===== verification/Proxy.thy ===== *)
theory Proxy
  imports Relay Go_Net Go_Reply Rewrite
begin

text \<open>
  The explicit proxies (proxy.go): the HTTP proxy with CONNECT and the SOCKS5 proxy. A handler gets all the
  bytes its client will send and answers on the client's connection; it ends by closing the connection, by
  handing it, with the bytes not yet read, to the engine, or by starting a relay to an upstream server.

  Parsing and writing HTTP requests (\<open>http.ReadRequest\<close>, \<open>Request.Write\<close>) and dialling are arguments: a
  parsed request comes with the bytes after its headers and those after its body.
\<close>

section \<open>Data\<close>

text \<open>
  A dialled upstream: its connection, what it is going to send, whether it closes after that, and what it
  takes of the bytes that follow the request.
\<close>

record upstream =
  us_conn :: net_conn
  us_sends :: "byte list"
  us_ends :: bool
  us_takes :: reader

text \<open>
  \<open>ht_ClientEnds\<close> is whether the client closes its sending direction after its bytes, \<open>ht_ClientTakes\<close> what
  it takes of the answer.
\<close>

record http_lib =
  ht_ReadRequest :: "byte list \<Rightarrow> (request \<times> byte list \<times> byte list) option"
  ht_WriteRequest :: "request \<Rightarrow> byte list"
  ht_Dial :: "string \<Rightarrow> upstream option"
  ht_ClientEnds :: bool
  ht_ClientTakes :: reader

text \<open>
  \<open>Handled host dst rest\<close> is the call \<open>eng.Handle(bc, host, dst, false)\<close> on a connection whose next bytes
  are \<open>rest\<close>; \<open>Relaying dst r\<close> the start of the relay \<open>r\<close>.
\<close>

datatype proxied =
    Closed
  | Handled string string "byte list"
  | Relaying string relay

section \<open>HTTP proxy\<close>

definition stripHostPort :: "string \<Rightarrow> string" where
  "stripHostPort h = (case SplitHostPort h of Inl _ \<Rightarrow> h | Inr (host, _) \<Rightarrow> host)"

definition with_port :: "string \<Rightarrow> string \<Rightarrow> string" where
  "with_port host port = (case SplitHostPort host of Inl _ \<Rightarrow> JoinHostPort host port | Inr _ \<Rightarrow> host)"

text \<open>
  The response writer \<open>hijackRW\<close> forgets headers and status: of a reply, only the body reaches the client.
\<close>

definition hijack_reply :: "reply \<Rightarrow> byte list" where
  "hijack_reply w = bytes_of (rp_Body w)"

definition established :: string where
  "established = ''HTTP/1.1 200 Connection Established'' @ [CHR 0x0D, CHR 0x0A, CHR 0x0D, CHR 0x0A]"

definition handleHTTPProxyConn :: "unicode \<Rightarrow> http_lib \<Rightarrow> net_conn \<Rightarrow> byte list \<Rightarrow> net_conn \<times> proxied" where
  "handleHTTPProxyConn u H c s =
     (case ht_ReadRequest H s of
        None \<Rightarrow> (c, Closed)
      | Some (req, after_header, after_body) \<Rightarrow>
          if EqualFold u (req_Method req) ''CONNECT'' then
            (let host = with_port (req_Host req) ''443'';
                 c = fst (Write c (bytes_of established))
             in (c, Handled (stripHostPort (req_Host req)) host after_header))
          else
            (let dst = with_port (req_Host req) ''80''
             in case ht_Dial H dst of
                  None \<Rightarrow> (fst (Write c (hijack_reply (http_Error ''upstream dial failed'' 502 new_reply))), Closed)
                | Some up \<Rightarrow>
                    (case Write (us_conn up) (ht_WriteRequest H req) of
                       (uc, Some _) \<Rightarrow> (c, Closed)
                     | (uc, None) \<Rightarrow>
                         (c, Relaying dst
                           (relay_start after_body (ht_ClientEnds H) c (ht_ClientTakes H)
                              (us_sends up) (us_ends up) uc (us_takes up))))))"

section \<open>SOCKS5\<close>

definition socks_reply :: "byte \<Rightarrow> byte list" where
  "socks_reply code = [0x05, code, 0x00, 0x01, 0, 0, 0, 0, 0, 0]"

text \<open>The address of a request, and the bytes after it.\<close>

datatype socks_error = BadStream | BadType

definition socks_host :: "byte \<Rightarrow> byte list \<Rightarrow> socks_error + string \<times> byte list" where
  "socks_host atyp s =
     (if atyp = 0x01 then
        (case ReadFull 4 s of Inl _ \<Rightarrow> Inl BadStream | Inr (addr, s) \<Rightarrow> Inr (IP_String addr, s))
      else if atyp = 0x03 then
        (case ReadFull 1 s of
           Inl _ \<Rightarrow> Inl BadStream
         | Inr (l, s) \<Rightarrow>
             (case ReadFull (unat (l ! 0)) s of Inl _ \<Rightarrow> Inl BadStream | Inr (name, s) \<Rightarrow> Inr (text_of name, s)))
      else if atyp = 0x04 then
        (case ReadFull 16 s of Inl _ \<Rightarrow> Inl BadStream | Inr (addr, s) \<Rightarrow> Inr (IP_String addr, s))
      else Inl BadType)"

text \<open>The part after the greeting has been accepted.\<close>

definition socks_request :: "net_conn \<Rightarrow> byte list \<Rightarrow> net_conn \<times> proxied" where
  "socks_request c s =
     (case ReadFull 4 s of
        Inl _ \<Rightarrow> (c, Closed)
      | Inr (req, s) \<Rightarrow>
          if req ! 0 \<noteq> 0x05 \<or> req ! 1 \<noteq> 0x01 then (fst (Write c (socks_reply 0x07)), Closed)
          else
            (case socks_host (req ! 3) s of
               Inl BadStream \<Rightarrow> (c, Closed)
             | Inl BadType \<Rightarrow> (fst (Write c (socks_reply 0x08)), Closed)
             | Inr (host, s) \<Rightarrow>
                 (case ReadFull 2 s of
                    Inl _ \<Rightarrow> (c, Closed)
                  | Inr (portb, s) \<Rightarrow>
                      (let port = 256 * unat (portb ! 0) + unat (portb ! 1);
                           dst = JoinHostPort host (dec_nat port)
                       in (fst (Write c (socks_reply 0x00)), Handled host dst s)))))"

definition handleSOCKS5 :: "net_conn \<Rightarrow> byte list \<Rightarrow> net_conn \<times> proxied" where
  "handleSOCKS5 c s =
     (case ReadFull 2 s of
        Inl _ \<Rightarrow> (c, Closed)
      | Inr (hdr, s) \<Rightarrow>
          if hdr ! 0 \<noteq> 0x05 then (c, Closed)
          else
            (case ReadFull (unat (hdr ! 1)) s of
               Inl _ \<Rightarrow> (c, Closed)
             | Inr (_, s) \<Rightarrow>
                 (case Write c [0x05, 0x00] of
                    (c, Some _) \<Rightarrow> (c, Closed)
                  | (c, None) \<Rightarrow> socks_request c s)))"

section \<open>Well-formed requests\<close>

datatype socks_addr = V4 "byte list" | Name "byte list" | V6 "byte list"

fun addr_ok :: "socks_addr \<Rightarrow> bool" where
  "addr_ok (V4 a) \<longleftrightarrow> length a = 4"
| "addr_ok (Name n) \<longleftrightarrow> length n < 256"
| "addr_ok (V6 a) \<longleftrightarrow> length a = 16"

fun addr_bytes :: "socks_addr \<Rightarrow> byte list" where
  "addr_bytes (V4 a) = 0x01 # a"
| "addr_bytes (Name n) = 0x03 # of_nat (length n) # n"
| "addr_bytes (V6 a) = 0x04 # a"

fun addr_host :: "socks_addr \<Rightarrow> string" where
  "addr_host (V4 a) = IP_String a"
| "addr_host (Name n) = text_of n"
| "addr_host (V6 a) = IP_String a"

definition socks_connect :: "byte list \<Rightarrow> byte \<Rightarrow> socks_addr \<Rightarrow> byte \<Rightarrow> byte \<Rightarrow> byte list" where
  "socks_connect methods rsv a p1 p2 =
     [0x05, of_nat (length methods)] @ methods @ [0x05, 0x01, rsv] @ addr_bytes a @ [p1, p2]"

lemma ReadFull_take: "length a = n \<Longrightarrow> ReadFull n (a @ s) = Inr (a, s)"
  by (simp add: ReadFull_def)

lemma ReadFull_one: "ReadFull (Suc 0) (b # s) = Inr ([b], s)" "ReadFull 4 (a # b # d # e # s) = Inr ([a, b, d, e], s)"
  by (simp_all add: ReadFull_def eval_nat_numeral)

lemma ReadFull_exact: "ReadFull n s = Inr (a, s') \<longleftrightarrow> length a = n \<and> s = a @ s'"
  by (auto simp: ReadFull_def append_eq_conv_conj)

lemma socks_host_addr:
  assumes "addr_ok a"
  shows "\<exists>t r. addr_bytes a = t # r \<and> socks_host t (r @ s) = Inr (addr_host a, s)"
  using assms
proof (cases a)
  case (Name n)
  then have "unat (of_nat (length n) :: byte) = length n" using assms by (simp add: unat_of_nat)
  then show ?thesis by (simp add: Name socks_host_def ReadFull_take ReadFull_one)
qed (simp_all add: socks_host_def ReadFull_take)

lemma socks_host_only:
  assumes "socks_host t s = Inr (h, s')"
  shows "\<exists>a r. addr_ok a \<and> addr_bytes a = t # r \<and> addr_host a = h \<and> s = r @ s'"
proof -
  consider "t = 1" | "t = 3" | "t = 4" using assms by (auto simp: socks_host_def split: if_splits)
  then show ?thesis
  proof cases
    case 1
    then obtain a where "ReadFull 4 s = Inr (a, s')" "h = IP_String a"
      using assms by (auto simp: socks_host_def split: sum.splits)
    then show ?thesis using 1 by (intro exI [of _ "V4 a"]) (simp add: ReadFull_exact)
  next
    case 2
    then obtain l s1 n where l: "ReadFull 1 s = Inr (l, s1)" and n: "ReadFull (unat (l ! 0)) s1 = Inr (n, s')" "h = text_of n"
      using assms by (auto simp: socks_host_def split: sum.splits)
    obtain b where b: "l = [b]" using l by (auto simp: ReadFull_exact length_Suc_conv)
    have "length n < 256" "of_nat (length n) = b"
      using n(1) unat_byte_less [of b] by (auto simp: b ReadFull_exact)
    then show ?thesis using 2 l n b by (intro exI [of _ "Name n"]) (simp add: ReadFull_exact)
  next
    case 3
    then obtain a where "ReadFull 16 s = Inr (a, s')" "h = IP_String a"
      using assms by (auto simp: socks_host_def split: sum.splits)
    then show ?thesis using 3 by (intro exI [of _ "V6 a"]) (simp add: ReadFull_exact)
  qed
qed

lemma request_accepts:
  assumes "addr_ok a"
  shows "\<exists>c'. socks_request c ([0x05, 0x01, rsv] @ addr_bytes a @ [p1, p2] @ rest) =
    (c', Handled (addr_host a) (JoinHostPort (addr_host a) (dec_nat (256 * unat p1 + unat p2))) rest)"
proof -
  obtain t r where "addr_bytes a = t # r" "socks_host t (r @ [p1, p2] @ rest) = Inr (addr_host a, [p1, p2] @ rest)"
    using socks_host_addr [OF assms] by blast
  then show ?thesis by (simp add: socks_request_def ReadFull_one ReadFull_two Let_def)
qed

lemma request_accepts_only:
  assumes "socks_request c s = (c', Handled host dst rest)"
  shows "\<exists>rsv a p1 p2. addr_ok a \<and> s = [0x05, 0x01, rsv] @ addr_bytes a @ [p1, p2] @ rest
    \<and> host = addr_host a \<and> dst = JoinHostPort host (dec_nat (256 * unat p1 + unat p2))"
proof -
  obtain req s1 where req: "ReadFull 4 s = Inr (req, s1)" "req ! 0 = 5" "req ! 1 = 1"
    using assms by (auto simp: socks_request_def split: sum.splits if_splits)
  then obtain h s2 where h: "socks_host (req ! 3) s1 = Inr (h, s2)"
    using assms by (auto simp: socks_request_def split: sum.splits socks_error.splits)
  obtain p where p: "ReadFull 2 s2 = Inr (p, rest)" and hd: "host = h" "dst = JoinHostPort h (dec_nat (256 * unat (p ! 0) + unat (p ! 1)))"
    using assms req h by (auto simp: socks_request_def Let_def split: sum.splits if_splits)
  obtain x y z w where xs: "req = [x, y, z, w]" using req(1) by (auto simp: ReadFull_exact length_Suc_conv eval_nat_numeral)
  obtain p1 p2 where ps: "p = [p1, p2]" using p by (auto simp: ReadFull_exact length_Suc_conv eval_nat_numeral)
  obtain a r where a: "addr_ok a" "addr_bytes a = w # r" "addr_host a = h" "s1 = r @ s2"
    using socks_host_only [OF h] by (auto simp: xs)
  have "s = [0x05, 0x01, z] @ addr_bytes a @ [p1, p2] @ rest"
    using req p a by (simp add: xs ps ReadFull_exact)
  then show ?thesis using a hd ps by auto
qed

section \<open>Properties\<close>

text \<open>
  C23: the SOCKS5 proxy accepts a connection exactly when the client's bytes begin with a greeting and a
  CONNECT request of one of the three address forms: the engine is then called with the host as text, the
  destination made of it and the port, and the bytes that follow the request.
\<close>

theorem socks_accepts_exactly:
  "(\<exists>c'. handleSOCKS5 c s = (c', Handled host dst rest)) \<longleftrightarrow>
     nc_left c \<noteq> Some 0 \<and>
     (\<exists>methods rsv a p1 p2. length methods < 256 \<and> addr_ok a \<and> s = socks_connect methods rsv a p1 p2 @ rest
        \<and> host = addr_host a \<and> dst = JoinHostPort host (dec_nat (256 * unat p1 + unat p2)))"
proof (intro iffI; elim exE conjE)
  fix c'
  assume h: "handleSOCKS5 c s = (c', Handled host dst rest)"
  then obtain hdr s1 m s2 c1 where hdr: "ReadFull 2 s = Inr (hdr, s1)" "hdr ! 0 = 5" and m: "ReadFull (unat (hdr ! 1)) s1 = Inr (m, s2)"
    and w: "Write c [0x05, 0x00] = (c1, None)" and r: "socks_request c1 s2 = (c', Handled host dst rest)"
    by (auto simp: handleSOCKS5_def split: sum.splits if_splits prod.splits option.splits)
  obtain x y where xs: "hdr = [x, y]" using hdr(1) by (auto simp: ReadFull_exact length_Suc_conv eval_nat_numeral)
  have l: "length m < 256" "of_nat (length m) = y"
    using m unat_byte_less [of y] by (auto simp: xs ReadFull_exact)
  have "nc_left c \<noteq> Some 0" using w by (auto simp: Write_def)
  moreover obtain rsv a p1 p2 where "addr_ok a" "s2 = [0x05, 0x01, rsv] @ addr_bytes a @ [p1, p2] @ rest"
      "host = addr_host a" "dst = JoinHostPort host (dec_nat (256 * unat p1 + unat p2))"
    using request_accepts_only [OF r] by blast
  moreover from this(2) have "s = socks_connect m rsv a p1 p2 @ rest"
    using hdr m l by (simp add: xs ReadFull_exact socks_connect_def)
  ultimately show "nc_left c \<noteq> Some 0 \<and>
     (\<exists>methods rsv a p1 p2. length methods < 256 \<and> addr_ok a \<and> s = socks_connect methods rsv a p1 p2 @ rest
        \<and> host = addr_host a \<and> dst = JoinHostPort host (dec_nat (256 * unat p1 + unat p2)))"
    using l(1) by blast
next
  fix methods rsv a p1 p2
  assume a: "nc_left c \<noteq> Some 0" "length methods < 256" "addr_ok a" "s = socks_connect methods rsv a p1 p2 @ rest"
    "host = addr_host a" "dst = JoinHostPort host (dec_nat (256 * unat p1 + unat p2))"
  have "unat (of_nat (length methods) :: byte) = length methods" using a(2) by (simp add: unat_of_nat)
  moreover have "snd (Write c [0x05, 0x00]) = None"
    using a(1) by (cases "nc_left c"; cases "the (nc_left c)") (auto simp: Write_def)
  then obtain c1 where "Write c [0x05, 0x00] = (c1, None)" by (metis prod.collapse)
  moreover obtain c2 where "socks_request c1 ([0x05, 0x01, rsv] @ addr_bytes a @ [p1, p2] @ rest) = (c2, Handled host dst rest)"
    using request_accepts [OF a(3), of c1 rsv p1 p2 rest] a(5,6) by blast
  ultimately have "handleSOCKS5 c s = (c2, Handled host dst rest)"
    by (simp add: handleSOCKS5_def a(4) socks_connect_def ReadFull_two ReadFull_take)
  then show "\<exists>c'. handleSOCKS5 c s = (c', Handled host dst rest)" by blast
qed

text \<open>
  A client of the SOCKS5 proxy is answered in one of five ways, whatever it sends and wherever its
  connection breaks: nothing, the method alone, or the method with one reply; success is replied exactly when
  the engine takes over, and a connection that is not taken over is closed.
\<close>

theorem socks_answers:
  assumes "handleSOCKS5 c s = (c', r)" "nc_left c = None"
  shows "(r = Closed \<and> nc_out c' \<in> (\<lambda>x. nc_out c @ x) ` {[], [0x05, 0x00], [0x05, 0x00] @ socks_reply 0x07, [0x05, 0x00] @ socks_reply 0x08})
    \<or> (\<exists>host dst rest. r = Handled host dst rest \<and> nc_out c' = nc_out c @ [0x05, 0x00] @ socks_reply 0x00)"
proof -
  have req: "socks_request c s = (c', r) \<Longrightarrow> nc_left c = None \<Longrightarrow>
      (r = Closed \<and> nc_out c' \<in> (\<lambda>x. nc_out c @ x) ` {[], socks_reply 0x07, socks_reply 0x08})
      \<or> (\<exists>host dst rest. r = Handled host dst rest \<and> nc_out c' = nc_out c @ socks_reply 0x00)" for c s
    by (auto simp: socks_request_def Let_def Write_def split: sum.splits if_splits socks_error.splits)
  show ?thesis
    using assms req [of "c\<lparr>nc_out := nc_out c @ [0x05, 0x00]\<rparr>"]
    by (auto simp: handleSOCKS5_def Write_def split: sum.splits if_splits)
qed

theorem socks_answers_witness:
  "\<exists>c'. handleSOCKS5 \<lparr>nc_out = [], nc_left = None\<rparr> [0x04, 0x01] = (c', Closed) \<and> nc_out c' \<in>
     {[], [0x05, 0x00], [0x05, 0x00] @ socks_reply 0x07, [0x05, 0x00] @ socks_reply 0x08}"
proof -
  obtain c' r where h: "handleSOCKS5 \<lparr>nc_out = [], nc_left = None\<rparr> [0x04, 0x01] = (c', r)" by fastforce
  have "r = Closed" using h by (simp add: handleSOCKS5_def ReadFull_two)
  then show ?thesis using socks_answers [OF h] h by auto
qed

text \<open>
  CONNECT: the client is told that the connection is established before anything is known of the
  upstream, and the engine gets the name without the port, the destination with a port (443 when the client
  gave none), and every byte the client sent after the request's headers.
\<close>

theorem connect_hands_over:
  assumes "ht_ReadRequest H s = Some (req, rest, r')" "EqualFold u (req_Method req) ''CONNECT''" "nc_left c = None"
    and "CHR ''['' \<notin> set h" "CHR '']'' \<notin> set h"
    and "req_Host req = h \<and> CHR '':'' \<notin> set h \<and> p = ''443''
      \<or> req_Host req = JoinHostPort h p \<and> CHR '':'' \<notin> set p \<and> CHR ''['' \<notin> set p \<and> CHR '']'' \<notin> set p"
  shows "handleHTTPProxyConn u H c s =
    (c\<lparr>nc_out := nc_out c @ bytes_of established\<rparr>, Handled h (JoinHostPort h p) rest)"
proof -
  have "with_port (req_Host req) ''443'' = JoinHostPort h p \<and> stripHostPort (req_Host req) = h"
    using assms(6) SplitHostPort_no_colon [of h] SplitHostPort_Join [OF assms(4,5), of p]
    by (auto simp: with_port_def stripHostPort_def)
  then show ?thesis using assms(1-3) by (simp add: handleHTTPProxyConn_def Write_def)
qed

theorem connect_hands_over_witness:
  "\<exists>H. handleHTTPProxyConn ex_unicode H \<lparr>nc_out = [], nc_left = None\<rparr> []
     = (\<lparr>nc_out = bytes_of established, nc_left = None\<rparr>, Handled ''a.test'' ''a.test:443'' [1, 2])"
proof -
  define req where "req = ex_request\<lparr>req_Method := ''CONNECT'', req_Host := ''a.test''\<rparr>"
  define H where "H = \<lparr>ht_ReadRequest = (\<lambda>s. Some (req, [1, 2], [])), ht_WriteRequest = (\<lambda>r. []), ht_Dial = (\<lambda>d. None), ht_ClientEnds = False, ht_ClientTakes = Reads_on\<rparr>"
  have "handleHTTPProxyConn ex_unicode H \<lparr>nc_out = [], nc_left = None\<rparr> []
     = (\<lparr>nc_out = [], nc_left = None\<rparr>\<lparr>nc_out := nc_out \<lparr>nc_out = [], nc_left = None\<rparr> @ bytes_of established\<rparr>,
        Handled ''a.test'' (JoinHostPort ''a.test'' ''443'') [1, 2])"
    by (rule connect_hands_over [where req = req]) (simp_all add: H_def req_def EqualFold_refl)
  then show ?thesis by (intro exI [of _ H]) (simp add: JoinHostPort_def)
qed

text \<open>
  When the upstream of a plain request cannot be reached, the client gets the bare error text: the bytes
  are no HTTP response, since the response writer used there drops the status line and the headers.
\<close>

theorem failed_dial_answer_is_not_http:
  assumes "ht_ReadRequest H s = Some (req, r1, r2)" "\<not> EqualFold u (req_Method req) ''CONNECT''"
    and "ht_Dial H (with_port (req_Host req) ''80'') = None" "nc_left c = None" "nc_out c = []"
  shows "snd (handleHTTPProxyConn u H c s) = Closed
    \<and> text_of (nc_out (fst (handleHTTPProxyConn u H c s))) = ''upstream dial failed'' @ [CHR 0x0A]
    \<and> \<not> HasPrefix (text_of (nc_out (fst (handleHTTPProxyConn u H c s)))) ''HTTP/''"
  using assms
  by (simp add: handleHTTPProxyConn_def Write_def hijack_reply_def text_of_bytes_of http_Error_def HasPrefix_def)

theorem failed_dial_answer_is_not_http_witness:
  "\<exists>H. text_of (nc_out (fst (handleHTTPProxyConn ex_unicode H \<lparr>nc_out = [], nc_left = None\<rparr> []))) = ''upstream dial failed'' @ [CHR 0x0A]"
proof -
  define H where "H = \<lparr>ht_ReadRequest = (\<lambda>s. Some (ex_request\<lparr>req_Method := []\<rparr>, [], [])), ht_WriteRequest = (\<lambda>r. []), ht_Dial = (\<lambda>d. None), ht_ClientEnds = False, ht_ClientTakes = Reads_on\<rparr>"
  have "\<not> EqualFold ex_unicode [] ''CONNECT''" by (simp add: EqualFold_ascii)
  then have "text_of (nc_out (fst (handleHTTPProxyConn ex_unicode H \<lparr>nc_out = [], nc_left = None\<rparr> []))) = ''upstream dial failed'' @ [CHR 0x0A]"
    using failed_dial_answer_is_not_http [of H "[]" "ex_request\<lparr>req_Method := []\<rparr>" "[]" "[]" ex_unicode "\<lparr>nc_out = [], nc_left = None\<rparr>"]
    by (simp add: H_def)
  then show ?thesis by blast
qed

section \<open>The connection that is handed over\<close>

text \<open>
  \<open>bufioConn\<close> reads through the buffer that the handler has read the request with, so that bytes that came
  with it are not lost. \<open>bc_net\<close> are the pieces in which the network delivers the rest; a read of the
  connection gives at most one. \<open>bufio.Reader.Read\<close> bypasses its buffer for large reads. Writing goes to the
  connection, \<open>bc_conn\<close>.
\<close>

record bufioConn =
  bc_buf :: "byte list"
  bc_net :: "byte list list"
  bc_conn :: net_conn

definition net_Read :: "nat \<Rightarrow> byte list list \<Rightarrow> byte list \<times> byte list list" where
  "net_Read n net = (case net of [] \<Rightarrow> ([], []) | x # xs \<Rightarrow> (take n x, if length x \<le> n then xs else drop n x # xs))"

definition bufio_size :: nat where "bufio_size = 4096"

definition bufioConn_Read :: "nat \<Rightarrow> bufioConn \<Rightarrow> byte list \<times> bufioConn" where
  "bufioConn_Read n b =
     (if bc_buf b \<noteq> [] then (take n (bc_buf b), b\<lparr>bc_buf := drop n (bc_buf b)\<rparr>)
      else if bufio_size \<le> n then (case net_Read n (bc_net b) of (x, net) \<Rightarrow> (x, b\<lparr>bc_net := net\<rparr>))
      else
        (case net_Read bufio_size (bc_net b) of
           (x, net) \<Rightarrow> (take n x, b\<lparr>bc_buf := drop n x, bc_net := net\<rparr>)))"

definition bufioConn_Write :: "bufioConn \<Rightarrow> byte list \<Rightarrow> bufioConn \<times> io_error option" where
  "bufioConn_Write b p = (case Write (bc_conn b) p of (c, err) \<Rightarrow> (b\<lparr>bc_conn := c\<rparr>, err))"

definition bc_rest :: "bufioConn \<Rightarrow> byte list" where
  "bc_rest b = bc_buf b @ concat (bc_net b)"

lemma net_Read_rest: "net_Read n net = (x, net') \<Longrightarrow> x @ concat net' = concat net"
  by (cases net) (auto simp: net_Read_def split: if_splits)

lemma bufioConn_Read_rest: "bufioConn_Read n b = (x, b') \<Longrightarrow> x @ bc_rest b' = bc_rest b"
proof -
  assume r: "bufioConn_Read n b = (x, b')"
  consider "bc_buf b \<noteq> []" | "bc_buf b = []" "bufio_size \<le> n" | "bc_buf b = []" "\<not> bufio_size \<le> n" by blast
  then show ?thesis
  proof cases
    case 1
    then show ?thesis using r by (auto simp: bufioConn_Read_def bc_rest_def)
  next
    case 2
    then obtain net where "net_Read n (bc_net b) = (x, net)" "b' = b\<lparr>bc_net := net\<rparr>"
      using r by (auto simp: bufioConn_Read_def split: prod.splits)
    then show ?thesis using 2 net_Read_rest by (simp add: bc_rest_def)
  next
    case 3
    then obtain y net where "net_Read bufio_size (bc_net b) = (y, net)" "x = take n y"
      "b' = b\<lparr>bc_buf := drop n y, bc_net := net\<rparr>"
      using r by (auto simp: bufioConn_Read_def split: prod.splits)
    moreover have "take n y @ drop n y @ concat net = y @ concat net" by (metis append_assoc append_take_drop_id)
    ultimately show ?thesis using 3 net_Read_rest [of bufio_size "bc_net b" y net] by (simp add: bc_rest_def)
  qed
qed

text \<open>Whatever sizes are asked for, the engine reads the rest of the stream in order.\<close>

lemma bufioConn_reads:
  "foldl (\<lambda>(out, b) n. case bufioConn_Read n b of (x, b) \<Rightarrow> (out @ x, b)) (out, b) ns = (out', b') \<Longrightarrow>
   out' @ bc_rest b' = out @ bc_rest b"
proof (induction ns arbitrary: out b)
  case (Cons n ns)
  obtain x b1 where r: "bufioConn_Read n b = (x, b1)" by fastforce
  show ?case using Cons.IH [of "out @ x" b1] Cons.prems bufioConn_Read_rest [OF r] by (simp add: r)
qed simp

text \<open>The two directions do not touch each other.\<close>

lemma bufioConn_directions:
  "bc_rest (fst (bufioConn_Write b p)) = bc_rest b" "bc_conn (snd (bufioConn_Read n b)) = bc_conn b"
  "nc_left (bc_conn b) = None \<Longrightarrow>
     nc_out (bc_conn (fst (bufioConn_Write b p))) = nc_out (bc_conn b) @ p \<and> snd (bufioConn_Write b p) = None"
  by (auto simp: bufioConn_Write_def bufioConn_Read_def bc_rest_def Write_def split: prod.splits option.splits)

section \<open>Relaying\<close>

lemma relaying_start:
  assumes "handleHTTPProxyConn u H c s = (c', Relaying dst r)"
  shows "\<exists>req r1 r2 up uc. ht_ReadRequest H s = Some (req, r1, r2) \<and> ht_Dial H dst = Some up
    \<and> Write (us_conn up) (ht_WriteRequest H req) = (uc, None) \<and> c' = c
    \<and> r = relay_start r2 (ht_ClientEnds H) c (ht_ClientTakes H) (us_sends up) (us_ends up) uc (us_takes up)"
  using assms
  by (auto simp: handleHTTPProxyConn_def Let_def split: option.splits prod.splits if_splits)

lemma relaying_start_of:
  assumes "ht_ReadRequest H s = Some (req, r1, rest)" "ht_Dial H dst = Some up" "nc_out (us_conn up) = []"
    and "handleHTTPProxyConn u H c s = (c', Relaying dst r)"
  shows "\<exists>uc. r = relay_start rest (ht_ClientEnds H) c (ht_ClientTakes H) (us_sends up) (us_ends up) uc (us_takes up)
    \<and> nc_out uc = ht_WriteRequest H req \<and> (nc_left (us_conn up) = None \<longrightarrow> nc_left uc = None)"
  using relaying_start [OF assms(4)] assms(1-3) Write_None [of "us_conn up"] by fastforce

text \<open>
  C21: a plain request's relay makes at most three steps for a byte that it reads and four more, in whatever
  pieces and order the bytes of the two peers, which are finitely many, are copied, so that it comes to a
  state in which it can go no further. When one of the two sides finishes (the other may fall silent), and
  neither stops reading on an open connection before it has taken all the bytes that are sent to it, both
  copies have returned then and both connections are closed.
\<close>

theorem relay_comes_to_an_end:
  assumes "handleHTTPProxyConn u H c s = (c', Relaying dst r)"
  shows "(\<forall>n r'. (relay_step ^^ n) r r' \<longrightarrow>
           n + 3 * length (rl_in r') + 3 * length (rl_up_in r') \<le> 3 * length (rl_in r) + 3 * length (rl_up_in r) + 4)
    \<and> (\<exists>r'. relay_result r r')
    \<and> (\<forall>r'. relay_result r r' \<longrightarrow> rl_ends r \<or> rl_up_ends r \<longrightarrow>
         \<not> stalls (rl_takes r) (rl_up_in r) \<and> \<not> stalls (rl_up_takes r) (rl_in r) \<longrightarrow>
         rl_forward r' = Returned \<and> rl_back r' = Returned \<and> rl_client_closed r' \<and> rl_up_closed r')"
proof -
  obtain r2 e t us ue uc ut where r: "r = relay_start r2 e c t us ue uc ut" using relaying_start [OF assms] by blast
  have "n + 3 * length (rl_in r') + 3 * length (rl_up_in r') \<le> 3 * length (rl_in r) + 3 * length (rl_up_in r) + 4"
    if "(relay_step ^^ n) r r'" for n r'
    using relay_steps_weight [OF that] by (simp add: r relay_weight_def relay_start_def)
  moreover have "rl_ends r = e" "rl_up_ends r = ue" "rl_takes r = t" "rl_up_takes r = ut" "rl_in r = r2" "rl_up_in r = us"
    by (simp_all add: r relay_start_def)
  ultimately show ?thesis using result_closed [of r2 e c t us ue uc ut] relay_reaches_final [of r] by (auto simp: r)
qed

definition ex_plain :: request where
  "ex_plain = ex_request\<lparr>req_Method := ''GET'', req_Host := ''a.test''\<rparr>"

definition ex_upstream :: "byte list \<Rightarrow> upstream" where
  "ex_upstream answer = \<lparr>us_conn = \<lparr>nc_out = [], nc_left = None\<rparr>, us_sends = answer, us_ends = True, us_takes = Reads_on\<rparr>"

definition ex_plain_lib :: "byte list \<Rightarrow> bool \<Rightarrow> reader \<Rightarrow> http_lib" where
  "ex_plain_lib answer ends takes =
     \<lparr>ht_ReadRequest = (\<lambda>s. Some (ex_plain, [], [])), ht_WriteRequest = (\<lambda>r. [7]),
      ht_Dial = (\<lambda>d. Some (ex_upstream answer)), ht_ClientEnds = ends, ht_ClientTakes = takes\<rparr>"

definition ex_relay :: "bool \<Rightarrow> reader \<Rightarrow> relay" where
  "ex_relay ends takes =
     relay_start [] ends \<lparr>nc_out = [], nc_left = None\<rparr> takes [1, 2] True \<lparr>nc_out = [7], nc_left = None\<rparr> Reads_on"

lemma ex_relaying:
  "\<exists>dst. handleHTTPProxyConn ex_unicode (ex_plain_lib [1, 2] e t) \<lparr>nc_out = [], nc_left = None\<rparr> [] =
     (\<lparr>nc_out = [], nc_left = None\<rparr>, Relaying dst (ex_relay e t))"
  by (simp add: handleHTTPProxyConn_def ex_plain_lib_def ex_upstream_def ex_relay_def ex_plain_def EqualFold_ascii Write_def Let_def)

lemma ex_plain_lib_simps:
  "ht_ReadRequest (ex_plain_lib a e t) s = Some (ex_plain, [], [])" "ht_Dial (ex_plain_lib a e t) d = Some (ex_upstream a)"
  "ht_ClientEnds (ex_plain_lib a e t) = e" "ht_ClientTakes (ex_plain_lib a e t) = t" "us_sends (ex_upstream a) = a"
  "us_conn (ex_upstream a) = \<lparr>nc_out = [], nc_left = None\<rparr>" "us_takes (ex_upstream a) = Reads_on"
  by (simp_all add: ex_plain_lib_def ex_upstream_def)

theorem relay_comes_to_an_end_witness:
  "\<exists>r r'. relay_result r r' \<and> rl_client_closed r' \<and> rl_up_closed r' \<and> rl_up_in r = [1, 2]"
proof -
  obtain dst where h: "handleHTTPProxyConn ex_unicode (ex_plain_lib [1, 2] False Reads_on) \<lparr>nc_out = [], nc_left = None\<rparr> [] =
     (\<lparr>nc_out = [], nc_left = None\<rparr>, Relaying dst (ex_relay False Reads_on))"
    using ex_relaying by blast
  from relay_comes_to_an_end [OF h] show ?thesis by (fastforce simp: ex_relay_def relay_start_def)
qed

text \<open>
  C22: what a relay delivers: the upstream gets the request and then a prefix of what the client sent after
  it, the client a prefix of what the upstream sends; and a client that keeps its side open until it has the
  answer gets all of it, on connections that work: neither fails or breaks, and the client does not stop
  reading. The upstream may.
\<close>

theorem relay_delivers:
  assumes "ht_ReadRequest H s = Some (req, r1, rest)" "ht_Dial H dst = Some up" "nc_out (us_conn up) = []"
    and "handleHTTPProxyConn u H c s = (c', Relaying dst r)" "relay_result r r'"
  shows "(\<exists>x. nc_out (rl_up r') = ht_WriteRequest H req @ x \<and> prefix x rest)
    \<and> (\<exists>y. nc_out (rl_client r') = nc_out c @ y \<and> prefix y (us_sends up))
    \<and> (\<not> ht_ClientEnds H \<and> nc_left c = None \<and> nc_left (us_conn up) = None
         \<and> \<not> stalls (ht_ClientTakes H) (us_sends up) \<and> \<not> breaks (ht_ClientTakes H) (us_sends up)
         \<and> \<not> breaks (us_takes up) rest \<longrightarrow>
         nc_out (rl_client r') = nc_out c @ us_sends up)"
proof -
  obtain uc where r: "r = relay_start rest (ht_ClientEnds H) c (ht_ClientTakes H) (us_sends up) (us_ends up) uc (us_takes up)"
    and uc: "nc_out uc = ht_WriteRequest H req" "nc_left (us_conn up) = None \<longrightarrow> nc_left uc = None"
    using relaying_start_of [OF assms(1-4)] by (elim exE conjE)
  obtain x y where "nc_out (rl_up r') = nc_out uc @ x" "prefix x rest" "nc_out (rl_client r') = nc_out c @ y" "prefix y (us_sends up)"
    using result_prefix [OF assms(5) [unfolded r]] by blast
  moreover have "nc_out (rl_client r') = nc_out c @ us_sends up"
    if "\<not> ht_ClientEnds H" "nc_left c = None" "nc_left (us_conn up) = None" "\<not> stalls (ht_ClientTakes H) (us_sends up)"
      "\<not> breaks (ht_ClientTakes H) (us_sends up)" "\<not> breaks (us_takes up) rest"
    using result_patient [OF assms(5) [unfolded r]] that uc(2) by simp
  ultimately show ?thesis unfolding uc(1) by blast
qed

theorem relay_delivers_witness:
  "\<exists>r r'. relay_result r r' \<and> nc_out (rl_client r') = [1, 2] \<and> rl_up_in r = [1, 2]"
proof -
  let ?H = "ex_plain_lib [1, 2] False Reads_on" and ?c = "\<lparr>nc_out = [], nc_left = None\<rparr>"
  obtain dst where h: "handleHTTPProxyConn ex_unicode ?H ?c [] = (?c, Relaying dst (ex_relay False Reads_on))"
    using ex_relaying by blast
  obtain r' where r': "relay_result (ex_relay False Reads_on) r'"
    using relay_reaches_final by blast
  have "nc_out (rl_client r') = [1, 2]"
    using relay_delivers [OF _ _ _ h r', of ex_plain "[]" "[]" "ex_upstream [1, 2]"] by (simp add: ex_plain_lib_simps)
  moreover have "rl_up_in (ex_relay False Reads_on) = [1, 2]" by (simp add: ex_relay_def relay_start_def)
  ultimately show ?thesis using r' by blast
qed

text \<open>
  C6: no deadline guards the relay. A client that keeps its connection open but stops reading before it has
  taken the whole answer, on connections that neither fail nor break, keeps both copies and both connections
  for good, even when the upstream has finished: every run that can go no further has got stuck there, with
  exactly the bytes delivered that the client took.
\<close>

theorem stalled_client_keeps_relay_open:
  assumes "ht_ReadRequest H s = Some (req, r1, rest)" "ht_Dial H dst = Some up" "nc_out (us_conn up) = []"
    and "handleHTTPProxyConn u H c s = (c', Relaying dst r)" "relay_result r r'"
    and "\<not> ht_ClientEnds H" "ht_ClientTakes H = Stops k" "k < length (us_sends up)"
    and "nc_left c = None" "nc_left (us_conn up) = None" "\<not> breaks (us_takes up) rest"
  shows "rl_forward r' \<noteq> Returned \<and> rl_back r' \<noteq> Returned \<and> \<not> rl_client_closed r' \<and> \<not> rl_up_closed r'
    \<and> nc_out (rl_client r') = nc_out c @ take k (us_sends up)"
proof -
  obtain uc where r: "r = relay_start rest False c (Stops k) (us_sends up) (us_ends up) uc (us_takes up)"
    and uc: "nc_left (us_conn up) = None \<Longrightarrow> nc_left uc = None"
    using relaying_start_of [OF assms(1-4)] assms(6,7) by auto
  show ?thesis
    using result_stalled [OF assms(5) [unfolded r] assms(9) uc [OF assms(10)] assms(8,11)] by simp
qed

theorem stalled_client_keeps_relay_open_witness:
  "\<exists>r r'. relay_result r r' \<and> rl_up_ends r \<and> \<not> rl_client_closed r' \<and> \<not> rl_up_closed r' \<and> nc_out (rl_client r') = [1]"
proof -
  let ?H = "ex_plain_lib [1, 2] False (Stops 1)" and ?c = "\<lparr>nc_out = [], nc_left = None\<rparr>"
  obtain dst where h: "handleHTTPProxyConn ex_unicode ?H ?c [] = (?c, Relaying dst (ex_relay False (Stops 1)))"
    using ex_relaying by blast
  obtain r' where r': "relay_result (ex_relay False (Stops 1)) r'"
    using relay_reaches_final by blast
  have "\<not> rl_client_closed r' \<and> \<not> rl_up_closed r' \<and> nc_out (rl_client r') = [1]"
    using stalled_client_keeps_relay_open [OF _ _ _ h r', of ex_plain "[]" "[]" "ex_upstream [1, 2]" 1]
    by (simp add: ex_plain_lib_simps)
  moreover have "rl_up_ends (ex_relay False (Stops 1))" by (simp add: ex_relay_def relay_start_def)
  ultimately show ?thesis using r' by blast
qed

text \<open>
  C39: a client that closes its sending direction after the request, as the end of its input, may get nothing:
  the end of the input closes the whole connection to the upstream, also for reading, and the answer that is
  under way is dropped.
\<close>

theorem half_close_loses_the_answer:
  assumes "handleHTTPProxyConn u H c s = (c', Relaying dst r)" "ht_ReadRequest H s = Some (req, r1, [])" "ht_ClientEnds H"
  shows "\<exists>r'. relay_result r r' \<and> nc_out (rl_client r') = nc_out c \<and> rl_client_closed r'"
proof -
  obtain t us ue uc ut where "r = relay_start [] True c t us ue uc ut" using relaying_start [OF assms(1)] assms(2,3) by auto
  then show ?thesis using half_close_run [of c t us ue uc ut] by (intro exI conjI) (assumption | simp)+
qed

theorem half_close_loses_the_answer_witness:
  "\<exists>r r'. relay_result r r' \<and> rl_up_in r = [1, 2] \<and> nc_out (rl_client r') = [] \<and> rl_client_closed r'"
proof -
  let ?H = "ex_plain_lib [1, 2] True Reads_on" and ?c = "\<lparr>nc_out = [], nc_left = None\<rparr>"
  obtain dst where h: "handleHTTPProxyConn ex_unicode ?H ?c [] = (?c, Relaying dst (ex_relay True Reads_on))"
    using ex_relaying by blast
  have "rl_up_in (ex_relay True Reads_on) = [1, 2]" by (simp add: ex_relay_def relay_start_def)
  then show ?thesis using half_close_loses_the_answer [OF h, of ex_plain "[]"] by (fastforce simp: ex_plain_lib_simps)
qed

end
