(* ===== verification/Startup.thy ===== *)
theory Startup
  imports Server Proxy
begin

text \<open>
  Starting the program (main.go): the flags, what is loaded, seeded and saved, which files are written,
  which redirect rules are installed, and whether the admin server is allowed to listen.

  The engine's CA, the opening of the key log and the installation of redirect rules are arguments. The
  loops that accept connections are not modelled: they start one handler per connection.
\<close>

section \<open>Surroundings\<close>

record flags =
  fl_listen :: string
  fl_httpProxy :: string
  fl_socks :: string
  fl_admin :: string
  fl_adminToken :: string
  fl_data :: string
  fl_keylog :: string
  fl_verify :: bool
  fl_install :: bool
  fl_mode :: string
  fl_ports :: string
  fl_excludeNets :: string

text \<open>The environment variables; an unset one is empty.\<close>

record environ =
  en_adminToken :: string
  en_keylog :: string
  en_intercept :: string
  en_originDir :: string
  en_openAdmin :: string

definition default_flags :: "environ \<Rightarrow> flags" where
  "default_flags e =
     \<lparr>fl_listen = '':3128'', fl_httpProxy = [], fl_socks = [], fl_admin = ''127.0.0.1:8080'',
      fl_adminToken = en_adminToken e, fl_data = ''/data'', fl_keylog = en_keylog e, fl_verify = False,
      fl_install = True, fl_mode = ''output'', fl_ports = ''80,443'',
      fl_excludeNets = ''127.0.0.0/8,10.0.0.0/8,172.16.0.0/12,192.168.0.0/16''\<rparr>"

datatype redirect_mode = OutputRedirect | PreroutingRedirect

record RuleSpec =
  sp_ProxyPort :: int64
  sp_Ports :: "int64 list"
  sp_ExcludeUID :: int
  sp_ExcludeNets :: "string list"
  sp_Mode :: redirect_mode

text \<open>
  \<open>lp_ca\<close> is \<open>gomitm.LoadOrCreateCA\<close>, with the certificate as PEM text; \<open>lp_openLog\<close> opens the key log for
  appending; \<open>lp_tls\<close> is the engine's TLS library without its dump directory.
\<close>

record launch_lib =
  lp_L :: json_lib
  lp_u :: unicode
  lp_ord :: "string map_order"
  lp_rnd :: entropy
  lp_seedRnd :: entropy
  lp_ca :: "string \<Rightarrow> os \<Rightarrow> os \<times> (string + string)"
  lp_openLog :: "string \<Rightarrow> os \<Rightarrow> os \<times> string option"
  lp_installRules :: "RuleSpec \<Rightarrow> string option"
  lp_tls :: tls_lib

datatype admin_start = Refused | Serving

record started =
  st_server :: server
  st_conf :: admin_conf
  st_tls :: tls_lib
  st_verify :: bool
  st_keylog :: bool
  st_spec :: "RuleSpec option"
  st_httpProxy :: "string option"
  st_socks :: "string option"
  st_listen :: string
  st_admin :: admin_start

section \<open>Seeding\<close>

definition seed_host :: string where "seed_host = ''check.spy.net''"

definition seed_rule :: rule where
  "seed_rule = zero_rule\<lparr>ru_Host := seed_host, ru_Path := ''/'', ru_Method := ''GET'', ru_Status := 200,
     ru_Body := ''{'' @ [CHR 0x22] @ ''license'' @ [CHR 0x22] @ '':'' @ [CHR 0x22] @ ''active'' @ [CHR 0x22] @ ''}'',
     ru_Type := ''application/json''\<rparr>"

definition seed :: "string map_order \<Rightarrow> entropy \<Rightarrow> registry \<Rightarrow> rule_engine \<Rightarrow> registry \<times> rule_engine" where
  "seed ord rnd reg e =
     (let reg = (if mget (snapshot ord reg) seed_host = None then SetState reg seed_host StateMocked else reg);
          has = list_ex (\<lambda>r. ru_Host r = seed_host) (All e);
          e = (if \<not> has then fst (Add rnd e seed_rule) else e)
      in (reg, e))"

section \<open>The start\<close>

definition intercept_hosts :: "string \<Rightarrow> registry \<Rightarrow> registry" where
  "intercept_hosts h reg = foldl (\<lambda>reg name. SetState reg name StateIntercepted) reg (splitCSV h)"

text \<open>Loading: the registry and the rules a process starts with, and what is on disk then.\<close>

definition load_all :: "launch_lib \<Rightarrow> flags \<Rightarrow> environ \<Rightarrow> os \<Rightarrow> os \<times> (string + registry \<times> rule_engine)" where
  "load_all P F V s =
     (case loadPersist (lp_L P) (lp_u P) (lp_ord P) (lp_rnd P) s (fl_data F) NewRegistry NewRuleEngine of
        (s, reg, e, Some err) \<Rightarrow> (s, Inl err)
      | (s, reg, e, None) \<Rightarrow>
          (let (reg, e) = (if \<not> persistExists s (fl_data F) then seed (lp_ord P) (lp_seedRnd P) reg e else (reg, e));
               (s, reg) =
                 (if en_intercept V \<noteq> [] then
                    let reg = intercept_hosts (en_intercept V) reg
                    in (fst (savePersist (lp_ord P) s (fl_data F) reg e), reg)
                  else (s, reg));
               s = fst (savePersist (lp_ord P) s (fl_data F) reg e)
           in (s, Inr (reg, e))))"

definition rule_spec :: "flags \<Rightarrow> os \<Rightarrow> RuleSpec" where
  "rule_spec F s =
     \<lparr>sp_ProxyPort = mustPort (fl_listen F), sp_Ports = parseInts (fl_ports F), sp_ExcludeUID = os_uid s,
      sp_ExcludeNets = splitCSV (fl_excludeNets F),
      sp_Mode = (if fl_mode F = ''prerouting'' then PreroutingRedirect else OutputRedirect)\<rparr>"

text \<open>The certificate files for the clients.\<close>

definition write_certs :: "flags \<Rightarrow> string \<Rightarrow> os \<Rightarrow> os" where
  "write_certs F pem s =
     (let s = fst (WriteFile s (Join [fl_data F, ''ca'', ''ca.crt'']) pem)
      in if Stat s ''/certs'' = IsDir
         then fst (WriteFile (fst (WriteFile s ''/certs/ca.crt'' pem)) ''/certs/ca.pem'' pem)
         else s)"

definition admin_allowed :: "flags \<Rightarrow> environ \<Rightarrow> bool" where
  "admin_allowed F V \<longleftrightarrow>
     \<not> (\<not> isLoopback (fl_admin F) \<and> fl_adminToken F = [] \<and> en_openAdmin V \<noteq> ''1'')"

definition opt_addr :: "string \<Rightarrow> string option" where
  "opt_addr a = (if a \<noteq> [] then Some a else None)"

definition open_keylog :: "launch_lib \<Rightarrow> string \<Rightarrow> os \<Rightarrow> os \<times> string option" where
  "open_keylog P path s =
     (if path \<noteq> [] then
        (case MkdirAll s (Dir path) of
           (s, Some err) \<Rightarrow> (s, Some err)
         | (s, None) \<Rightarrow> lp_openLog P path s)
      else (s, None))"

text \<open>The directory of the origin certificates, which the engine is told of when it can be created.\<close>

definition origin_dir :: "environ \<Rightarrow> string" where
  "origin_dir V = (if en_originDir V = [] then ''/certs/origin-cache'' else en_originDir V)"

definition set_dump_dir :: "launch_lib \<Rightarrow> environ \<Rightarrow> os \<Rightarrow> os \<times> tls_lib" where
  "set_dump_dir P V s =
     (case MkdirAll s (origin_dir V) of
        (s, None) \<Rightarrow> (s, (lp_tls P)\<lparr>tl_dump_dir := origin_dir V\<rparr>)
      | (s, Some _) \<Rightarrow> (s, lp_tls P))"

text \<open>From the loaded state to the running parts: a fatal error, or what has been started.\<close>

definition launch :: "launch_lib \<Rightarrow> flags \<Rightarrow> environ \<Rightarrow> string \<Rightarrow> registry \<Rightarrow> rule_engine \<Rightarrow> os \<Rightarrow> os \<times> (string + started)" where
  "launch P F V pem reg e s =
     (let (s, T) = set_dump_dir P V s;
          (s, kit) = NewSSLKitStore (lp_L P) (lp_u P) (lp_ord P) s (fl_data F) ''/certs'';
          app = \<lparr>ap_reg = reg, ap_rules = e, ap_hub = Some NewHub, ap_dataDir = fl_data F, ap_kit = Some kit,
                 ap_pinBypass = loadPinBypass s (fl_data F)\<rparr>;
          (s, kerr) = open_keylog P (fl_keylog F) s
      in case kerr of
           Some err \<Rightarrow> (s, Inl err)
         | None \<Rightarrow>
             (let s = restoreCATrust (lp_u P) s pem (fl_data F);
                  s = write_certs F pem s;
                  spec = rule_spec F s
              in (s, Inr
                   \<lparr>st_server = \<lparr>sv_os = s, sv_app = app\<rparr>,
                    st_conf = \<lparr>ac_dataDir = fl_data F, ac_token = fl_adminToken F, ac_caPEM = pem,
                               ac_bind = fl_admin F, ac_hasApp = True\<rparr>,
                    st_tls = T, st_verify = fl_verify F, st_keylog = (fl_keylog F \<noteq> []),
                    st_spec = (if fl_install F \<and> lp_installRules P spec = None then Some spec else None),
                    st_httpProxy = opt_addr (fl_httpProxy F), st_socks = opt_addr (fl_socks F),
                    st_listen = fl_listen F,
                    st_admin = (if admin_allowed F V then Serving else Refused)\<rparr>)))"

definition start :: "launch_lib \<Rightarrow> flags \<Rightarrow> environ \<Rightarrow> os \<Rightarrow> os \<times> (string + started)" where
  "start P F V s =
     (case lp_ca P (Join [fl_data F, ''ca'']) s of
        (s, Inl err) \<Rightarrow> (s, Inl err)
      | (s, Inr pem) \<Rightarrow>
          (case load_all P F V s of
             (s, Inl err) \<Rightarrow> (s, Inl err)
           | (s, Inr (reg, e)) \<Rightarrow> launch P F V pem reg e s))"

section \<open>Facts\<close>

lemma ok_intercept_hosts: "registry_ok reg \<Longrightarrow> registry_ok (intercept_hosts h reg)"
proof -
  have "registry_ok reg \<Longrightarrow> registry_ok (foldl (\<lambda>reg name. SetState reg name StateIntercepted) reg ns)" for ns
    by (induction ns arbitrary: reg) (auto simp: ok_SetState)
  then show "registry_ok reg \<Longrightarrow> registry_ok (intercept_hosts h reg)" by (simp add: intercept_hosts_def)
qed

lemma State_intercept_hosts:
  "State (intercept_hosts h reg) k = (if k \<in> set (splitCSV h) then StateIntercepted else State reg k)"
proof -
  have "State (foldl (\<lambda>reg name. SetState reg name StateIntercepted) reg ns) k =
      (if k \<in> set ns then StateIntercepted else State reg k)" for ns
    by (induction ns arbitrary: reg) (auto simp: State_SetState)
  then show ?thesis by (simp add: intercept_hosts_def)
qed

lemma ok_seed:
  assumes "registry_ok reg" "engine_ok e" "is_entropy rnd" "seed ord rnd reg e = (reg', e')"
  shows "registry_ok reg' \<and> engine_ok e'"
  using assms by (auto simp: seed_def Let_def ok_SetState engine_ok_Add split: if_splits)

lemma ok_loadPersist:
  assumes "loadPersist L u ord rnd s dir reg e = (s', reg', e', err)" "is_entropy rnd" "registry_ok reg" "engine_ok e"
  shows "registry_ok reg' \<and> engine_ok e'"
proof -
  have "registry_ok (load_state_file L u ord b reg)" for b
    using assms(3) by (auto simp: load_state_file_def ok_loadStates split: option.splits prod.splits)
  moreover have "engine_ok (load_rules_file L u rnd b e)" for b
    using assms(2,4) by (auto simp: load_rules_file_def engine_ok_Set split: option.splits prod.splits)
  ultimately show ?thesis
    using assms by (auto simp: loadPersist_def Let_def split: prod.splits option.splits)
qed

definition seeded :: "launch_lib \<Rightarrow> flags \<Rightarrow> os \<Rightarrow> registry \<Rightarrow> rule_engine \<Rightarrow> registry \<times> rule_engine" where
  "seeded P F s reg e = (if \<not> persistExists s (fl_data F) then seed (lp_ord P) (lp_seedRnd P) reg e else (reg, e))"

lemma load_all_result:
  assumes "loadPersist (lp_L P) (lp_u P) (lp_ord P) (lp_rnd P) s (fl_data F) NewRegistry NewRuleEngine = (s1, reg1, e1, None)"
  shows "snd (load_all P F V s) =
    Inr ((if en_intercept V \<noteq> [] then intercept_hosts (en_intercept V) (fst (seeded P F s1 reg1 e1)) else fst (seeded P F s1 reg1 e1)),
         snd (seeded P F s1 reg1 e1))"
  unfolding load_all_def assms seeded_def [symmetric]
  by (cases "seeded P F s1 reg1 e1"; cases "en_intercept V = []") (simp_all add: Let_def)

lemma load_all_cases:
  assumes "load_all P F V s = (s', Inr (reg, e))"
  obtains s1 reg1 e1 where
    "loadPersist (lp_L P) (lp_u P) (lp_ord P) (lp_rnd P) s (fl_data F) NewRegistry NewRuleEngine = (s1, reg1, e1, None)"
    "reg = (if en_intercept V \<noteq> [] then intercept_hosts (en_intercept V) (fst (seeded P F s1 reg1 e1)) else fst (seeded P F s1 reg1 e1))"
    "e = snd (seeded P F s1 reg1 e1)"
proof -
  obtain s1 reg1 e1 err where l: "loadPersist (lp_L P) (lp_u P) (lp_ord P) (lp_rnd P) s (fl_data F) NewRegistry NewRuleEngine = (s1, reg1, e1, err)"
    using prod_cases4 by blast
  have n: "err = None" using assms by (cases err) (simp_all add: load_all_def l)
  have "snd (load_all P F V s) = Inr (reg, e)" by (simp only: assms snd_conv)
  then show ?thesis using load_all_result [OF l [unfolded n], of V] that [OF l [unfolded n]] by simp
qed

lemma load_all_ok:
  assumes "load_all P F V s = (s', Inr (reg, e))" "is_entropy (lp_rnd P)" "is_entropy (lp_seedRnd P)"
  shows "registry_ok reg \<and> engine_ok e"
  using assms(1)
proof (cases rule: load_all_cases)
  case (1 s1 reg1 e1)
  have "engine_ok NewRuleEngine" by (simp add: engine_ok_def NewRuleEngine_def)
  then have "registry_ok reg1 \<and> engine_ok e1" using ok_loadPersist [OF 1(1) assms(2) ok_NewRegistry] by blast
  then have "registry_ok (fst (seeded P F s1 reg1 e1)) \<and> engine_ok (snd (seeded P F s1 reg1 e1))"
    using ok_seed [OF _ _ assms(3), of reg1 e1 "lp_ord P"]
    by (cases "seed (lp_ord P) (lp_seedRnd P) reg1 e1") (simp add: seeded_def)
  then show ?thesis using 1(2,3) ok_intercept_hosts by simp
qed

lemma mok_kit_load: "mok (kt_hosts k) \<Longrightarrow> mok (kt_hosts (kit_load L u s k))"
proof -
  have m: "mok (fold (\<lambda>(k, x) m. mput k (f x) m) ms [])" for ms :: "(string \<times> json) list" and f :: "json \<Rightarrow> HostSSLPolicy"
  proof -
    have "mok m \<Longrightarrow> mok (fold (\<lambda>(k, x) m. mput k (f x) m) ms m)" for m
      by (induction ms arbitrary: m) auto
    then show ?thesis by simp
  qed
  assume "mok (kt_hosts k)"
  then show ?thesis
    using m by (auto simp: kit_load_def Unmarshal_def dec_map_def split: option.splits prod.splits json.splits if_splits)
qed

text \<open>A started program: what its server is made of.\<close>

lemma launch_server:
  assumes "launch P F V pem reg e s = (s', Inr st)"
  shows "\<exists>s1 s2 k. NewSSLKitStore (lp_L P) (lp_u P) (lp_ord P) s1 (fl_data F) ''/certs'' = (s2, k)
    \<and> sv_app (st_server st) = \<lparr>ap_reg = reg, ap_rules = e, ap_hub = Some NewHub, ap_dataDir = fl_data F, ap_kit = Some k,
         ap_pinBypass = loadPinBypass s2 (fl_data F)\<rparr>
    \<and> st_conf st = \<lparr>ac_dataDir = fl_data F, ac_token = fl_adminToken F, ac_caPEM = pem, ac_bind = fl_admin F, ac_hasApp = True\<rparr>
    \<and> st_admin st = (if admin_allowed F V then Serving else Refused)
    \<and> sv_os (st_server st) = s'
    \<and> st_spec st = (if fl_install F \<and> lp_installRules P (rule_spec F s') = None then Some (rule_spec F s') else None)"
proof -
  obtain s1 T where 1: "set_dump_dir P V s = (s1, T)" by fastforce
  obtain s2 k where 2: "NewSSLKitStore (lp_L P) (lp_u P) (lp_ord P) s1 (fl_data F) ''/certs'' = (s2, k)" by fastforce
  obtain s3 kerr where 3: "open_keylog P (fl_keylog F) s2 = (s3, kerr)" by fastforce
  have "kerr = None" using assms by (cases kerr) (simp_all add: launch_def 1 2 3)
  define w where "w = write_certs F pem (restoreCATrust (lp_u P) s3 pem (fl_data F))"
  have "(s', Inr st) = launch P F V pem reg e s" using assms by simp
  then have "s' = w" "st =
      \<lparr>st_server = \<lparr>sv_os = w, sv_app = \<lparr>ap_reg = reg, ap_rules = e, ap_hub = Some NewHub, ap_dataDir = fl_data F,
            ap_kit = Some k, ap_pinBypass = loadPinBypass s2 (fl_data F)\<rparr>\<rparr>,
        st_conf = \<lparr>ac_dataDir = fl_data F, ac_token = fl_adminToken F, ac_caPEM = pem, ac_bind = fl_admin F, ac_hasApp = True\<rparr>,
        st_tls = T, st_verify = fl_verify F, st_keylog = (fl_keylog F \<noteq> []),
        st_spec = (if fl_install F \<and> lp_installRules P (rule_spec F w) = None then Some (rule_spec F w) else None),
        st_httpProxy = opt_addr (fl_httpProxy F), st_socks = opt_addr (fl_socks F), st_listen = fl_listen F,
        st_admin = (if admin_allowed F V then Serving else Refused)\<rparr>"
    by (simp_all only: launch_def 1 2 3 \<open>kerr = None\<close> Let_def prod.case option.case prod.inject sum.inject w_def)
  then show ?thesis using 2
    by (intro exI [of _ s1] exI [of _ s2] exI [of _ k])
      (simp only: started.select_convs server.select_convs simp_thms)
qed

lemma start_cases:
  assumes "start P F V s = (s', Inr st)"
  obtains s1 s2 pem reg e where "lp_ca P (Join [fl_data F, ''ca'']) s = (s1, Inr pem)"
    "load_all P F V s1 = (s2, Inr (reg, e))" "launch P F V pem reg e s2 = (s', Inr st)"
proof -
  obtain s1 c where 1: "lp_ca P (Join [fl_data F, ''ca'']) s = (s1, c)" by fastforce
  obtain pem where c: "c = Inr pem" using assms by (cases c) (simp_all add: start_def 1)
  obtain s2 l where 2: "load_all P F V s1 = (s2, l)" by fastforce
  obtain reg e where "l = Inr (reg, e)" using assms by (cases l) (auto simp: start_def 1 c 2)
  then show ?thesis using that [of s1 pem s2 reg e] assms 1 2 c by (simp add: start_def)
qed

lemma start_ok:
  assumes "start P F V s = (s', Inr st)" "is_entropy (lp_rnd P)" "is_entropy (lp_seedRnd P)"
  shows "app_ok (sv_app (st_server st))"
  using assms(1)
proof (cases rule: start_cases)
  case (1 s1 s2 pem reg e)
  obtain x1 x2 k where k: "NewSSLKitStore (lp_L P) (lp_u P) (lp_ord P) x1 (fl_data F) ''/certs'' = (x2, k)"
    and app: "sv_app (st_server st) = \<lparr>ap_reg = reg, ap_rules = e, ap_hub = Some NewHub, ap_dataDir = fl_data F,
         ap_kit = Some k, ap_pinBypass = loadPinBypass x2 (fl_data F)\<rparr>"
    using launch_server [OF 1(3)] by blast
  have "mok (kt_hosts k)" using k mok_kit_load by (auto simp: NewSSLKitStore_def Let_def)
  then show ?thesis using load_all_ok [OF 1(2) assms(2,3)] hub_ok_ops(1) by (simp add: app_ok_iff app)
qed

text \<open>A start succeeds whatever the files contain, when the CA loads and the data directory exists.\<close>

lemma loadPersist_total:
  "\<not> os_dfault s dir \<Longrightarrow> \<exists>reg' e'. loadPersist L u ord rnd s dir reg e = (fst (MkdirAll s dir), reg', e', None)"
  by (simp add: loadPersist_def MkdirAll_def Let_def)

lemma start_total:
  assumes "lp_ca P (Join [fl_data F, ''ca'']) s = (s1, Inr pem)" "\<not> os_dfault s1 (fl_data F)" "fl_keylog F = []"
  shows "\<exists>s' st. start P F V s = (s', Inr st)"
proof -
  obtain reg' e' where "loadPersist (lp_L P) (lp_u P) (lp_ord P) (lp_rnd P) s1 (fl_data F) NewRegistry NewRuleEngine
      = (fst (MkdirAll s1 (fl_data F)), reg', e', None)"
    using loadPersist_total [OF assms(2)] by blast
  from load_all_result [OF this, of V] obtain s2 reg e where l: "load_all P F V s1 = (s2, Inr (reg, e))"
    by (metis prod.collapse)
  obtain x T where 1: "set_dump_dir P V s2 = (x, T)" by fastforce
  obtain y k where 2: "NewSSLKitStore (lp_L P) (lp_u P) (lp_ord P) x (fl_data F) ''/certs'' = (y, k)" by fastforce
  have "\<exists>s' st. launch P F V pem reg e s2 = (s', Inr st)"
    by (simp add: launch_def 1 2 open_keylog_def assms(3) Let_def)
  then show ?thesis by (simp add: start_def assms(1) l)
qed

definition ex_launch :: launch_lib where
  "ex_launch = \<lparr>lp_L = ex_lib, lp_u = ex_unicode, lp_ord = id, lp_rnd = (\<lambda>i. replicate 8 0), lp_seedRnd = (\<lambda>i. replicate 8 0),
     lp_ca = (\<lambda>d s. (s, Inr ex_pem)), lp_openLog = (\<lambda>p s. (s, None)), lp_installRules = (\<lambda>spec. None), lp_tls = ex_tls\<rparr>"

definition ex_environ :: environ where
  "ex_environ = \<lparr>en_adminToken = [], en_keylog = [], en_intercept = [], en_originDir = [], en_openAdmin = []\<rparr>"

text \<open>Listening on every interface, with and without a token.\<close>

definition ex_flags :: "string \<Rightarrow> flags" where
  "ex_flags token = (default_flags ex_environ)\<lparr>fl_admin := '':8080'', fl_adminToken := token\<rparr>"

lemma ex_start: "\<exists>s' st. start ex_launch (ex_flags t) ex_environ ex_os = (s', Inr st)"
  by (rule start_total [of _ _ _ ex_os ex_pem])
    (simp_all add: ex_launch_def ex_flags_def default_flags_def ex_environ_def ex_os_def)

lemma ex_entropy: "is_entropy (lp_rnd ex_launch)" "is_entropy (lp_seedRnd ex_launch)"
  by (simp_all add: is_entropy_def ex_launch_def)

lemma ex_not_loopback: "\<not> isLoopback '':8080''"
proof -
  have "SplitHostPort '':8080'' = Inr ([], ''8080'')"
    using SplitHostPort_Join [of "[]" "''8080''"] by (simp add: JoinHostPort_def)
  then show ?thesis by (simp add: isLoopback_def ParseIP_def)
qed

lemma ex_flags_simps:
  "fl_admin (ex_flags t) = '':8080''" "fl_adminToken (ex_flags t) = t" "fl_install (ex_flags t)" "fl_data (ex_flags t) = ''/data''"
  "en_openAdmin ex_environ = []" "en_intercept ex_environ = []"
  by (simp_all add: ex_flags_def default_flags_def ex_environ_def)

lemma ex_loads:
  "\<exists>reg1 e1. loadPersist (lp_L ex_launch) (lp_u ex_launch) (lp_ord ex_launch) (lp_rnd ex_launch) ex_os
      (fl_data (ex_flags [])) NewRegistry NewRuleEngine = (fst (MkdirAll ex_os ''/data''), reg1, e1, None)"
proof -
  have "\<not> os_dfault ex_os ''/data''" by (simp add: ex_os_def)
  then show ?thesis unfolding ex_flags_simps(4) by (rule loadPersist_total)
qed

lemma ex_no_state: "\<not> persistExists (fst (MkdirAll ex_os (fl_data (ex_flags [])))) (fl_data (ex_flags []))"
proof -
  have "state_path ''/data'' = ''/data/state.json''"
    by (simp add: state_path_def Join_def Clean_def path_parts_def path_step_def HasPrefix_def)
  then show ?thesis by (simp add: ex_flags_simps persistExists_def Stat_def MkdirAll_def ex_os_def above_def upt_rec)
qed

section \<open>Properties\<close>

text \<open>
  C2: the invariants hold in every state that the program can reach from its start, on whatever files it
  finds and in whatever order connections, flows, admin requests and WebSocket clients come: map keys are
  distinct, every stored rule has an identifier and an action, no host has more flows than the ring holds.
\<close>

theorem program_invariant:
  assumes "start P F V s0 = (s1, Inr st)" "is_entropy (lp_rnd P)" "is_entropy (lp_seedRnd P)"
    and "runs (st_conf st) (st_server st) es s" "list_all event_ok es"
  shows "app_ok (sv_app s) \<and> (\<forall>r \<in> set (rules (sv_rules s)). ru_ID r \<noteq> [] \<and> ru_Action r \<noteq> [])
    \<and> (\<forall>h. length (Flows (sv_reg s) h) \<le> ringN (sv_reg s))"
proof -
  have "app_ok (sv_app s)" using runs_ok [OF assms(4) start_ok [OF assms(1-3)] assms(5)] .
  then show ?thesis using app_okD(1,2) registry_okD(5) by (auto simp: engine_ok_def rule_ok_def)
qed

theorem program_invariant_witness:
  "\<exists>s1 st s. start ex_launch (ex_flags ''t'') ex_environ ex_os = (s1, Inr st)
     \<and> runs (st_conf st) (st_server st) ([] @ [Connect ''a'' ''1.2.3.4:443'']) s \<and> app_ok (sv_app s)"
proof -
  obtain s1 st where st: "start ex_launch (ex_flags ''t'') ex_environ ex_os = (s1, Inr st)" using ex_start by blast
  have r: "runs (st_conf st) (st_server st) ([] @ [Connect ''a'' ''1.2.3.4:443''])
      ((st_server st)\<lparr>sv_app := fst (OnConnect (sv_app (st_server st)) ''a'' ''1.2.3.4:443'')\<rparr>)"
    by (rule runs.more [OF runs.start]) (rule step.connect)
  from program_invariant [OF st ex_entropy r] st r show ?thesis by fastforce
qed

text \<open>
  C18: an admin server that listens beyond the loopback interface is not open by accident: unless the
  operator has set SKYTAP_ALLOW_OPEN_ADMIN=1, a request whose path is not public and that does not offer the
  token is refused with 401 and changes nothing. The public paths, \<open>/pin-bypass\<close> among them (C38), are served
  without a token also there.
\<close>

theorem exposed_admin_is_guarded:
  assumes "start P F V s0 = (s1, Inr st)" "st_admin st = Serving" "\<not> isLoopback (fl_admin F)" "en_openAdmin V \<noteq> ''1''"
    and "\<not> public_path (req_Path r)" "credential r \<noteq> fl_adminToken F"
  shows "\<exists>w. adminMux E (st_conf st) s r = (s, Answer w) \<and> rp_Status w = 401"
  using assms(1)
proof (cases rule: start_cases)
  case (1 x1 x2 pem reg e)
  have l: "st_admin st = (if admin_allowed F V then Serving else Refused)" "ac_token (st_conf st) = fl_adminToken F"
    using launch_server [OF 1(3)] by auto
  then have "fl_adminToken F \<noteq> []" using assms(2-4) by (auto simp: admin_allowed_def split: if_splits)
  then show ?thesis
    using assms(5,6) l(2) by (simp add: adminMux_access may_use_def unauthorized_reply)
qed

theorem exposed_admin_is_guarded_witness:
  "\<exists>s1 st w. start ex_launch (ex_flags ''t'') ex_environ ex_os = (s1, Inr st)
     \<and> adminMux ex_admin_env (st_conf st) (st_server st) (ex_get ''/rules'') = (st_server st, Answer w) \<and> rp_Status w = 401"
proof -
  obtain s1 st where st: "start ex_launch (ex_flags ''t'') ex_environ ex_os = (s1, Inr st)" using ex_start by blast
  have "st_admin st = Serving"
    using st
  proof (cases rule: start_cases)
    case (1 x1 x2 pem reg e)
    then show ?thesis using launch_server [OF 1(3)] by (auto simp: admin_allowed_def ex_flags_simps)
  qed
  moreover have "credential (ex_get ''/rules'') = []"
    by (simp add: credential_def ex_get_def Header_Get_def TrimPrefix_def HasPrefix_def)
  ultimately show ?thesis
    using exposed_admin_is_guarded [OF st, of "ex_get ''/rules''" ex_admin_env "st_server st"] st ex_not_loopback
    by (auto simp: ex_flags_simps ex_get_def public_path_def)
qed

text \<open>
  A refused start leaves the machine redirected: the redirect rules are installed before the admin
  address is checked, and the refusal ends the process without removing them.
\<close>

theorem refused_start_keeps_redirect:
  assumes "start P F V s0 = (s1, Inr st)" "\<not> isLoopback (fl_admin F)" "fl_adminToken F = []" "en_openAdmin V \<noteq> ''1''"
    and "fl_install F" "\<And>spec. lp_installRules P spec = None"
  shows "st_admin st = Refused \<and> (\<exists>spec. st_spec st = Some spec \<and> sp_ProxyPort spec = mustPort (fl_listen F))"
  using assms(1)
proof (cases rule: start_cases)
  case (1 x1 x2 pem reg e)
  then show ?thesis
    using launch_server [OF 1(3)] assms(2-6) by (auto simp: admin_allowed_def rule_spec_def)
qed

theorem refused_start_keeps_redirect_witness:
  "\<exists>s1 st. start ex_launch (ex_flags []) ex_environ ex_os = (s1, Inr st) \<and> st_admin st = Refused \<and> st_spec st \<noteq> None"
proof -
  obtain s1 st where st: "start ex_launch (ex_flags []) ex_environ ex_os = (s1, Inr st)" using ex_start by blast
  have "lp_installRules ex_launch spec = None" for spec by (simp add: ex_launch_def)
  from refused_start_keeps_redirect [OF st _ _ _ _ this] st show ?thesis
    using ex_not_loopback by (auto simp: ex_flags_simps)
qed

text \<open>
  The states after loading, host by host: the hosts of SKYTAP_INTERCEPT_HOSTS are INTERCEPTED whatever
  the file says; the others are as the file says, and only when there is no state file, the check host that
  the file does not know is MOCKED.
\<close>

theorem states_after_start:
  assumes "load_all P F V s = (s', Inr (reg, e))" "is_map_order (lp_ord P)"
    and "loadPersist (lp_L P) (lp_u P) (lp_ord P) (lp_rnd P) s (fl_data F) NewRegistry NewRuleEngine = (s1, reg1, e1, err)"
  shows "State reg h =
    (if h \<in> set (splitCSV (en_intercept V)) then StateIntercepted
     else if \<not> persistExists s1 (fl_data F) \<and> h = seed_host \<and> mget (states reg1) h = None then StateMocked
     else State reg1 h)"
  using assms(1)
proof (cases rule: load_all_cases)
  case (1 x1 y1 z1)
  then have x: "x1 = s1" "y1 = reg1" "z1 = e1" using assms(3) by auto
  have "State (fst (seeded P F s1 reg1 e1)) h =
      (if \<not> persistExists s1 (fl_data F) \<and> h = seed_host \<and> mget (states reg1) h = None then StateMocked else State reg1 h)"
    using mget_snapshot [OF assms(2)] by (auto simp: seeded_def seed_def Let_def State_SetState)
  moreover have "splitCSV [] = []" by (simp add: splitCSV_def)
  ultimately show ?thesis using 1(2) by (auto simp: x State_intercept_hosts)
qed

theorem states_after_start_witness:
  "\<exists>s' reg e. load_all ex_launch (ex_flags []) ex_environ ex_os = (s', Inr (reg, e)) \<and> State reg seed_host = StateMocked"
proof -
  obtain reg1 e1 where l: "loadPersist (lp_L ex_launch) (lp_u ex_launch) (lp_ord ex_launch) (lp_rnd ex_launch) ex_os
      (fl_data (ex_flags [])) NewRegistry NewRuleEngine = (fst (MkdirAll ex_os ''/data''), reg1, e1, None)"
    using ex_loads by blast
  from load_all_result [OF l, of ex_environ] obtain s' reg e where a: "load_all ex_launch (ex_flags []) ex_environ ex_os = (s', Inr (reg, e))"
    by (metis prod.collapse)
  have o: "is_map_order (lp_ord ex_launch)" by (simp add: ex_launch_def is_map_order_id id_def)
  have "reg1 = NewRegistry"
    using l by (simp add: loadPersist_def MkdirAll_def ex_os_def load_state_file_def ReadFile_def Let_def ex_flags_simps)
  moreover have "state_path ''/data'' = ''/data/state.json''"
    by (simp add: state_path_def Join_def Clean_def path_parts_def path_step_def HasPrefix_def)
  then have "\<not> persistExists (fst (MkdirAll ex_os ''/data'')) ''/data''"
    by (simp add: persistExists_def Stat_def MkdirAll_def ex_os_def above_def upt_rec)
  ultimately show ?thesis
    using states_after_start [OF a o l, of seed_host] a
    by (simp add: ex_flags_simps splitCSV_def NewRegistry_def)
qed

lemma seed_body_plain:
  "evalBody X (ru_Body seed_rule) False (Some req) = ru_Body seed_rule"
proof -
  have "replace_markers ev (ru_Body seed_rule) = ru_Body seed_rule" for ev
    by (simp add: seed_rule_def replace_markers.simps marker_at_def HasPrefix_def)
  moreover have "replace_vars (ru_Body seed_rule) = ru_Body seed_rule"
    by (simp add: seed_rule_def replace_vars.simps HasPrefix_def)
  moreover have "\<not> Contains (ru_Body seed_rule) ''{{''" by (simp add: seed_rule_def HasPrefix_def)
  ultimately show ?thesis by (simp add: evalBody_def applyTpl_def Let_def)
qed

text \<open>
  A first start can be tried out: with no files in the data directory, the program answers a GET of the
  root of the check host itself, with status 200 and the license document.
\<close>

theorem first_start_answers_check:
  assumes "load_all P F V s = (s', Inr (reg, e))" "is_map_order (lp_ord P)" "en_intercept V = []"
    and "ReadFile s (state_path (fl_data F)) = None" "ReadFile s (rules_path (fl_data F)) = None"
    and "\<not> persistExists (fst (MkdirAll s (fl_data F))) (fl_data F)"
    and "ap_reg a = reg" "ap_rules a = e" "req_Method req = ''GET''" "req_Path req = ''/''"
  shows "\<exists>resp. OnRequest L u X a seed_host req = (req, Some resp) \<and> rs_StatusCode resp = 200
    \<and> rs_Body resp = ru_Body seed_rule \<and> rs_ContentLength resp = int (length (ru_Body seed_rule))"
  using assms(1)
proof (cases rule: load_all_cases)
  case (1 s1 reg1 e1)
  obtain sm em where m: "MkdirAll s (fl_data F) = (sm, em)" by fastforce
  have "ReadFile sm p = ReadFile s p" for p using ReadFile_MkdirAll [of s "fl_data F" p] by (simp add: m)
  then have l: "reg1 = NewRegistry" "e1 = NewRuleEngine" "s1 = fst (MkdirAll s (fl_data F))"
    using 1(1) assms(4,5)
    by (cases em; simp add: loadPersist_def m load_state_file_def load_rules_file_def Let_def)+
  have sd: "seeded P F s1 reg1 e1 = (SetState NewRegistry seed_host StateMocked, fst (Add (lp_seedRnd P) NewRuleEngine seed_rule))"
    using assms(6) mget_snapshot [OF assms(2), of NewRegistry seed_host]
    by (simp add: seeded_def l seed_def Let_def All_def NewRuleEngine_def NewRegistry_def)
  define q where "q = with_defaults (lp_seedRnd P 0) seed_rule"
  have reg: "State (ap_reg a) seed_host = StateMocked" using 1(2) assms(3,7) by (simp add: sd State_SetState)
  have rules: "rules (ap_rules a) = [q]"
    using 1(3) assms(8) by (simp add: sd Add_def Let_def NewRuleEngine_def q_def)
  have f: "ru_Host seed_rule = seed_host" "ru_Path seed_rule = ''/''" "ru_Method seed_rule = ''GET''"
    "ru_Script seed_rule = []" "ru_Status seed_rule = 200" "ru_Action seed_rule = []"
    by (simp_all add: seed_rule_def zero_rule_def)
  have "matchRule u (ap_rules a) seed_host req = Some q"
    unfolding matchRule_find rules using assms(9,10) by (simp add: rule_applies_def q_def f EqualFold_refl)
  moreover have "ru_Action q = ''mock''" by (simp add: q_def with_defaults_Action f)
  moreover have "\<not> EqualFold u ''mock'' ''rewrite''" by (simp add: EqualFold_ascii)
  ultimately have "OnRequest L u X a seed_host req = (req, Some (renderRule X q (Some req)))"
    using reg by (simp add: OnRequest_def Let_def is_rewrite_def Match_def)
  moreover have "rs_StatusCode (renderRule X q (Some req)) = 200" "rs_Body (renderRule X q (Some req)) = ru_Body seed_rule"
    "rs_ContentLength (renderRule X q (Some req)) = int (length (ru_Body seed_rule))"
    using seed_body_plain [of X req] by (simp_all add: renderRule_def Let_def q_def f)
  ultimately show ?thesis by blast
qed

theorem first_start_answers_check_witness:
  "\<exists>s' reg e. load_all ex_launch (ex_flags []) ex_environ ex_os = (s', Inr (reg, e))
     \<and> snd (OnRequest ex_lib ex_unicode ex_host (ex_app\<lparr>ap_reg := reg, ap_rules := e\<rparr>) seed_host
         (ex_request\<lparr>req_Path := ''/''\<rparr>)) \<noteq> None"
proof -
  obtain reg1 e1 where l: "loadPersist (lp_L ex_launch) (lp_u ex_launch) (lp_ord ex_launch) (lp_rnd ex_launch) ex_os
      (fl_data (ex_flags [])) NewRegistry NewRuleEngine = (fst (MkdirAll ex_os ''/data''), reg1, e1, None)"
    using ex_loads by blast
  from load_all_result [OF l, of ex_environ] obtain s' reg e where a: "load_all ex_launch (ex_flags []) ex_environ ex_os = (s', Inr (reg, e))"
    by (metis prod.collapse)
  have o: "is_map_order (lp_ord ex_launch)" by (simp add: ex_launch_def is_map_order_id id_def)
  have r: "ReadFile ex_os f = None" for f by (simp add: ReadFile_def ex_os_def)
  have "req_Method (ex_request\<lparr>req_Path := ''/''\<rparr>) = ''GET''" by (simp add: ex_request_def)
  from first_start_answers_check [OF a o _ r r ex_no_state _ _ this, of "ex_app\<lparr>ap_reg := reg, ap_rules := e\<rparr>" ex_lib ex_unicode ex_host]
  show ?thesis using a by (fastforce simp: ex_flags_simps)
qed

end
