(* ===== verification/Process.thy ===== *)
theory Process
  imports Startup
begin

text \<open>
  The running process (the goroutines that \<open>main\<close> starts in main.go, and the accept loops of proxy.go): the
  listeners, the connections they hand to a handler each, the signal that removes the redirect rules, and
  the ways in which the process ends. What the handlers and the engine do with the state are the steps of
  \<open>Server\<close>, taken at any time while the process runs.
\<close>

section \<open>Loops\<close>

datatype listener = Transparent | HttpProxy | SocksProxy | AdminApi

text \<open>The process ends by \<open>log.Fatal\<close> or by the signal.\<close>

datatype exit = Fatal string | Stopped

text \<open>
  A listener reports the result of binding its address and then of each \<open>Accept\<close>; connections are numbered,
  and one that was redirected comes with its original destination.
\<close>

datatype net_event = Bound "string option" | Accepted "string + nat \<times> string"

text \<open>A connection handed over in a goroutine of its own: to the engine, or to a proxy's handler.\<close>

datatype handover = ToEngine nat string | ToHTTPProxy nat | ToSOCKS5 nat

fun serveHTTPProxy :: "net_event \<Rightarrow> exit + handover list" where
  "serveHTTPProxy (Bound (Some err)) = Inl (Fatal (''http-proxy: '' @ err))"
| "serveHTTPProxy (Bound None) = Inr []"
| "serveHTTPProxy (Accepted (Inl err)) = Inr []"
| "serveHTTPProxy (Accepted (Inr (c, dst))) = Inr [ToHTTPProxy c]"

fun serveSOCKS5 :: "net_event \<Rightarrow> exit + handover list" where
  "serveSOCKS5 (Bound (Some err)) = Inl (Fatal (''socks5: '' @ err))"
| "serveSOCKS5 (Bound None) = Inr []"
| "serveSOCKS5 (Accepted (Inl err)) = Inr []"
| "serveSOCKS5 (Accepted (Inr (c, dst))) = Inr [ToSOCKS5 c]"

fun serve_main :: "net_event \<Rightarrow> exit + handover list" where
  "serve_main (Bound (Some err)) = Inl (Fatal err)"
| "serve_main (Bound None) = Inr []"
| "serve_main (Accepted (Inl err)) = Inr []"
| "serve_main (Accepted (Inr (c, dst))) = Inr [ToEngine c dst]"

definition refusal :: string where
  "refusal = ''refusing non-loopback admin bind without -admin-token / SKYTAP_ADMIN_TOKEN''"

text \<open>
  \<open>http.ListenAndServe\<close> returns the errors of binding and of accepting; the requests on its connections
  are steps of the server.
\<close>

fun serve_admin :: "admin_start \<Rightarrow> net_event \<Rightarrow> exit + handover list" where
  "serve_admin Refused ev = Inl (Fatal refusal)"
| "serve_admin Serving (Bound (Some err)) = Inl (Fatal err)"
| "serve_admin Serving (Bound None) = Inr []"
| "serve_admin Serving (Accepted (Inl err)) = Inl (Fatal err)"
| "serve_admin Serving (Accepted (Inr c)) = Inr []"

fun loop :: "started \<Rightarrow> listener \<Rightarrow> net_event \<Rightarrow> exit + handover list" where
  "loop st Transparent = serve_main"
| "loop st HttpProxy = serveHTTPProxy"
| "loop st SocksProxy = serveSOCKS5"
| "loop st AdminApi = serve_admin (st_admin st)"

text \<open>The goroutines that exist.\<close>

fun wants :: "started \<Rightarrow> listener \<Rightarrow> bool" where
  "wants st Transparent \<longleftrightarrow> True"
| "wants st HttpProxy \<longleftrightarrow> st_httpProxy st \<noteq> None"
| "wants st SocksProxy \<longleftrightarrow> st_socks st \<noteq> None"
| "wants st AdminApi \<longleftrightarrow> True"

section \<open>The process\<close>

record process =
  pr_server :: server
  pr_redirect :: "RuleSpec option"
  pr_up :: "listener list"
  pr_handed :: "handover list"
  pr_exit :: "exit option"

definition proc_start :: "started \<Rightarrow> process" where
  "proc_start st = \<lparr>pr_server = st_server st, pr_redirect = st_spec st, pr_up = [], pr_handed = [], pr_exit = None\<rparr>"

text \<open>
  The signal: with installed rules a goroutine waits for it and removes them (\<open>skydst.RemoveRules\<close>, \<open>removes\<close>
  being whether that works); otherwise the signal ends the process as it is.
\<close>

definition on_signal :: "flags \<Rightarrow> bool \<Rightarrow> process \<Rightarrow> process" where
  "on_signal F removes p =
     (let p = (if fl_install F \<and> removes then p\<lparr>pr_redirect := None\<rparr> else p)
      in p\<lparr>pr_exit := Some Stopped\<rparr>)"

datatype proc_event = Net listener net_event | Work event | Signal bool

fun is_request :: "event \<Rightarrow> bool" where
  "is_request (Api E r) \<longleftrightarrow> True"
| "is_request _ \<longleftrightarrow> False"

inductive proc_step :: "flags \<Rightarrow> started \<Rightarrow> process \<Rightarrow> proc_event \<Rightarrow> process \<Rightarrow> bool" for F st where
  bound: "pr_exit p = None \<Longrightarrow> wants st l \<Longrightarrow> l \<notin> set (pr_up p) \<Longrightarrow> loop st l (Bound r) = Inr cs \<Longrightarrow>
    proc_step F st p (Net l (Bound r)) (p\<lparr>pr_up := l # pr_up p, pr_handed := pr_handed p @ cs\<rparr>)"
| accepted: "pr_exit p = None \<Longrightarrow> l \<in> set (pr_up p) \<Longrightarrow> loop st l (Accepted r) = Inr cs \<Longrightarrow>
    proc_step F st p (Net l (Accepted r)) (p\<lparr>pr_handed := pr_handed p @ cs\<rparr>)"
| fatal: "pr_exit p = None \<Longrightarrow> wants st l \<Longrightarrow> (l \<in> set (pr_up p) \<longleftrightarrow> (\<exists>r. ev = Accepted r)) \<Longrightarrow> loop st l ev = Inl x \<Longrightarrow>
    proc_step F st p (Net l ev) (p\<lparr>pr_exit := Some x\<rparr>)"
| work: "pr_exit p = None \<Longrightarrow> (is_request e \<longrightarrow> AdminApi \<in> set (pr_up p)) \<Longrightarrow> step (st_conf st) (pr_server p) e s \<Longrightarrow>
    proc_step F st p (Work e) (p\<lparr>pr_server := s\<rparr>)"
| signal: "pr_exit p = None \<Longrightarrow> proc_step F st p (Signal removes) (on_signal F removes p)"

inductive_cases proc_stepE: "proc_step F st p e p'"

inductive proc_run :: "flags \<Rightarrow> started \<Rightarrow> proc_event list \<Rightarrow> process \<Rightarrow> bool" for F st where
  start: "proc_run F st [] (proc_start st)"
| more: "proc_run F st es p \<Longrightarrow> proc_step F st p e p' \<Longrightarrow> proc_run F st (es @ [e]) p'"

section \<open>Facts\<close>

lemma loop_Fatal: "loop st l ev = Inl x \<Longrightarrow> \<exists>err. x = Fatal err"
  by (cases l; cases ev; cases "st_admin st") (auto elim!: serveHTTPProxy.elims serveSOCKS5.elims serve_main.elims serve_admin.elims)

lemma loop_admin_refused: "st_admin st = Refused \<Longrightarrow> loop st AdminApi ev = Inl (Fatal refusal)"
  by simp

text \<open>What is handed over by one event, when it does not end the process.\<close>

fun handed :: "started \<Rightarrow> proc_event \<Rightarrow> handover list" where
  "handed st (Net l ev) = (case loop st l ev of Inl x \<Rightarrow> [] | Inr cs \<Rightarrow> cs)"
| "handed st _ = []"

definition proc_inv :: "flags \<Rightarrow> started \<Rightarrow> proc_event list \<Rightarrow> process \<Rightarrow> bool" where
  "proc_inv F st es p \<longleftrightarrow>
     pr_redirect p = (if fl_install F \<and> Signal True \<in> set es then None else st_spec st)
     \<and> (pr_exit p = Some Stopped \<longleftrightarrow> (\<exists>b. Signal b \<in> set es)) \<and> (pr_exit p = None \<longrightarrow> (\<forall>b. Signal b \<notin> set es))
     \<and> pr_handed p = concat (map (handed st) es)
     \<and> (\<forall>l \<in> set (pr_up p). wants st l \<and> (l = AdminApi \<longrightarrow> st_admin st = Serving))
     \<and> (\<forall>e. Work e \<in> set es \<longrightarrow> is_request e \<longrightarrow> st_admin st = Serving)"

lemma proc_inv_step:
  assumes "proc_step F st p e p'" "proc_inv F st es p"
  shows "proc_inv F st (es @ [e]) p'"
  using assms(1)
proof cases
  case (bound l r cs)
  then have "l = AdminApi \<longrightarrow> st_admin st = Serving" by (cases "st_admin st") auto
  then show ?thesis using bound assms(2) by (auto simp: proc_inv_def)
next
  case (fatal l ev x)
  then obtain err where "x = Fatal err" using loop_Fatal by blast
  then show ?thesis using fatal assms(2) by (auto simp: proc_inv_def)
next
  case (signal removes)
  then show ?thesis using assms(2) by (auto simp: proc_inv_def on_signal_def Let_def)
qed (use assms(2) in \<open>auto simp: proc_inv_def\<close>)

lemma proc_inv_run: "proc_run F st es p \<Longrightarrow> proc_inv F st es p"
proof (induction rule: proc_run.induct)
  case start
  show ?case by (auto simp: proc_inv_def proc_start_def)
qed (rule proc_inv_step)

definition works :: "proc_event list \<Rightarrow> event list" where
  "works es = List.map_filter (\<lambda>e. case e of Work w \<Rightarrow> Some w | _ \<Rightarrow> None) es"

lemma works_simps [simp]:
  "works [] = []" "works (es @ es') = works es @ works es'" "works [Work w] = [w]"
  "works [Net l ev] = []" "works [Signal b] = []"
  by (simp_all add: works_def List.map_filter_def)

lemma works_Cons: "works (e # es) = (case e of Work w \<Rightarrow> [w] | _ \<Rightarrow> []) @ works es"
  by (cases e) (simp_all add: works_def List.map_filter_simps)

lemma works_set: "w \<in> set (works es) \<longleftrightarrow> Work w \<in> set es"
proof (induction es)
  case (Cons e es)
  then show ?case by (cases e) (auto simp: works_Cons)
qed simp

text \<open>The server of a process is a run of \<open>Server\<close>.\<close>

lemma proc_run_server: "proc_run F st es p \<Longrightarrow> runs (st_conf st) (st_server st) (works es) (pr_server p)"
proof (induction rule: proc_run.induct)
  case start
  show ?case by (simp add: proc_start_def runs.start)
next
  case (more es p e p')
  from more(2) more.IH show ?case
    by cases (auto simp: on_signal_def Let_def intro: runs.more)
qed

lemma step_without_request:
  assumes "step C s e s'" "\<not> is_request e"
  shows "sv_rules s' = sv_rules s \<and> State (sv_reg s') h = State (sv_reg s) h"
  using assms
  by cases (auto simp: OnConnect_def OnFlow_def Let_def State_after_Observe reg_simps set_hub_def)

lemma runs_without_requests:
  "runs C s es s' \<Longrightarrow> \<forall>e \<in> set es. \<not> is_request e \<Longrightarrow> sv_rules s' = sv_rules s \<and> State (sv_reg s') h = State (sv_reg s) h"
proof (induction rule: runs.induct)
  case (more es s' e s'')
  then show ?case using step_without_request [OF more(2), of h] by simp
qed simp

text \<open>The connections that a listener accepted.\<close>

definition taken :: "listener \<Rightarrow> proc_event list \<Rightarrow> (nat \<times> string) list" where
  "taken l es = List.map_filter (\<lambda>e. case e of Net k (Accepted (Inr c)) \<Rightarrow> if k = l then Some c else None | _ \<Rightarrow> None) es"

definition to_engine :: "handover list \<Rightarrow> (nat \<times> string) list" where
  "to_engine hs = List.map_filter (\<lambda>h. case h of ToEngine c d \<Rightarrow> Some (c, d) | _ \<Rightarrow> None) hs"

definition to_http :: "handover list \<Rightarrow> nat list" where
  "to_http hs = List.map_filter (\<lambda>h. case h of ToHTTPProxy c \<Rightarrow> Some c | _ \<Rightarrow> None) hs"

definition to_socks :: "handover list \<Rightarrow> nat list" where
  "to_socks hs = List.map_filter (\<lambda>h. case h of ToSOCKS5 c \<Rightarrow> Some c | _ \<Rightarrow> None) hs"

lemma handed_taken:
  "to_engine (handed st e) = taken Transparent [e] \<and> to_http (handed st e) = map fst (taken HttpProxy [e])
    \<and> to_socks (handed st e) = map fst (taken SocksProxy [e])"
proof (cases e)
  case (Net l ev)
  then show ?thesis
  proof (cases ev)
    case (Bound r)
    then show ?thesis using Net
      by (cases l; cases r; cases "st_admin st") (simp_all add: taken_def to_engine_def to_http_def to_socks_def List.map_filter_def)
  next
    case (Accepted r)
    then show ?thesis using Net
      by (cases l; cases r; cases "st_admin st"; auto simp: taken_def to_engine_def to_http_def to_socks_def List.map_filter_def)
  qed
qed (simp_all add: taken_def to_engine_def to_http_def to_socks_def List.map_filter_def)

lemma append_filters:
  "taken l (es @ es') = taken l es @ taken l es'" "to_engine (hs @ hs') = to_engine hs @ to_engine hs'"
  "to_http (hs @ hs') = to_http hs @ to_http hs'" "to_socks (hs @ hs') = to_socks hs @ to_socks hs'"
  by (simp_all add: taken_def to_engine_def to_http_def to_socks_def List.map_filter_def)

section \<open>Properties\<close>

text \<open>
  C20: only the signal removes the redirection: whatever goes wrong after the start (a listener that cannot
  bind, the admin address that is refused, a failing accept of the admin server) ends the process with the
  redirect rules still installed, so that the traffic goes to a port where nobody listens.
\<close>

theorem failures_keep_the_redirect:
  assumes "start P F V s0 = (s1, Inr st)" "fl_install F" "\<And>spec. lp_installRules P spec = None"
    and "proc_run F st es p" "pr_exit p \<noteq> Some Stopped"
  shows "\<exists>spec. pr_redirect p = Some spec \<and> sp_ProxyPort spec = mustPort (fl_listen F)"
  using assms(1)
proof (cases rule: start_cases)
  case (1 x1 x2 pem reg e)
  then obtain spec where "st_spec st = Some spec" "sp_ProxyPort spec = mustPort (fl_listen F)"
    using launch_server [OF 1(3)] assms(2,3) by (auto simp: rule_spec_def)
  then show ?thesis using proc_inv_run [OF assms(4)] assms(5) by (auto simp: proc_inv_def)
qed

theorem failures_keep_the_redirect_witness:
  "\<exists>s1 st p. start ex_launch (ex_flags []) ex_environ ex_os = (s1, Inr st)
     \<and> pr_exit p = Some (Fatal ''address in use'') \<and> pr_redirect p \<noteq> None
     \<and> proc_run (ex_flags []) st ([] @ [Net Transparent (Bound (Some ''address in use''))]) p"
proof -
  obtain s1 st where st: "start ex_launch (ex_flags []) ex_environ ex_os = (s1, Inr st)" using ex_start by blast
  define p where "p = (proc_start st)\<lparr>pr_exit := Some (Fatal ''address in use'')\<rparr>"
  have r: "proc_run (ex_flags []) st ([] @ [Net Transparent (Bound (Some ''address in use''))]) p"
    unfolding p_def by (intro proc_run.more [OF proc_run.start] fatal) (simp_all add: proc_start_def)
  have "lp_installRules ex_launch spec = None" for spec by (simp add: ex_launch_def)
  from failures_keep_the_redirect [OF st _ this r] have "pr_redirect p \<noteq> None" by (auto simp: ex_flags_simps p_def)
  moreover have "pr_exit p = Some (Fatal ''address in use'')" by (simp add: p_def)
  ultimately show ?thesis using st r by blast
qed

text \<open>
  Every accepted connection is handed over exactly once and in the order of acceptance, to the engine
  with its original destination or to the handler of the proxy it came to; accept errors lose none.
\<close>

theorem accepted_connections_are_handed_over:
  assumes "proc_run F st es p"
  shows "to_engine (pr_handed p) = taken Transparent es \<and> to_http (pr_handed p) = map fst (taken HttpProxy es)
    \<and> to_socks (pr_handed p) = map fst (taken SocksProxy es)"
proof -
  have "to_engine (concat (map (handed st) es)) = taken Transparent es
      \<and> to_http (concat (map (handed st) es)) = map fst (taken HttpProxy es)
      \<and> to_socks (concat (map (handed st) es)) = map fst (taken SocksProxy es)" for es
  proof (induction es)
    case (Cons e es)
    then show ?case
      using handed_taken [of st e] append_filters(1) [of _ "[e]" es] by (simp add: append_filters(2-4))
  qed (simp add: taken_def to_engine_def to_http_def to_socks_def List.map_filter_def)
  then show ?thesis using proc_inv_run [OF assms] by (simp add: proc_inv_def)
qed

theorem accepted_connections_are_handed_over_witness:
  "\<exists>st p. proc_run (ex_flags []) st (([] @ [Net Transparent (Bound None)]) @ [Net Transparent (Accepted (Inr (5, ''1.2.3.4:443'')))]) p
     \<and> to_engine (pr_handed p) = [(5, ''1.2.3.4:443'')]"
proof -
  obtain s1 st where st: "start ex_launch (ex_flags []) ex_environ ex_os = (s1, Inr st)" using ex_start by blast
  define p1 where "p1 = (proc_start st)\<lparr>pr_up := [Transparent], pr_handed := []\<rparr>"
  have "proc_step (ex_flags []) st (proc_start st) (Net Transparent (Bound None))
      ((proc_start st)\<lparr>pr_up := Transparent # pr_up (proc_start st), pr_handed := pr_handed (proc_start st) @ []\<rparr>)"
    by (rule bound) (simp_all add: proc_start_def)
  then have 1: "proc_step (ex_flags []) st (proc_start st) (Net Transparent (Bound None)) p1"
    by (simp add: p1_def proc_start_def)
  have 2: "proc_step (ex_flags []) st p1 (Net Transparent (Accepted (Inr (5, ''1.2.3.4:443''))))
      (p1\<lparr>pr_handed := pr_handed p1 @ [ToEngine 5 ''1.2.3.4:443'']\<rparr>)"
    by (rule accepted) (simp_all add: p1_def proc_start_def)
  have r: "proc_run (ex_flags []) st (([] @ [Net Transparent (Bound None)]) @ [Net Transparent (Accepted (Inr (5, ''1.2.3.4:443'')))])
      (p1\<lparr>pr_handed := pr_handed p1 @ [ToEngine 5 ''1.2.3.4:443'']\<rparr>)"
    by (rule proc_run.more [OF proc_run.more [OF proc_run.start 1] 2])
  from accepted_connections_are_handed_over [OF r] have
    "to_engine (pr_handed (p1\<lparr>pr_handed := pr_handed p1 @ [ToEngine 5 ''1.2.3.4:443'']\<rparr>)) = [(5, ''1.2.3.4:443'')]"
    by (simp add: taken_def List.map_filter_simps)
  with r show ?thesis by blast
qed

text \<open>
  C19: a refused admin server serves nobody: when the admin address is not loopback, no token is configured
  and the operator did not open it explicitly, no request is served before the process ends: the rules and the
  states of all hosts are those of the start.
\<close>

theorem refused_admin_serves_nobody:
  assumes "start P F V s0 = (s1, Inr st)" "\<not> isLoopback (fl_admin F)" "fl_adminToken F = []" "en_openAdmin V \<noteq> ''1''"
    and "proc_run F st es p"
  shows "(\<forall>E r. Work (Api E r) \<notin> set es) \<and> sv_rules (pr_server p) = sv_rules (st_server st)
    \<and> State (sv_reg (pr_server p)) h = State (sv_reg (st_server st)) h"
proof -
  have "st_admin st = Refused"
    using assms(1)
  proof (cases rule: start_cases)
    case (1 x1 x2 pem reg e)
    then show ?thesis using launch_server [OF 1(3)] assms(2-4) by (auto simp: admin_allowed_def)
  qed
  then have n: "\<not> is_request w" if "Work w \<in> set es" for w
    using proc_inv_run [OF assms(5)] that by (auto simp: proc_inv_def)
  have "\<forall>w \<in> set (works es). \<not> is_request w" using n by (auto simp: works_set)
  from runs_without_requests [OF proc_run_server [OF assms(5)] this] n show ?thesis by fastforce
qed

theorem refused_admin_serves_nobody_witness:
  "\<exists>s1 st p. start ex_launch (ex_flags []) ex_environ ex_os = (s1, Inr st)
     \<and> proc_run (ex_flags []) st ([] @ [Net AdminApi (Bound None)]) p \<and> pr_exit p = Some (Fatal refusal)
     \<and> sv_rules (pr_server p) = sv_rules (st_server st)"
proof -
  obtain s1 st where st: "start ex_launch (ex_flags []) ex_environ ex_os = (s1, Inr st)" using ex_start by blast
  have "st_admin st = Refused"
    using st
  proof (cases rule: start_cases)
    case (1 x1 x2 pem reg e)
    then show ?thesis using launch_server [OF 1(3)] ex_not_loopback by (auto simp: admin_allowed_def ex_flags_simps)
  qed
  then have "proc_step (ex_flags []) st (proc_start st) (Net AdminApi (Bound None)) ((proc_start st)\<lparr>pr_exit := Some (Fatal refusal)\<rparr>)"
    by (intro fatal) (simp_all add: proc_start_def)
  then have r: "proc_run (ex_flags []) st ([] @ [Net AdminApi (Bound None)]) ((proc_start st)\<lparr>pr_exit := Some (Fatal refusal)\<rparr>)"
    by (rule proc_run.more [OF proc_run.start])
  have "sv_rules (pr_server ((proc_start st)\<lparr>pr_exit := Some (Fatal refusal)\<rparr>)) = sv_rules (st_server st)"
    using refused_admin_serves_nobody [OF st _ _ _ r] ex_not_loopback by (simp add: ex_flags_simps)
  with st r show ?thesis by (intro exI conjI) (assumption | simp)+
qed

end
