(* ===== verification/Saves.thy ===== *)
theory Saves
  imports Server
begin

text \<open>
  Requests that run at the same time. A request that changes something first changes the memory, in one
  step under a mutex, and then saves it: it collects the states, writes \<open>state.json\<close>, collects the rules and
  writes \<open>rules.json\<close>. Nothing holds the requests apart while they save, so their steps interleave, also with
  the engine's callbacks. \<open>Server\<close> takes a request as one step; here it is shown when that is justified
  and what can happen otherwise.
\<close>

section \<open>Memory\<close>

type_synonym memory = "registry \<times> rule_engine"

text \<open>The changes that the admin API and MCP make before they save.\<close>

datatype change =
    SetsState string DomainState
  | DeletesHost string
  | Resets
  | Clears string
  | AddsRule entropy rule
  | DeletesRule string

fun apply_change :: "change \<Rightarrow> memory \<Rightarrow> memory" where
  "apply_change (SetsState h st) (reg, e) = (SetState reg h st, e)"
| "apply_change (DeletesHost h) (reg, e) = (DeleteHost reg h, e)"
| "apply_change Resets (reg, e) = (Reset reg, e)"
| "apply_change (Clears h) (reg, e) = (ClearFlows reg h, e)"
| "apply_change (AddsRule rnd r) (reg, e) = (reg, fst (Add rnd e r))"
| "apply_change (DeletesRule i) (reg, e) = (reg, fst (Delete e i))"

text \<open>Deleting a rule that is not there is answered 404 without saving.\<close>

fun saves :: "change \<Rightarrow> memory \<Rightarrow> bool" where
  "saves (DeletesRule i) (reg, e) = snd (Delete e i)"
| "saves ch m = True"

text \<open>What the engine's callbacks do to the memory.\<close>

datatype mem_op = Observed string | Recorded flow

fun apply_op :: "mem_op \<Rightarrow> memory \<Rightarrow> memory" where
  "apply_op (Observed h) (reg, e) = (Observe reg h, e)"
| "apply_op (Recorded f) (reg, e) = (AddFlow reg f, e)"

section \<open>Writing a file in two steps\<close>

text \<open>
  \<open>os.WriteFile\<close> opens and truncates the file, and then writes at the offset of its own descriptor, the
  start. Two of them on one file interleave.
\<close>

definition open_trunc :: "os \<Rightarrow> string \<Rightarrow> os \<times> bool" where
  "open_trunc s p =
     (if os_wfault s p = Some OpenFails then (s, False)
      else (s\<lparr>os_files := mput p [] (os_files s)\<rparr>, True))"

definition write_start :: "os \<Rightarrow> string \<Rightarrow> string \<Rightarrow> os \<times> bool" where
  "write_start s p b =
     (let old = mgetd [] (os_files s) p;
          put = (\<lambda>b. s\<lparr>os_files := mput p (b @ drop (length b) old) (os_files s)\<rparr>)
      in case os_wfault s p of
           Some (WriteFails n) \<Rightarrow> (put (take n b), False)
         | _ \<Rightarrow> (put b, True))"

section \<open>A request\<close>

datatype stage =
    Changing
  | Preparing
  | Collecting
  | OpeningStates string
  | WritingStates string
  | CollectingRules
  | OpeningRules string
  | WritingRules string
  | Answered

text \<open>The next step of a request; errors of saving are dropped.\<close>

fun req_step :: "string \<Rightarrow> string map_order \<Rightarrow> change \<Rightarrow> stage \<Rightarrow> os \<Rightarrow> memory \<Rightarrow> stage \<times> os \<times> memory" where
  "req_step dir ord ch Changing s m = (if saves ch m then Preparing else Answered, s, apply_change ch m)"
| "req_step dir ord ch Preparing s m =
     (case MkdirAll s dir of (s, err) \<Rightarrow> (if err = None then Collecting else Answered, s, m))"
| "req_step dir ord ch Collecting s m = (OpeningStates (state_text ord (fst m)), s, m)"
| "req_step dir ord ch (OpeningStates t) s m =
     (case open_trunc s (state_path dir) of (s, ok) \<Rightarrow> (if ok then WritingStates t else Answered, s, m))"
| "req_step dir ord ch (WritingStates t) s m =
     (case write_start s (state_path dir) t of (s, ok) \<Rightarrow> (if ok then CollectingRules else Answered, s, m))"
| "req_step dir ord ch CollectingRules s m = (OpeningRules (rules_text (snd m)), s, m)"
| "req_step dir ord ch (OpeningRules t) s m =
     (case open_trunc s (rules_path dir) of (s, ok) \<Rightarrow> (if ok then WritingRules t else Answered, s, m))"
| "req_step dir ord ch (WritingRules t) s m = (Answered, fst (write_start s (rules_path dir) t), m)"
| "req_step dir ord ch Answered s m = (Answered, s, m)"

section \<open>Many requests\<close>

record config =
  cf_os :: os
  cf_mem :: memory
  cf_reqs :: "(change \<times> stage) list"

datatype actor = Req nat | Engine

inductive conc_step :: "string \<Rightarrow> config \<Rightarrow> actor \<Rightarrow> config \<Rightarrow> bool" for dir where
  request: "i < length (cf_reqs k) \<Longrightarrow> cf_reqs k ! i = (ch, g) \<Longrightarrow> g \<noteq> Answered \<Longrightarrow> is_map_order ord \<Longrightarrow>
    req_step dir ord ch g (cf_os k) (cf_mem k) = (g', s, m) \<Longrightarrow>
    conc_step dir k (Req i) (k\<lparr>cf_os := s, cf_mem := m, cf_reqs := (cf_reqs k)[i := (ch, g')]\<rparr>)"
| engine: "op \<in> range Observed \<union> range Recorded \<Longrightarrow>
    conc_step dir k Engine (k\<lparr>cf_mem := apply_op op (cf_mem k)\<rparr>)"

inductive conc_run :: "string \<Rightarrow> config \<Rightarrow> actor list \<Rightarrow> config \<Rightarrow> bool" for dir k where
  start: "conc_run dir k [] k"
| more: "conc_run dir k as k' \<Longrightarrow> conc_step dir k' a k'' \<Longrightarrow> conc_run dir k (as @ [a]) k''"

definition conc_start :: "os \<Rightarrow> memory \<Rightarrow> change list \<Rightarrow> config" where
  "conc_start s m chs = \<lparr>cf_os = s, cf_mem = m, cf_reqs = map (\<lambda>ch. (ch, Changing)) chs\<rparr>"

lemma req_step_mem:
  "req_step dir ord ch g s m = (g', s', m') \<Longrightarrow> m' = (if g = Changing then apply_change ch m else m)"
  by (cases g) (auto split: prod.splits)

section \<open>Every request is answered\<close>

fun todo :: "stage \<Rightarrow> nat" where
  "todo Changing = 8"
| "todo Preparing = 7"
| "todo Collecting = 6"
| "todo (OpeningStates t) = 5"
| "todo (WritingStates t) = 4"
| "todo CollectingRules = 3"
| "todo (OpeningRules t) = 2"
| "todo (WritingRules t) = 1"
| "todo Answered = 0"

lemma req_step_todo: "g \<noteq> Answered \<Longrightarrow> todo (fst (req_step dir ord ch g s m)) < todo g"
  by (cases g) (auto split: prod.splits)

lemma todo_le: "todo g \<le> 8"
  by (cases g) auto

lemma todo_0: "todo g = 0 \<longleftrightarrow> g = Answered"
  by (cases g) auto

text \<open>The steps of one request, and the requests that exist, along a run.\<close>

lemma conc_step_reqs:
  assumes "conc_step dir k a k'"
  shows "map fst (cf_reqs k') = map fst (cf_reqs k)"
    and "j < length (cf_reqs k) \<Longrightarrow>
      todo (snd (cf_reqs k' ! j)) + (if a = Req j then 1 else 0) \<le> todo (snd (cf_reqs k ! j))"
proof -
  show "map fst (cf_reqs k') = map fst (cf_reqs k)"
    using assms by cases (auto simp: list_eq_iff_nth_eq nth_list_update)
  assume j: "j < length (cf_reqs k)"
  show "todo (snd (cf_reqs k' ! j)) + (if a = Req j then 1 else 0) \<le> todo (snd (cf_reqs k ! j))"
    using assms
  proof cases
    case (request i ch g ord g' s m)
    then have "todo g' < todo g" using req_step_todo [of g dir ord ch "cf_os k" "cf_mem k"] by simp
    then show ?thesis using request j by (auto simp: nth_list_update)
  qed simp
qed

lemma conc_step_length: "conc_step dir k a k' \<Longrightarrow> length (cf_reqs k') = length (cf_reqs k)"
  using conc_step_reqs(1) by (metis length_map)

lemma conc_run_reqs:
  assumes "conc_run dir k as k'"
  shows "map fst (cf_reqs k') = map fst (cf_reqs k)"
    and "j < length (cf_reqs k) \<Longrightarrow> todo (snd (cf_reqs k' ! j)) + count_list as (Req j) \<le> todo (snd (cf_reqs k ! j))"
proof -
  show "map fst (cf_reqs k') = map fst (cf_reqs k)"
    using assms by induction (auto dest: conc_step_reqs(1))
  show "j < length (cf_reqs k) \<Longrightarrow> todo (snd (cf_reqs k' ! j)) + count_list as (Req j) \<le> todo (snd (cf_reqs k ! j))"
    using assms
  proof induction
    case (more as k' a k'')
    have "length (cf_reqs k') = length (cf_reqs k)"
      using more(1) by induction (auto dest: conc_step_length)
    then show ?case using more conc_step_reqs(2) [OF more(2), of j] by (auto simp: split: if_splits)
  qed simp
qed

lemma request_can_step:
  assumes "j < length (cf_reqs k)" "snd (cf_reqs k ! j) \<noteq> Answered"
  shows "\<exists>k'. conc_step dir k (Req j) k'"
proof -
  obtain ch g where g: "cf_reqs k ! j = (ch, g)" by fastforce
  obtain g' s m where r: "req_step dir id ch g (cf_os k) (cf_mem k) = (g', s, m)" by (metis prod_cases3)
  show ?thesis using conc_step.request [OF assms(1) g _ is_map_order_id [folded id_def] r] assms(2) g by auto
qed

section \<open>A request alone\<close>

lemma mput_mput [simp]: "mput p x (mput p y m) = mput p x m"
  by (simp add: mput_def)

lemma write_in_two_steps:
  "WriteFile s p b =
     (case open_trunc s p of
        (s', False) \<Rightarrow> (s', Some (os_err s p))
      | (s', True) \<Rightarrow> (case write_start s' p b of (s'', ok) \<Rightarrow> (s'', if ok then None else Some (os_err s p))))"
  by (auto simp: WriteFile_def open_trunc_def write_start_def Let_def mgetd_def split: option.splits write_fault.splits)

fun run_alone :: "string \<Rightarrow> string map_order \<Rightarrow> change \<Rightarrow> nat \<Rightarrow> stage \<Rightarrow> os \<Rightarrow> memory \<Rightarrow> stage \<times> os \<times> memory" where
  "run_alone dir ord ch 0 g s m = (g, s, m)"
| "run_alone dir ord ch (Suc n) g s m =
     (case req_step dir ord ch g s m of (g, s, m) \<Rightarrow> run_alone dir ord ch n g s m)"

lemma run_answered [simp]: "run_alone dir ord ch n Answered s m = (Answered, s, m)"
  by (induction n) auto

lemma open_trunc_faults:
  assumes "open_trunc s p = (s', ok)"
  shows "os_wfault s' = os_wfault s" "os_err s' = os_err s"
  using assms by (auto simp: open_trunc_def split: if_splits)

lemma write_start_faults:
  assumes "write_start s p b = (s', ok)"
  shows "os_wfault s' = os_wfault s" "os_err s' = os_err s"
  using assms by (auto simp: write_start_def Let_def split: option.splits write_fault.splits)

lemma rules_alone:
  "run_alone dir ord ch 3 CollectingRules s m = (Answered, fst (WriteFile s (rules_path dir) (rules_text (snd m))), m)"
  by (auto simp: numeral_3_eq_3 write_in_two_steps split: prod.splits)

lemma alone:
  "run_alone dir ord ch 8 Changing s m =
     (Answered,
      if saves ch m then fst (savePersist ord s dir (fst (apply_change ch m)) (snd (apply_change ch m))) else s,
      apply_change ch m)"
proof (cases "saves ch m")
  case True
  define m' where "m' = apply_change ch m"
  obtain s1 e1 where mk: "MkdirAll s dir = (s1, e1)" by fastforce
  have w: "run_alone dir ord ch 5 (OpeningStates t) s1 m' =
      (Answered, case WriteFile s1 (state_path dir) t of
         (s, Some err) \<Rightarrow> s | (s, None) \<Rightarrow> fst (WriteFile s (rules_path dir) (rules_text (snd m'))), m')" for t
  proof -
    obtain s2 o2 where o: "open_trunc s1 (state_path dir) = (s2, o2)" by fastforce
    obtain s3 o3 where w: "write_start s2 (state_path dir) t = (s3, o3)" by fastforce
    have "run_alone dir ord ch 5 (OpeningStates t) s1 m' =
        (if o2 then if o3 then run_alone dir ord ch 3 CollectingRules s3 m' else (Answered, s3, m') else (Answered, s2, m'))"
      by (simp add: eval_nat_numeral o w)
    then show ?thesis by (simp add: rules_alone write_in_two_steps [of s1] o w)
  qed
  have "run_alone dir ord ch 8 Changing s m =
      (if e1 = None then run_alone dir ord ch 5 (OpeningStates (state_text ord (fst m'))) s1 m' else (Answered, s1, m'))"
    using True by (simp add: eval_nat_numeral mk flip: m'_def)
  then show ?thesis
    using True by (auto simp: w savePersist_def mk simp flip: m'_def split: prod.splits option.splits)
next
  case False
  then show ?thesis by (simp add: eval_nat_numeral)
qed

section \<open>Invariants of the memory\<close>

definition memory_ok :: "memory \<Rightarrow> bool" where
  "memory_ok m \<longleftrightarrow> registry_ok (fst m) \<and> engine_ok (snd m)"

fun change_ok :: "change \<Rightarrow> bool" where
  "change_ok (AddsRule rnd r) \<longleftrightarrow> is_entropy rnd"
| "change_ok ch \<longleftrightarrow> True"

lemma memory_ok_change: "memory_ok m \<Longrightarrow> change_ok ch \<Longrightarrow> memory_ok (apply_change ch m)"
  by (cases m; cases ch)
    (auto simp: memory_ok_def ok_SetState ok_DeleteHost ok_Reset ok_ClearFlows engine_ok_Add engine_ok_Delete)

lemma memory_ok_engine: "memory_ok m \<Longrightarrow> op \<in> range Observed \<union> range Recorded \<Longrightarrow> memory_ok (apply_op op m)"
  by (cases m) (auto simp: memory_ok_def ok_Observe ok_AddFlow)

text \<open>What the files can be asked for stays as it was.\<close>

definition same_faults :: "os \<Rightarrow> os \<Rightarrow> bool" where
  "same_faults s s' \<longleftrightarrow> os_dfault s' = os_dfault s \<and> os_wfault s' = os_wfault s \<and> os_unreadable s' = os_unreadable s"

lemma same_faults_ops:
  "same_faults s s" "same_faults s (fst (MkdirAll s d))" "same_faults s (fst (open_trunc s p))"
  "same_faults s (fst (write_start s p b))"
  by (auto simp: same_faults_def open_trunc_def write_start_def Let_def split: option.splits write_fault.splits)

lemma req_step_faults: "same_faults s (fst (snd (req_step dir ord ch g s m)))"
  using same_faults_ops by (cases g) (auto simp: case_prod_unfold)

lemma conc_run_ok:
  assumes "conc_run dir k as k'" "memory_ok (cf_mem k)" "list_all (change_ok \<circ> fst) (cf_reqs k)"
  shows "memory_ok (cf_mem k') \<and> same_faults (cf_os k) (cf_os k')"
  using assms
proof (induction rule: conc_run.induct)
  case (more as k' a k'')
  have fsts: "map fst (cf_reqs k') = map fst (cf_reqs k)" using conc_run_reqs(1) [OF more(1)] .
  from more(2) show ?case
  proof cases
    case (request i ch g ord g' s m)
    have "ch \<in> set (map fst (cf_reqs k'))" using nth_mem [OF request(3)] request(4) by (metis fst_conv image_eqI list.set_map)
    then have "ch \<in> set (map fst (cf_reqs k))" by (simp only: fsts)
    then have c: "change_ok ch" using more(5) by (auto simp: list_all_iff)
    have ih: "memory_ok (cf_mem k')" "same_faults (cf_os k) (cf_os k')" using more.IH more.prems by auto
    have "memory_ok m"
      using req_step_mem [OF request(7)] ih(1) memory_ok_change [OF ih(1) c] by simp
    moreover have "same_faults (cf_os k') s"
      using req_step_faults [of "cf_os k'" dir ord ch g "cf_mem k'"] by (simp add: request(7))
    ultimately show ?thesis using ih(2) by (simp add: request(2) same_faults_def)
  next
    case (engine op)
    then show ?thesis using more.IH more.prems memory_ok_engine [of "cf_mem k'" op] by simp
  qed
qed (simp add: same_faults_def)

lemma savePersist_frame: "same_faults s (fst (savePersist ord s dir reg e))"
  by (auto simp: savePersist_def same_faults_def MkdirAll_def WriteFile_def split: option.splits write_fault.splits)

section \<open>Two saves at the same time\<close>

fun schedule :: "string \<Rightarrow> string map_order \<Rightarrow> config \<Rightarrow> nat list \<Rightarrow> config option" where
  "schedule dir ord k [] = Some k"
| "schedule dir ord k (i # is) =
     (if i < length (cf_reqs k) \<and> snd (cf_reqs k ! i) \<noteq> Answered then
        (case cf_reqs k ! i of
           (ch, g) \<Rightarrow>
             (case req_step dir ord ch g (cf_os k) (cf_mem k) of
                (g', s, m) \<Rightarrow>
                  schedule dir ord (k\<lparr>cf_os := s, cf_mem := m, cf_reqs := (cf_reqs k)[i := (ch, g')]\<rparr>) is))
      else None)"

lemma conc_run_prepend: "conc_run dir k1 as k2 \<Longrightarrow> conc_step dir k a k1 \<Longrightarrow> conc_run dir k (a # as) k2"
proof (induction rule: conc_run.induct)
  case start
  then show ?case using conc_run.more [OF conc_run.start] by fastforce
next
  case (more as k' b k'')
  then show ?case using conc_run.more [of dir k "a # as"] by simp
qed

lemma schedule_run: "schedule dir ord k is = Some k' \<Longrightarrow> is_map_order ord \<Longrightarrow> conc_run dir k (map Req is) k'"
proof (induction "is" arbitrary: k)
  case (Cons i "is")
  obtain ch g g' s m where g: "cf_reqs k ! i = (ch, g)" "req_step dir ord ch g (cf_os k) (cf_mem k) = (g', s, m)"
    by (metis prod_cases3 prod.exhaust)
  have i: "i < length (cf_reqs k)" "g \<noteq> Answered" using Cons.prems(1) g by (auto split: if_splits)
  show ?case
    using Cons.IH [of "k\<lparr>cf_os := s, cf_mem := m, cf_reqs := (cf_reqs k)[i := (ch, g')]\<rparr>"]
      Cons.prems i g conc_step.request [OF i(1) g(1) i(2) Cons.prems(2) g(2)] conc_run_prepend
    by (auto split: if_splits)
qed (simp add: conc_run.start)

text \<open>
  Both requests have collected their text of the states; the first opens the file, the second opens it, the
  first writes, the second writes.
\<close>

definition overlap :: "nat list" where
  "overlap = [0, 0, 0, 1, 1, 1, 0, 1, 0, 1, 0, 0, 0, 1, 1, 1]"

definition ex_overlap :: config where
  "ex_overlap = conc_start ex_os (NewRegistry, NewRuleEngine)
     [SetsState ''a'' StateObserved, SetsState ''a'' StateMocked]"

abbreviation text_a :: "DomainState \<Rightarrow> string" where
  "text_a st \<equiv> state_text id (SetState NewRegistry ''a'' st)"

lemma overlap_files:
  "\<exists>k. schedule ''/data'' id ex_overlap overlap = Some k \<and> list_all (\<lambda>q. snd q = Answered) (cf_reqs k)
     \<and> cf_mem k = (SetState (SetState NewRegistry ''a'' StateObserved) ''a'' StateMocked, NewRuleEngine)
     \<and> ReadFile (cf_os k) (state_path ''/data'')
         = Some (text_a StateMocked @ drop (length (text_a StateMocked)) (text_a StateObserved))"
proof -
  have t: "state_text id (SetState (SetState NewRegistry ''a'' StateObserved) ''a'' StateMocked) = text_a StateMocked"
    by (simp add: state_text_def snapshot_def SetState_def NewRegistry_def mput_def mkeys_def mgetd_def mget_def)
  have n: "state_path ''/data'' \<noteq> rules_path ''/data''" "rules_path ''/data'' \<noteq> state_path ''/data''"
    using paths_differ by metis+
  show ?thesis
    by (simp add: overlap_def ex_overlap_def conc_start_def t n MkdirAll_def ex_os_def open_trunc_def write_start_def
        ReadFile_def mgetd_def)
qed

lemma text_a_printed:
  "text_a st = pr True 0 (JObj [(''states'', JObj [(''a'', JStr st)])])"
  by (simp add: state_text_def persisted_json_def opt_flag_def obj_of_def snapshot_def SetState_def NewRegistry_def
      mput_def mkeys_def mgetd_def mget_def marshal_indent_def)

definition text_a_head :: string where
  "text_a_head = ''{'' @ CHR 0x0A # ''  '' @ quote_str ''states'' @ '': {'' @ CHR 0x0A # ''    '' @ quote_str ''a'' @ '': ''"

lemma text_a_parts: "text_a st = text_a_head @ quote_str st @ CHR 0x0A # ''  }'' @ CHR 0x0A # ''}''"
  by (simp add: text_a_printed text_a_head_def nl_def colon_def eval_nat_numeral)

lemma states_quoted: "quote_str StateObserved = CHR 0x22 # ''OBSERVED'' @ [CHR 0x22]" "quote_str StateMocked = CHR 0x22 # ''MOCKED'' @ [CHR 0x22]"
  by (simp_all add: state_defs quote_plain json_plain_def)

lemma overlap_text:
  "parse_all (text_a StateMocked @ drop (length (text_a StateMocked)) (text_a StateObserved)) = None"
proof -
  define v where "v = JObj [(''states'', JObj [(''a'', JStr StateMocked)])]"
  have r: "drop (length (text_a StateMocked)) (text_a StateObserved) = CHR 0x0A # ''}''"
    by (simp add: text_a_parts states_quoted)
  have t: "text_a StateMocked = pr True 0 v" by (simp only: text_a_printed v_def)
  have "decode_first (pr True 0 v @ CHR 0x0A # ''}'') = Some (clean v, CHR 0x0A # ''}'')"
    by (rule parse_pr) (simp_all add: v_def max_depth_def delim_def js_space_def)
  then show ?thesis
    unfolding r unfolding t by (simp add: parse_all_def skip_ws_def js_space_def)
qed

lemma overlap_run:
  obtains k where "conc_run ''/data'' ex_overlap (map Req overlap) k" "list_all (\<lambda>q. snd q = Answered) (cf_reqs k)"
    "cf_mem k = (SetState (SetState NewRegistry ''a'' StateObserved) ''a'' StateMocked, NewRuleEngine)"
    "ReadFile (cf_os k) (state_path ''/data'')
       = Some (text_a StateMocked @ drop (length (text_a StateMocked)) (text_a StateObserved))"
proof -
  obtain k where "schedule ''/data'' id ex_overlap overlap = Some k" "list_all (\<lambda>q. snd q = Answered) (cf_reqs k)"
    "cf_mem k = (SetState (SetState NewRegistry ''a'' StateObserved) ''a'' StateMocked, NewRuleEngine)"
    "ReadFile (cf_os k) (state_path ''/data'')
       = Some (text_a StateMocked @ drop (length (text_a StateMocked)) (text_a StateObserved))"
    using overlap_files by blast
  moreover from this(1) have "conc_run ''/data'' ex_overlap (map Req overlap) k"
    by (rule schedule_run) (simp add: is_map_order_id id_def)
  ultimately show thesis using that by blast
qed

section \<open>Properties\<close>

text \<open>
  No request waits for another: each is answered after at most eight steps of its own, and until then its
  next step is possible, whatever the others and the engine do.
\<close>

theorem requests_are_answered:
  assumes "conc_run dir (conc_start s m chs) as k" "j < length chs"
  shows "count_list as (Req j) \<le> 8
    \<and> (count_list as (Req j) = 8 \<longrightarrow> snd (cf_reqs k ! j) = Answered)
    \<and> (snd (cf_reqs k ! j) \<noteq> Answered \<longrightarrow> (\<exists>k'. conc_step dir k (Req j) k'))"
proof -
  have l: "length (cf_reqs k) = length chs"
    using conc_run_reqs(1) [OF assms(1)] by (metis length_map conc_start_def config.select_convs(3))
  have "todo (snd (cf_reqs k ! j)) + count_list as (Req j) \<le> 8"
    using conc_run_reqs(2) [OF assms(1), of j] assms(2) by (simp add: conc_start_def)
  then show ?thesis using request_can_step [of j k dir] l assms(2) todo_0 [of "snd (cf_reqs k ! j)"] by auto
qed

theorem requests_are_answered_witness:
  "\<exists>k. conc_run ''/data'' ex_overlap (map Req overlap) k \<and> snd (cf_reqs k ! 1) = Answered"
proof (rule overlap_run)
  fix k
  assume k: "conc_run ''/data'' ex_overlap (map Req overlap) k"
  have "count_list (map Req overlap) (Req 1) = 8" by (simp add: overlap_def)
  with requests_are_answered [OF k [unfolded ex_overlap_def], of 1] k show ?thesis by auto
qed

text \<open>
  C25: \<open>Server\<close> may take a request as one step when it runs alone: whenever a request to the admin API changes
  the states or the rules, memory and files are those after the eight steps of a saving request.
\<close>

theorem requests_refine_steps:
  assumes "adminMux E C s r = (s', a)" "states (sv_reg s') \<noteq> states (sv_reg s) \<or> sv_rules s' \<noteq> sv_rules s"
  shows "\<exists>ch. run_alone (ac_dataDir C) (ae_ord E) ch 8 Changing (sv_os s) (sv_reg s, sv_rules s)
    = (Answered, sv_os s', (sv_reg s', sv_rules s'))"
proof -
  have *: ?thesis if "apply_change ch (sv_reg s, sv_rules s) = (sv_reg s', sv_rules s')" "saves ch (sv_reg s, sv_rules s)"
    "sv_os s' = fst (savePersist (ae_ord E) (sv_os s) (ac_dataDir C) (sv_reg s') (sv_rules s'))" for ch
    using that by (intro exI [of _ ch]) (simp add: alone)
  show ?thesis
    using admin_step [OF assms(1)]
  proof cases
    case keep
    then show ?thesis using assms(2) by simp
  next
    case (delete_host h)
    then show ?thesis by (intro * [of "DeletesHost h"]) simp_all
  next
    case reset
    then show ?thesis by (intro * [of Resets]) simp_all
  next
    case (clear h)
    then show ?thesis by (intro * [of "Clears h"]) simp_all
  next
    case (set_state st h)
    then show ?thesis by (intro * [of "SetsState h st"]) simp_all
  next
    case (mcp_state h st)
    then show ?thesis by (intro * [of "SetsState h st"]) simp_all
  next
    case (delete_rule i)
    have "snd (Delete (sv_rules s) i)"
    proof (rule ccontr)
      assume "\<not> snd (Delete (sv_rules s) i)"
      then have "fst (Delete (sv_rules s) i) = sv_rules s" using Delete_absent by (metis prod.collapse)
      then show False using assms(2) delete_rule by simp
    qed
    then show ?thesis using delete_rule by (intro * [of "DeletesRule i"]) simp_all
  next
    case (add_rule q)
    then show ?thesis by (intro * [of "AddsRule (ae_rnd E) q"]) simp_all
  qed
qed

theorem requests_refine_steps_witness:
  "\<exists>ch. run_alone ''/data'' (ae_ord ex_admin_env) ch 8 Changing ex_os (NewRegistry, ex_engine)
     = (Answered, sv_os (fst (adminMux ex_admin_env ex_open_conf ex_server ex_mock_request)),
        (SetState NewRegistry ''a'' StateMocked, ex_engine))"
proof -
  obtain s' a where m: "adminMux ex_admin_env ex_open_conf ex_server ex_mock_request = (s', a)" by fastforce
  have s': "sv_reg s' = SetState NewRegistry ''a'' StateMocked" "sv_rules s' = ex_engine"
    using ex_mock_step by (simp_all add: m) (simp add: ex_server_def ex_app_def)
  have s: "sv_os ex_server = ex_os" "sv_reg ex_server = NewRegistry" "sv_rules ex_server = ex_engine"
    "ac_dataDir ex_open_conf = ''/data''"
    by (simp_all add: ex_server_def ex_app_def ex_open_conf_def ex_admin_conf_def)
  have "states (SetState NewRegistry ''a'' StateMocked) \<noteq> states NewRegistry"
    by (simp add: SetState_def NewRegistry_def mput_def)
  from requests_refine_steps [OF m] this show ?thesis by (simp add: m s s')
qed

text \<open>
  C27: a lone save repairs: however the requests before it interleaved, and whatever they left in the files,
  after one further request that saves with no other in progress a process started on the files has exactly
  the states and the rules of the server.
\<close>

theorem lone_request_repairs:
  assumes "conc_run dir (conc_start s0 m0 chs) as k" "memory_ok m0" "list_all change_ok (ch # chs)"
    and "saves ch (cf_mem k)" "run_alone dir ord ch 8 Changing (cf_os k) (cf_mem k) = (g, s, (reg, e))"
    and "storable reg e" "is_map_order ord" "is_map_order ord'"
    and "\<not> os_dfault s0 dir" "os_wfault s0 (state_path dir) = None" "os_wfault s0 (rules_path dir) = None"
    and "\<not> os_unreadable s0 (state_path dir)" "\<not> os_unreadable s0 (rules_path dir)"
    and "loadPersist L u ord' rnd s dir NewRegistry NewRuleEngine = (s', reg', e', err)"
  shows "err = None \<and> (\<forall>h. mget (states reg') h = mget (states reg) h) \<and> rules e' = map normal_rule (rules e)"
proof -
  have "list_all (change_ok \<circ> fst) (cf_reqs (conc_start s0 m0 chs))"
    using assms(3) by (simp add: conc_start_def list_all_iff)
  from conc_run_ok [OF assms(1) _ this] have k: "memory_ok (cf_mem k)" "same_faults s0 (cf_os k)"
    using assms(2) by (simp_all add: conc_start_def)
  have a: "apply_change ch (cf_mem k) = (reg, e)" "s = fst (savePersist ord (cf_os k) dir reg e)"
    using assms(5) by (auto simp: alone assms(4))
  have "memory_ok (reg, e)" using memory_ok_change [OF k(1)] assms(3) by (simp flip: a(1))
  moreover obtain err1 where "savePersist ord (cf_os k) dir reg e = (s, err1)" using a(2) by (metis prod.collapse)
  ultimately show ?thesis
    using restart_state [of reg e ord ord' "cf_os k" dir s err1 L u rnd s' reg' e' err] assms(6-14) k(2)
    by (simp add: memory_ok_def same_faults_def)
qed

theorem lone_request_repairs_witness:
  "\<exists>k g s reg e s' reg' e'. conc_run ''/data'' ex_overlap (map Req overlap) k
     \<and> run_alone ''/data'' id (SetsState ''a'' StateMocked) 8 Changing (cf_os k) (cf_mem k) = (g, s, (reg, e))
     \<and> loadPersist ex_lib ex_unicode id (\<lambda>i. []) s ''/data'' NewRegistry NewRuleEngine = (s', reg', e', None)
     \<and> mget (states reg') ''a'' = Some StateMocked"
proof (rule overlap_run)
  fix k
  assume k: "conc_run ''/data'' ex_overlap (map Req overlap) k"
    "cf_mem k = (SetState (SetState NewRegistry ''a'' StateObserved) ''a'' StateMocked, NewRuleEngine)"
  obtain s where r: "run_alone ''/data'' id (SetsState ''a'' StateMocked) 8 Changing (cf_os k) (cf_mem k)
      = (Answered, s, (SetState (fst (cf_mem k)) ''a'' StateMocked, NewRuleEngine))"
    by (simp add: alone k(2))
  obtain s' reg' e' err where l: "loadPersist ex_lib ex_unicode id (\<lambda>i. []) s ''/data'' NewRegistry NewRuleEngine = (s', reg', e', err)"
    by (metis prod_cases4)
  have st: "storable (SetState (fst (cf_mem k)) ''a'' StateMocked) NewRuleEngine"
    by (simp add: k(2) storable_def SetState_def NewRegistry_def NewRuleEngine_def mput_def state_defs utf8_valid_ascii)
  have ok: "memory_ok (NewRegistry, NewRuleEngine)"
    by (simp add: memory_ok_def ok_NewRegistry engine_ok_def NewRuleEngine_def)
  have o: "is_map_order id" by (simp add: is_map_order_id id_def)
  have m: "mget (states (SetState (fst (cf_mem k)) ''a'' StateMocked)) ''a'' = Some StateMocked"
    by (simp add: SetState_def)
  have "err = None \<and> mget (states reg') ''a'' = Some StateMocked"
    using lone_request_repairs [OF k(1) [unfolded ex_overlap_def] ok _ _ r st o o _ _ _ _ _ l] m by (simp add: ex_os_def)
  then show ?thesis using k(1) r l by blast
qed

text \<open>
  C5: overlapping saves can lose everything: two requests that set the state of a host to OBSERVED and then
  to MOCKED are both answered, memory has the second, but the file holds the shorter text followed by the
  rest of the longer one, which is no JSON; a process started on it knows no state at all.
\<close>

theorem overlapping_saves_lose_states:
  "\<exists>k. conc_run ''/data'' ex_overlap (map Req overlap) k \<and> list_all (\<lambda>q. snd q = Answered) (cf_reqs k)
     \<and> State (fst (cf_mem k)) ''a'' = StateMocked
     \<and> load_state_file L u ord (ReadFile (cf_os k) (state_path ''/data'')) NewRegistry = NewRegistry"
proof -
  obtain k where k: "conc_run ''/data'' ex_overlap (map Req overlap) k" "list_all (\<lambda>q. snd q = Answered) (cf_reqs k)"
    "cf_mem k = (SetState (SetState NewRegistry ''a'' StateObserved) ''a'' StateMocked, NewRuleEngine)"
    "ReadFile (cf_os k) (state_path ''/data'')
       = Some (text_a StateMocked @ drop (length (text_a StateMocked)) (text_a StateObserved))"
    by (rule overlap_run)
  have "load_state_file L u ord (ReadFile (cf_os k) (state_path ''/data'')) NewRegistry = NewRegistry"
    by (simp add: k(4) load_state_file_def Unmarshal_def overlap_text)
  then show ?thesis using k(1-3) by (auto simp: State_SetState)
qed

end
