(* ===== verification/Fanout.thy ===== *)
theory Fanout
  imports Hub
begin

text \<open>
  The fan-out with its blocking (hub.go, \<open>wsConn.send\<close> in ws.go). \<open>Publish\<close> holds the hub's mutex while it
  writes to one client after the other, and a write blocks while the buffers of that connection are full.
  \<open>Hub\<close> takes a publication as one step; here publications and reading clients interleave, and it is shown
  when every publication comes to its end.
\<close>

section \<open>States\<close>

text \<open>
  A client's connection: the messages in its buffers, how many fit, what the client has read, whether it
  goes on reading, and whether the connection has failed, so that writing returns at once.
\<close>

record socket =
  so_queue :: "byte list list"
  so_room :: nat
  so_read :: "byte list list"
  so_reads :: bool
  so_broken :: bool

text \<open>A call of \<open>Publish\<close> waits for the mutex, has clients left to write to, or has returned.\<close>

datatype publication = Waiting "byte list" | Sending "byte list" "nat list" | Published "byte list"

text \<open>\<open>fn_log\<close> is the history: the messages in the order in which their publications got the mutex.\<close>

record fan =
  fn_lock :: "nat option"
  fn_socks :: "(nat, socket) gomap"
  fn_pubs :: "publication list"
  fn_log :: "byte list list"

section \<open>Steps\<close>

text \<open>
  \<open>writeWSFrame\<close> into the buffers of a connection: \<open>None\<close> while it blocks.
\<close>

definition sock_write :: "socket \<Rightarrow> byte list \<Rightarrow> socket option" where
  "sock_write s m =
     (if so_broken s then Some s
      else if length (so_queue s) < so_room s then Some (s\<lparr>so_queue := so_queue s @ [m]\<rparr>)
      else None)"

definition put_sock :: "nat \<Rightarrow> socket \<Rightarrow> fan \<Rightarrow> fan" where
  "put_sock c s f = f\<lparr>fn_socks := mput c s (fn_socks f)\<rparr>"

definition put_pub :: "nat \<Rightarrow> publication \<Rightarrow> fan \<Rightarrow> fan" where
  "put_pub i p f = f\<lparr>fn_pubs := (fn_pubs f)[i := p]\<rparr>"

inductive fan_step :: "fan \<Rightarrow> fan \<Rightarrow> bool" where
  lock: "i < length (fn_pubs f) \<Longrightarrow> fn_pubs f ! i = Waiting m \<Longrightarrow> fn_lock f = None \<Longrightarrow> is_map_order ord \<Longrightarrow>
    fan_step f (put_pub i (Sending m (ord (mkeys (fn_socks f)))) (f\<lparr>fn_lock := Some i, fn_log := fn_log f @ [m]\<rparr>))"
| sends: "i < length (fn_pubs f) \<Longrightarrow> fn_pubs f ! i = Sending m (c # cs) \<Longrightarrow> mget (fn_socks f) c = Some s \<Longrightarrow>
    sock_write s m = Some s' \<Longrightarrow> fan_step f (put_pub i (Sending m cs) (put_sock c s' f))"
| unlock: "i < length (fn_pubs f) \<Longrightarrow> fn_pubs f ! i = Sending m [] \<Longrightarrow>
    fan_step f (put_pub i (Published m) (f\<lparr>fn_lock := None\<rparr>))"
| client_reads: "mget (fn_socks f) c = Some s \<Longrightarrow> so_reads s \<Longrightarrow> so_queue s = m # q \<Longrightarrow>
    fan_step f (put_sock c (s\<lparr>so_queue := q, so_read := so_read s @ [m]\<rparr>) f)"
| client_breaks: "mget (fn_socks f) c = Some s \<Longrightarrow> \<not> so_broken s \<Longrightarrow>
    fan_step f (put_sock c (s\<lparr>so_broken := True\<rparr>) f)"

inductive_cases fan_stepE: "fan_step f f'"

definition fan_final :: "fan \<Rightarrow> bool" where
  "fan_final f \<longleftrightarrow> (\<forall>f'. \<not> fan_step f f')"

text \<open>The start: clients connected with empty buffers that hold at least one message, publications waiting.\<close>

definition fan_start :: "(nat, socket) gomap \<Rightarrow> byte list list \<Rightarrow> fan" where
  "fan_start socks ms = \<lparr>fn_lock = None, fn_socks = socks, fn_pubs = map Waiting ms, fn_log = []\<rparr>"

definition fresh_socks :: "(nat, socket) gomap \<Rightarrow> bool" where
  "fresh_socks m \<longleftrightarrow> mok m \<and> (\<forall>c s. mget m c = Some s \<longrightarrow> so_queue s = [] \<and> so_read s = [] \<and> 0 < so_room s)"

lemma put_simps [simp]:
  "fn_socks (put_sock c s f) = mput c s (fn_socks f)" "fn_pubs (put_sock c s f) = fn_pubs f"
  "fn_lock (put_sock c s f) = fn_lock f" "fn_log (put_sock c s f) = fn_log f"
  "fn_socks (put_pub i p f) = fn_socks f" "fn_pubs (put_pub i p f) = (fn_pubs f)[i := p]"
  "fn_lock (put_pub i p f) = fn_lock f" "fn_log (put_pub i p f) = fn_log f"
  by (simp_all add: put_sock_def put_pub_def)

section \<open>The mutex\<close>

text \<open>The clients that a publication has still to write to.\<close>

fun remaining :: "publication \<Rightarrow> nat list" where
  "remaining (Sending m cs) = cs"
| "remaining _ = []"

fun is_sending :: "publication \<Rightarrow> bool" where
  "is_sending (Sending m cs) \<longleftrightarrow> True"
| "is_sending _ \<longleftrightarrow> False"

definition pub_fits :: "nat list \<Rightarrow> publication \<Rightarrow> bool" where
  "pub_fits ks p \<longleftrightarrow> set (remaining p) \<subseteq> set ks \<and> distinct (remaining p)"

definition locking :: "fan \<Rightarrow> bool" where
  "locking f \<longleftrightarrow> (\<forall>i < length (fn_pubs f). is_sending (fn_pubs f ! i) \<longleftrightarrow> fn_lock f = Some i)
     \<and> (\<forall>i. fn_lock f = Some i \<longrightarrow> i < length (fn_pubs f))
     \<and> list_all (pub_fits (mkeys (fn_socks f))) (fn_pubs f) \<and> mok (fn_socks f)"

lemma mkeys_put_old: "mget m c = Some s \<Longrightarrow> mkeys (mput c s' m) = mkeys m"
  by (induction m) (auto simp: mkeys_def mput_def mget_def split: if_splits)

lemma mok_keys: "mok m \<longleftrightarrow> distinct (mkeys m)"
  by (simp add: mok_def)

lemma locking_step:
  assumes "fan_step f f'" "locking f"
  shows "locking f' \<and> mkeys (fn_socks f') = mkeys (fn_socks f)"
  using assms(1)
proof cases
  case (lock i m ord)
  have "pub_fits (mkeys (fn_socks f)) (Sending m (ord (mkeys (fn_socks f))))"
    using lock(5) assms(2) by (auto simp: pub_fits_def locking_def mok_keys map_order_distinct)
  then show ?thesis
    using assms(2) lock by (auto simp: locking_def nth_list_update list_all_update)
next
  case (sends i m c cs s s')
  have "pub_fits (mkeys (fn_socks f)) (Sending m cs)"
    using assms(2) sends(2,3) list_all_nth [of "pub_fits (mkeys (fn_socks f))" "fn_pubs f" i] by (auto simp: locking_def pub_fits_def)
  then show ?thesis
    using assms(2) sends mkeys_put_old [OF sends(4)]
    by (auto simp: locking_def nth_list_update list_all_update mok_keys)
next
  case (unlock i m)
  have "pub_fits (mkeys (fn_socks f)) (Published m)" by (simp add: pub_fits_def)
  then show ?thesis
    using assms(2) unlock by (auto simp: locking_def nth_list_update list_all_update)
next
  case (client_reads c s m q)
  then show ?thesis using assms(2) mkeys_put_old [OF client_reads(2)] by (auto simp: locking_def mok_keys)
next
  case (client_breaks c s)
  then show ?thesis using assms(2) mkeys_put_old [OF client_breaks(2)] by (auto simp: locking_def mok_keys)
qed

lemma locking_start: "mok socks \<Longrightarrow> locking (fan_start socks ms)"
  by (auto simp: locking_def fan_start_def list_all_iff pub_fits_def)

section \<open>Termination\<close>

text \<open>
  What is left to do: a publication locks, writes to every client and unlocks; a message that was written
  can be read; a connection can fail once.
\<close>

fun pub_weight :: "nat \<Rightarrow> publication \<Rightarrow> nat" where
  "pub_weight n (Waiting m) = 2 * n + 2"
| "pub_weight n (Sending m cs) = 2 * length cs + 1"
| "pub_weight n (Published m) = 0"

definition sock_weight :: "socket \<Rightarrow> nat" where
  "sock_weight s = length (so_queue s) + (if so_broken s then 0 else 1)"

definition socks_weight :: "(nat, socket) gomap \<Rightarrow> nat" where
  "socks_weight m = sum_list (map (sock_weight \<circ> snd) m)"

definition fan_weight :: "fan \<Rightarrow> nat" where
  "fan_weight f = sum_list (map (pub_weight (length (fn_socks f))) (fn_pubs f)) + socks_weight (fn_socks f)"

lemma socks_weight_put:
  "mget m c = Some s \<Longrightarrow> socks_weight (mput c s' m) + sock_weight s = socks_weight m + sock_weight s'"
  by (induction m) (auto simp: socks_weight_def mput_def mget_def split: if_splits)

lemma length_put_old: "mget m c = Some s \<Longrightarrow> length (mput c s' m) = length m"
  using mkeys_put_old [of m c s s'] by (metis length_map mkeys_def)

lemma pubs_weight_put:
  fixes w :: "publication \<Rightarrow> nat"
  shows "i < length ps \<Longrightarrow> sum_list (map w (ps[i := p])) + w (ps ! i) = sum_list (map w ps) + w p"
proof (induction ps arbitrary: i)
  case (Cons q ps)
  then show ?case by (cases i) auto
qed simp

lemma fan_step_weight:
  assumes "fan_step f f'" "locking f"
  shows "fan_weight f' < fan_weight f"
  using assms(1)
proof cases
  case (lock i m ord)
  have "length (ord (mkeys (fn_socks f))) = length (fn_socks f)"
    using lock(5) assms(2) by (auto simp: locking_def mok_keys mkeys_def dest: map_order_length)
  then show ?thesis
    using pubs_weight_put [OF lock(2), of "pub_weight (length (fn_socks f))" "Sending m (ord (mkeys (fn_socks f)))"] lock
    by (simp add: fan_weight_def)
next
  case (sends i m c cs s s')
  have "sock_weight s' \<le> sock_weight s + 1"
    using sends(5) by (auto simp: sock_write_def sock_weight_def split: if_splits)
  then show ?thesis
    using pubs_weight_put [OF sends(2), of "pub_weight (length (fn_socks f))" "Sending m cs"]
      socks_weight_put [OF sends(4), of s'] length_put_old [OF sends(4), of s'] sends
    by (simp add: fan_weight_def)
next
  case (unlock i m)
  then show ?thesis
    using pubs_weight_put [OF unlock(2), of "pub_weight (length (fn_socks f))" "Published m"]
    by (simp add: fan_weight_def)
next
  case (client_reads c s m q)
  then show ?thesis
    using socks_weight_put [OF client_reads(2), of "s\<lparr>so_queue := q, so_read := so_read s @ [m]\<rparr>"]
      length_put_old [OF client_reads(2)]
    by (simp add: fan_weight_def sock_weight_def)
next
  case (client_breaks c s)
  then show ?thesis
    using socks_weight_put [OF client_breaks(2), of "s\<lparr>so_broken := True\<rparr>"] length_put_old [OF client_breaks(2)]
    by (simp add: fan_weight_def sock_weight_def)
qed

section \<open>Order\<close>

text \<open>
  What a client that has not failed has got so far: the history, without the message of the publication that
  still has to write to it.
\<close>

definition pending :: "fan \<Rightarrow> nat \<Rightarrow> byte list list" where
  "pending f c =
     (case fn_lock f of
        None \<Rightarrow> []
      | Some i \<Rightarrow> (case fn_pubs f ! i of Sending m cs \<Rightarrow> if c \<in> set cs then [m] else [] | _ \<Rightarrow> []))"

definition in_order :: "fan \<Rightarrow> bool" where
  "in_order f \<longleftrightarrow> (\<forall>c s. mget (fn_socks f) c = Some s \<longrightarrow> \<not> so_broken s \<longrightarrow>
     so_read s @ so_queue s @ pending f c = fn_log f)"

fun pub_message :: "publication \<Rightarrow> byte list" where
  "pub_message (Waiting m) = m"
| "pub_message (Sending m cs) = m"
| "pub_message (Published m) = m"

definition logged :: "fan \<Rightarrow> bool" where
  "logged f \<longleftrightarrow> mset (fn_log f) = mset (map pub_message (filter (\<lambda>p. \<forall>m. p \<noteq> Waiting m) (fn_pubs f)))"

lemma pending_put_sock [simp]: "pending (put_sock c s f) k = pending f k"
  by (cases "fn_lock f") (simp_all add: pending_def)

lemma in_order_step:
  assumes "fan_step f f'" "locking f" "in_order f"
  shows "in_order f'"
  using assms(1)
proof cases
  case (lock i m ord)
  have "pending f c = []" for c using lock(4) by (simp add: pending_def)
  moreover have "pending f' c = (if c \<in> set (mkeys (fn_socks f)) then [m] else [])" for c
    using lock(2,5) assms(2) by (simp add: lock(1) pending_def map_order_set)
  ultimately show ?thesis using assms(3) lock(1) by (auto simp: in_order_def mget_None_iff [symmetric])
next
  case (sends i m c cs s s')
  have i: "fn_lock f = Some i" using assms(2) sends(2,3) by (auto simp: locking_def)
  have d: "c \<notin> set cs" using assms(2) sends(2,3) list_all_nth [of "pub_fits (mkeys (fn_socks f))" "fn_pubs f" i]
    by (auto simp: locking_def pub_fits_def)
  have p: "pending f c' = (if c' \<in> set (c # cs) then [m] else [])" "pending f' c' = (if c' \<in> set cs then [m] else [])" for c'
    using sends(2,3) by (simp_all add: sends(1) pending_def i)
  have l: "fn_log f' = fn_log f" by (simp add: sends(1))
  show ?thesis
    unfolding in_order_def
  proof (intro allI impI)
    fix k t
    assume a: "mget (fn_socks f') k = Some t" "\<not> so_broken t"
    show "so_read t @ so_queue t @ pending f' k = fn_log f'"
    proof (cases "k = c")
      case True
      then have t: "t = s'" using a(1) by (simp add: sends(1))
      then have "\<not> so_broken s" "so_read s' = so_read s" "so_queue s' = so_queue s @ [m]"
        using sends(5) a(2) by (auto simp: sock_write_def split: if_splits)
      moreover have "so_read s @ so_queue s @ pending f c = fn_log f"
        using assms(3) sends(4) \<open>\<not> so_broken s\<close> by (simp add: in_order_def)
      ultimately show ?thesis using True d by (simp add: p t l)
    next
      case False
      then have "mget (fn_socks f) k = Some t" using a(1) by (simp add: sends(1))
      then have "so_read t @ so_queue t @ pending f k = fn_log f" using assms(3) a(2) by (simp add: in_order_def)
      then show ?thesis using False by (simp add: p l)
    qed
  qed
next
  case (unlock i m)
  have "fn_lock f = Some i" using assms(2) unlock(2,3) by (auto simp: locking_def)
  then have "pending f c = []" "pending f' c = []" for c using unlock by (simp_all add: pending_def)
  then show ?thesis using assms(3) unlock(1) by (simp add: in_order_def)
next
  case (client_reads c s m q)
  have "so_read s @ (m # q) @ pending f c = fn_log f" if "\<not> so_broken s"
    using assms(3) client_reads(2,4) that by (fastforce simp: in_order_def)
  then show ?thesis using assms(3) client_reads(1) by (auto simp: in_order_def)
next
  case (client_breaks c s)
  have "pending f' k = pending f k" for k by (simp add: client_breaks(1))
  then show ?thesis using assms(3) client_breaks by (auto simp: in_order_def)
qed

lemma logged_mset:
  "logged f \<longleftrightarrow> mset (fn_log f) = image_mset pub_message (filter_mset (\<lambda>p. \<forall>m. p \<noteq> Waiting m) (mset (fn_pubs f)))"
  by (simp add: logged_def flip: mset_filter)

lemma logged_step:
  assumes "fan_step f f'" "logged f"
  shows "logged f'"
proof -
  have put: "image_mset pub_message (filter_mset (\<lambda>p. \<forall>m. p \<noteq> Waiting m) (mset ((fn_pubs f)[i := p])))
      = mset (fn_log f) + (if \<exists>m. fn_pubs f ! i = Waiting m then {#pub_message p#} else {#})"
    if "i < length (fn_pubs f)" "\<forall>m. p \<noteq> Waiting m" "pub_message p = pub_message (fn_pubs f ! i)" for i p
    using arg_cong [OF filter_update [OF that(1), of "\<lambda>p. \<forall>m. p \<noteq> Waiting m" p], of "image_mset pub_message"] that(2,3) assms(2)
    unfolding logged_mset by (auto split: if_splits)
  show ?thesis
    using assms(1)
  proof cases
    case (lock i m ord)
    then show ?thesis using put [OF lock(2), of "Sending m (ord (mkeys (fn_socks f)))"] by (simp add: logged_mset)
  next
    case (sends i m c cs s s')
    then show ?thesis using put [OF sends(2), of "Sending m cs"] by (simp add: logged_mset)
  next
    case (unlock i m)
    then show ?thesis using put [OF unlock(2), of "Published m"] by (simp add: logged_mset)
  qed (use assms(2) in \<open>simp_all add: logged_def\<close>)
qed

lemma messages_step: "fan_step f f' \<Longrightarrow> map pub_message (fn_pubs f') = map pub_message (fn_pubs f)"
  by (induction rule: fan_step.induct) (auto simp: list_eq_iff_nth_eq nth_list_update)

text \<open>What a step leaves of a client's connection.\<close>

lemma sock_step:
  assumes "fan_step f f'" "mget (fn_socks f) c = Some s"
  shows "\<exists>s'. mget (fn_socks f') c = Some s' \<and> so_room s' = so_room s \<and> so_reads s' = so_reads s
    \<and> (so_broken s \<longrightarrow> so_broken s')"
  using assms by (induction rule: fan_step.induct) (auto simp: sock_write_def split: if_splits)

definition fan_inv :: "fan \<Rightarrow> fan \<Rightarrow> bool" where
  "fan_inv f0 f \<longleftrightarrow> locking f \<and> in_order f \<and> logged f
     \<and> map pub_message (fn_pubs f) = map pub_message (fn_pubs f0) \<and> mkeys (fn_socks f) = mkeys (fn_socks f0)
     \<and> (\<forall>c s. mget (fn_socks f0) c = Some s \<longrightarrow>
          (\<exists>s'. mget (fn_socks f) c = Some s' \<and> so_room s' = so_room s \<and> so_reads s' = so_reads s
             \<and> (so_broken s \<longrightarrow> so_broken s')))"

lemma fan_inv_step:
  assumes "fan_step f f'" "fan_inv f0 f"
  shows "fan_inv f0 f'"
proof -
  have "locking f" "in_order f" "logged f" using assms(2) by (simp_all add: fan_inv_def)
  moreover have "\<exists>s'. mget (fn_socks f') c = Some s' \<and> so_room s' = so_room s \<and> so_reads s' = so_reads s
      \<and> (so_broken s \<longrightarrow> so_broken s')" if h: "mget (fn_socks f0) c = Some s" for c s
  proof -
    obtain t where "mget (fn_socks f) c = Some t" "so_room t = so_room s" "so_reads t = so_reads s"
      "so_broken s \<longrightarrow> so_broken t"
      using assms(2) h unfolding fan_inv_def by blast
    then show ?thesis using sock_step [OF assms(1), of c t] by auto
  qed
  ultimately show ?thesis
    using assms(2) locking_step [OF assms(1)] in_order_step [OF assms(1)] logged_step [OF assms(1)] messages_step [OF assms(1)]
    by (simp add: fan_inv_def)
qed

lemma fan_inv_run: "fan_step\<^sup>*\<^sup>* f0 f \<Longrightarrow> fan_inv f0 f0 \<Longrightarrow> fan_inv f0 f"
  by (induction rule: rtranclp_induct) (auto intro: fan_inv_step)

lemma fan_inv_start: "fresh_socks socks \<Longrightarrow> fan_inv (fan_start socks ms) (fan_start socks ms)"
  using locking_start [of socks ms]
  by (auto simp: fan_inv_def fresh_socks_def in_order_def fan_start_def pending_def logged_def filter_map comp_def)

interpretation fan: terminating fan_step locking fan_weight
  by unfold_locales (simp_all add: locking_step fan_step_weight)

section \<open>When every client reads\<close>

lemma final_published:
  assumes "fan_final f" "locking f" "\<And>c s. mget (fn_socks f) c = Some s \<Longrightarrow> 0 < so_room s \<and> (so_reads s \<or> so_broken s)"
  shows "list_all (\<lambda>p. \<exists>m. p = Published m) (fn_pubs f) \<and>
    (\<forall>c s. mget (fn_socks f) c = Some s \<longrightarrow> so_reads s \<longrightarrow> so_queue s = []) \<and> (\<forall>c. pending f c = [])"
proof -
  have empty: "so_queue s = []" if "mget (fn_socks f) c = Some s" "so_reads s" for c s
    using client_reads [OF that] assms(1) by (cases "so_queue s") (auto simp: fan_final_def)
  have nosend: "\<not> is_sending (fn_pubs f ! i)" if i: "i < length (fn_pubs f)" for i
  proof
    assume "is_sending (fn_pubs f ! i)"
    then obtain m cs where p: "fn_pubs f ! i = Sending m cs" by (cases "fn_pubs f ! i") auto
    show False
    proof (cases cs)
      case Nil
      then show False using unlock [OF i] p assms(1) by (auto simp: fan_final_def)
    next
      case (Cons c cs')
      have "c \<in> set (mkeys (fn_socks f))"
        using assms(2) p Cons list_all_nth [OF _ i, of "pub_fits (mkeys (fn_socks f))"] by (auto simp: locking_def pub_fits_def)
      then obtain s where s: "mget (fn_socks f) c = Some s" using mget_None_iff by fastforce
      have "\<exists>s'. sock_write s m = Some s'"
        using assms(3) [OF s] empty [OF s] by (auto simp: sock_write_def)
      then show False using sends [OF i p [unfolded Cons] s] assms(1) by (auto simp: fan_final_def)
    qed
  qed
  then have lock: "fn_lock f = None" using assms(2) by (cases "fn_lock f") (auto simp: locking_def)
  have "\<exists>m. fn_pubs f ! i = Published m" if i: "i < length (fn_pubs f)" for i
  proof (cases "fn_pubs f ! i")
    case (Waiting m)
    then show ?thesis using fan_step.lock [OF i Waiting lock is_map_order_id] assms(1) by (auto simp: fan_final_def)
  qed (use nosend [OF i] in auto)
  then show ?thesis using empty lock by (auto simp: list_all_length pending_def)
qed

lemma fan_run_ends:
  assumes "fresh_socks socks" "\<forall>c s. mget socks c = Some s \<longrightarrow> so_reads s"
  shows "\<nexists>r. r 0 = fan_start socks ms \<and> (\<forall>i. fan_step (r i) (r (Suc i)))"
  using fan_inv_start [OF assms(1)] by (intro fan.no_infinite_run) (simp add: fan_inv_def)

lemma fan_run_result:
  assumes "fresh_socks socks" "\<forall>c s. mget socks c = Some s \<longrightarrow> so_reads s"
    and f: "fan_step\<^sup>*\<^sup>* (fan_start socks ms) f" "fan_final f"
  shows "list_all (\<lambda>p. \<exists>m. p = Published m) (fn_pubs f)" "mset (fn_log f) = mset ms"
    and "mget (fn_socks f) c = Some s \<Longrightarrow> \<not> so_broken s \<Longrightarrow> so_read s = fn_log f"
proof -
  let ?f0 = "fan_start socks ms"
  have inv0: "fan_inv ?f0 ?f0" by (rule fan_inv_start [OF assms(1)])
  have inv: "fan_inv ?f0 f" by (rule fan_inv_run [OF f(1) inv0])
  have good: "0 < so_room s \<and> so_reads s" if "mget (fn_socks f) c = Some s" for c s
  proof -
    have "c \<in> set (mkeys socks)" using inv that mget_None_iff [of "fn_socks f" c] by (auto simp: fan_inv_def fan_start_def)
    then obtain t where "mget socks c = Some t" using mget_None_iff by fastforce
    then show ?thesis using inv assms that by (fastforce simp: fan_inv_def fan_start_def fresh_socks_def)
  qed
  have p: "list_all (\<lambda>p. \<exists>m. p = Published m) (fn_pubs f)"
    "\<And>c s. mget (fn_socks f) c = Some s \<Longrightarrow> so_queue s = []" "\<And>c. pending f c = []"
    using final_published [OF f(2)] good inv by (auto simp: fan_inv_def)
  show "list_all (\<lambda>p. \<exists>m. p = Published m) (fn_pubs f)" by (rule p(1))
  have "filter (\<lambda>p. \<forall>m. p \<noteq> Waiting m) (fn_pubs f) = fn_pubs f"
    using p(1) by (auto simp: filter_id_conv list_all_iff)
  moreover have "map pub_message (fn_pubs f) = ms" using inv by (simp add: fan_inv_def fan_start_def comp_def)
  ultimately show "mset (fn_log f) = mset ms" using inv by (simp add: fan_inv_def logged_def)
  show "mget (fn_socks f) c = Some s \<Longrightarrow> \<not> so_broken s \<Longrightarrow> so_read s = fn_log f" using inv p(2,3) by (fastforce simp: fan_inv_def in_order_def)
qed

text \<open>The sequential model: the messages published one after the other on idle connections.\<close>

definition publish_all :: "hub \<Rightarrow> byte list list \<Rightarrow> hub" where
  "publish_all h ms = foldl (\<lambda>h m. fold (\<lambda>c. send c m) (mkeys (clients h)) h) h ms"

definition idle_hub :: "(nat, socket) gomap \<Rightarrow> hub" where
  "idle_hub socks = \<lparr>clients = map (\<lambda>(c, s). (c, \<lparr>nc_out = [], nc_left = None\<rparr>)) socks\<rparr>"

lemma publish_all_out:
  assumes "hub_ok h" "mget (clients h) c = Some conn" "nc_left conn = None"
  shows "mget (clients (publish_all h ms)) c = Some (conn\<lparr>nc_out := nc_out conn @ concat (map (\<lambda>m. server_frame (1, m)) ms)\<rparr>)"
  using assms
proof (induction ms arbitrary: h conn)
  case (Cons m ms)
  let ?h = "fold (\<lambda>c. send c m) (mkeys (clients h)) h"
  have "mget (clients ?h) c = Some (conn_send conn m)"
    using Cons.prems mget_sends [of "mkeys (clients h)" m h c] mget_None_iff [of "clients h" c] by (simp add: hub_ok_def mok_def)
  moreover have "hub_ok ?h" using Cons.prems(1) hub_ok_sends [of h m] by simp
  ultimately show ?case
    using Cons.IH [of ?h "conn_send conn m"] Cons.prems(3) by (simp add: publish_all_def conn_send_out)
qed (simp add: publish_all_def)

lemma mget_idle_hub: "mget (clients (idle_hub socks)) c = map_option (\<lambda>s. \<lparr>nc_out = [], nc_left = None\<rparr>) (mget socks c)"
  by (induction socks) (auto simp: idle_hub_def mget_def)

lemma hub_ok_idle: "mok socks \<Longrightarrow> hub_ok (idle_hub socks)"
  by (simp add: hub_ok_def idle_hub_def mok_def mkeys_def comp_def case_prod_unfold)

section \<open>When one client does not read\<close>

text \<open>Nobody gets past a full connection: who has not returned has still to write to it.\<close>

definition blocked :: "nat \<Rightarrow> publication list \<Rightarrow> fan \<Rightarrow> bool" where
  "blocked c ps f \<longleftrightarrow> length (fn_pubs f) = length ps
     \<and> (\<forall>i < length ps. (case fn_pubs f ! i of Published m \<Rightarrow> ps ! i = Published m | Waiting m \<Rightarrow> True | Sending m cs \<Rightarrow> c \<in> set cs))
     \<and> (\<exists>s. mget (fn_socks f) c = Some s \<and> \<not> so_reads s
          \<and> (so_broken s \<or> length (so_queue s) = so_room s))"

lemma blocked_step:
  assumes "fan_step f f'" "blocked c ps f" "locking f" "\<And>s. mget (fn_socks f') c = Some s \<Longrightarrow> \<not> so_broken s"
  shows "blocked c ps f'"
proof -
  obtain s where s: "mget (fn_socks f) c = Some s" "\<not> so_reads s" "so_broken s \<or> length (so_queue s) = so_room s"
    using assms(2) by (auto simp: blocked_def)
  have nb: "\<not> so_broken s" using sock_step [OF assms(1) s(1)] assms(4) by auto
  have c: "c \<in> set (mkeys (fn_socks f))" using s(1) mget_None_iff [of "fn_socks f" c] by simp
  show ?thesis
    using assms(1)
  proof cases
    case (lock i m ord)
    then show ?thesis using assms(2) c by (auto simp: blocked_def nth_list_update)
  next
    case (sends i m k cs t t')
    have "k \<noteq> c"
      using sends(4,5) s nb by (auto simp: sock_write_def)
    then have "c \<in> set cs" using assms(2) sends(2,3) by (fastforce simp: blocked_def split: publication.splits)
    then show ?thesis using assms(2) sends \<open>k \<noteq> c\<close> by (auto simp: blocked_def nth_list_update)
  next
    case (unlock i m)
    then show ?thesis using assms(2) by (fastforce simp: blocked_def split: publication.splits)
  next
    case (client_reads k t m q)
    then have "k \<noteq> c" using s by auto
    then show ?thesis using assms(2) client_reads by (auto simp: blocked_def)
  next
    case (client_breaks k t)
    then have "k \<noteq> c" using assms(4) by auto
    then show ?thesis using assms(2) client_breaks by (auto simp: blocked_def)
  qed
qed

lemma sock_run: "fan_step\<^sup>*\<^sup>* f f' \<Longrightarrow> mget (fn_socks f) c = Some s \<Longrightarrow> \<exists>s'. mget (fn_socks f') c = Some s'"
  by (induction rule: rtranclp_induct) (auto dest: sock_step)

text \<open>A connection that has failed stays so: while the last state has it working, all states had.\<close>

lemma blocked_run:
  assumes "fan_step\<^sup>*\<^sup>* f0 f" "blocked c ps f0" "locking f0" "mget (fn_socks f) c = Some s" "\<not> so_broken s"
  shows "blocked c ps f"
  using assms
proof (induction arbitrary: s rule: rtranclp_induct)
  case (step f1 f2)
  have l: "locking f1" using fan.okay_run [OF step(1)] assms(3) .
  obtain s0 where "mget (fn_socks f0) c = Some s0" using assms(2) by (auto simp: blocked_def)
  then obtain s1 where s1: "mget (fn_socks f1) c = Some s1"
    using sock_run [OF step(1)] by blast
  then have "\<not> so_broken s1" using sock_step [OF step(2) s1] step.prems by auto
  have b: "blocked c ps f1" by (rule step.IH [OF assms(2,3) s1 \<open>\<not> so_broken s1\<close>])
  show ?case by (rule blocked_step [OF step(2) b l]) (use step.prems in simp)
qed simp

section \<open>Properties\<close>

text \<open>
  C8: publishing is live and fair to all: clients that go on reading (or fail) let every publication return,
  in no matter which order; no run goes on forever, and when nothing more can happen every client that has
  not failed has read exactly the published messages, each once, in one order that is the same for all.
\<close>

theorem publications_come_to_an_end:
  assumes "fresh_socks socks" "\<forall>c s. mget socks c = Some s \<longrightarrow> so_reads s"
  shows "(\<nexists>r. r 0 = fan_start socks ms \<and> (\<forall>i. fan_step (r i) (r (Suc i))))
    \<and> (\<forall>f. fan_step\<^sup>*\<^sup>* (fan_start socks ms) f \<longrightarrow> fan_final f \<longrightarrow>
         list_all (\<lambda>p. \<exists>m. p = Published m) (fn_pubs f) \<and> mset (fn_log f) = mset ms
         \<and> (\<forall>c s. mget (fn_socks f) c = Some s \<longrightarrow> \<not> so_broken s \<longrightarrow> so_read s = fn_log f))"
  by (intro conjI allI impI fan_run_ends [OF assms] fan_run_result [OF assms])

definition ex_sock :: socket where
  "ex_sock = \<lparr>so_queue = [], so_room = 1, so_read = [], so_reads = True, so_broken = False\<rparr>"

lemma ex_socks:
  "fresh_socks [(0, ex_sock), (1, ex_sock)]" "\<forall>c s. mget [(0, ex_sock), (1, ex_sock)] c = Some s \<longrightarrow> so_reads s"
  by (auto simp: fresh_socks_def ex_sock_def mok_def mkeys_def mget_def split: if_splits)

theorem publications_come_to_an_end_witness:
  "\<nexists>r. r 0 = fan_start [(0, ex_sock), (1, ex_sock)] [[1], [2]] \<and> (\<forall>i. fan_step (r i) (r (Suc i)))"
proof -
  from publications_come_to_an_end [OF ex_socks, of "[[1], [2]]"] show ?thesis by blast
qed

text \<open>
  C26: publishing may be taken as one step, as \<open>Hub\<close> does: what a client has read when everything is done is
  what it gets when the same messages are published one after the other, in some order.
\<close>

theorem publications_are_serial:
  assumes "fresh_socks socks" "\<forall>c s. mget socks c = Some s \<longrightarrow> so_reads s"
    and "fan_step\<^sup>*\<^sup>* (fan_start socks ms) f" "fan_final f"
  shows "\<exists>ms'. mset ms' = mset ms \<and> (\<forall>c s. mget (fn_socks f) c = Some s \<longrightarrow> \<not> so_broken s \<longrightarrow>
    mget (clients (publish_all (idle_hub socks) ms')) c
      = Some \<lparr>nc_out = concat (map (\<lambda>m. server_frame (1, m)) (so_read s)), nc_left = None\<rparr>)"
proof (intro exI conjI allI impI)
  show "mset (fn_log f) = mset ms" by (rule fan_run_result(2) [OF assms])
  fix c s
  assume s: "mget (fn_socks f) c = Some s" "\<not> so_broken s"
  have "mkeys (fn_socks f) = mkeys socks"
    using fan_inv_run [OF assms(3) fan_inv_start [OF assms(1)]] by (simp add: fan_inv_def fan_start_def)
  then obtain t where "mget socks c = Some t"
    using s(1) mget_None_iff [of socks c] mget_None_iff [of "fn_socks f" c] by auto
  then show "mget (clients (publish_all (idle_hub socks) (fn_log f))) c
      = Some \<lparr>nc_out = concat (map (\<lambda>m. server_frame (1, m)) (so_read s)), nc_left = None\<rparr>"
    using publish_all_out [of "idle_hub socks" c "\<lparr>nc_out = [], nc_left = None\<rparr>" "fn_log f"]
      fan_run_result(3) [OF assms s] assms(1)
    by (simp add: mget_idle_hub hub_ok_idle fresh_socks_def)
qed

theorem publications_are_serial_witness:
  "\<exists>f ms'. fan_step\<^sup>*\<^sup>* (fan_start [(0, ex_sock), (1, ex_sock)] [[1], [2]]) f \<and> fan_final f \<and> mset ms' = {#[1 :: byte], [2]#}"
proof -
  have "locking (fan_start [(0, ex_sock), (1, ex_sock)] [[1], [2]])"
    using ex_socks(1) locking_start by (simp add: fresh_socks_def)
  then obtain f where f: "fan_step\<^sup>*\<^sup>* (fan_start [(0, ex_sock), (1, ex_sock)] [[1], [2]]) f" "fan_final f"
    using fan.reaches_final by (auto simp: fan_final_def)
  from publications_are_serial [OF ex_socks f] f show ?thesis by auto
qed

text \<open>
  C9: one client that stops reading stops everything: once the buffers of its connection are full, no
  publication that was waiting returns as long as the connection stands, for no client. Writing has no
  deadline, and the publishing goroutine is the engine's callback, which waits as well.
\<close>

theorem stalled_client_blocks_everyone:
  assumes "locking f0" "mget (fn_socks f0) c = Some s0" "\<not> so_reads s0" "length (so_queue s0) = so_room s0"
    and "fn_lock f0 = None" "fan_step\<^sup>*\<^sup>* f0 f" "mget (fn_socks f) c = Some s" "\<not> so_broken s"
    and "i < length (fn_pubs f0)" "fn_pubs f0 ! i = Waiting m"
  shows "fn_pubs f ! i \<noteq> Published m'"
proof -
  have "blocked c (fn_pubs f0) f0"
    using assms(1-5) by (auto simp: blocked_def locking_def split: publication.splits)
  from blocked_run [OF assms(6) this assms(1,7,8)] show ?thesis
    using assms(9,10) by (auto simp: blocked_def)
qed

definition ex_stalled :: fan where
  "ex_stalled = fan_start [(0, ex_sock\<lparr>so_queue := [[9]], so_reads := False\<rparr>), (1, ex_sock)] [[1]]"

theorem stalled_client_blocks_everyone_witness:
  "\<exists>f. fan_step\<^sup>*\<^sup>* ex_stalled f \<and> f \<noteq> ex_stalled \<and> (\<forall>m. fn_pubs f ! 0 \<noteq> Published m)"
proof -
  let ?s = "ex_sock\<lparr>so_queue := [[9]], so_reads := False\<rparr>"
  define f where "f = put_pub 0 (Sending [1] [0, 1]) (ex_stalled\<lparr>fn_lock := Some 0, fn_log := [[1]]\<rparr>)"
  have "fan_step ex_stalled (put_pub 0 (Sending [1] ((\<lambda>ks. ks) (mkeys (fn_socks ex_stalled))))
      (ex_stalled\<lparr>fn_lock := Some 0, fn_log := fn_log ex_stalled @ [[1]]\<rparr>))"
    by (rule fan_step.lock [OF _ _ _ is_map_order_id]) (simp_all add: ex_stalled_def fan_start_def)
  then have st: "fan_step ex_stalled f" by (simp add: f_def ex_stalled_def fan_start_def mkeys_def)
  have l: "locking ex_stalled" unfolding ex_stalled_def by (rule locking_start) (simp add: mok_def mkeys_def)
  have s: "mget (fn_socks ex_stalled) 0 = Some ?s" "mget (fn_socks f) 0 = Some ?s"
    by (simp_all add: f_def ex_stalled_def fan_start_def mget_def)
  have "fn_pubs f ! 0 \<noteq> Published m" for m
    by (rule stalled_client_blocks_everyone [OF l s(1) _ _ _ r_into_rtranclp [of fan_step, OF st] s(2)])
      (simp_all add: ex_sock_def ex_stalled_def fan_start_def)
  moreover have "fn_lock f \<noteq> fn_lock ex_stalled" by (simp add: f_def ex_stalled_def fan_start_def)
  ultimately show ?thesis using st by blast
qed

end
