(* ===== verification/Feed.thy ===== *)
theory Feed
  imports Hub
begin

text \<open>
  The live feed of a new client, from the engine to the page: \<open>OnFlow\<close> (app.go) records a flow and publishes
  it in two steps, \<open>handleWS\<close> (ws.go) registers the client, lists the hosts, collects the flows of one host
  after the other and sends them as one snapshot, and the page (ui/index.html) shows what it is sent. Every
  step takes a mutex of its own, so they interleave. \<open>Hub\<close> takes the collection as one step; here it is
  shown what a client is sent in every interleaving and what the page makes of it.
\<close>

section \<open>States\<close>

text \<open>
  The handler of the client that is followed: not connected yet; registered with the hub; collecting, with
  the hosts done, the hosts to do and the views so far; reading, with the hosts and views of its snapshot.
\<close>

datatype watcher =
    Away
  | Joined
  | Gathering "string list" "string list" "flow_view list"
  | Watching "string list" "flow_view list"

text \<open>
  \<open>fe_due\<close>: the flows that are recorded and not yet published. Two fields are history: the flows recorded
  since the client is registered, and the texts that were sent to it.
\<close>

record feed =
  fe_reg :: registry
  fe_hub :: hub
  fe_due :: "flow list"
  fe_watch :: watcher
  fe_since :: "flow list"
  fe_sent :: "string list"

definition feed_start :: "registry \<Rightarrow> hub \<Rightarrow> feed" where
  "feed_start reg h = \<lparr>fe_reg = reg, fe_hub = h, fe_due = [], fe_watch = Away, fe_since = [], fe_sent = []\<rparr>"

text \<open>The text of a snapshot; it is empty when a view has no JSON, as the error is dropped.\<close>

definition snapshot_text :: "flow_view list \<Rightarrow> string" where
  "snapshot_text vs =
     (case list_json flow_view_json vs of
        None \<Rightarrow> []
      | Some js \<Rightarrow> marshal (map_json [(''type'', JStr ''snapshot''), (''flows'', nil_slice js)]))"

lemma snapshot_message_text: "snapshot_message ord reg = snapshot_text (all_flow_views ord reg)"
  by (simp add: snapshot_message_def snapshot_text_def)

section \<open>Steps\<close>

text \<open>
  The client is number \<open>c\<close>, its request \<open>r\<close> and its connection \<open>conn\<close>. The first two steps are the halves
  of \<open>OnFlow\<close>; the others come from the rest of the program: the registry changes, other clients come and go.
\<close>

inductive feed_step :: "nat \<Rightarrow> request \<Rightarrow> net_conn \<Rightarrow> feed \<Rightarrow> feed \<Rightarrow> bool" for c r conn where
  records: "feed_step c r conn s (s\<lparr>fe_reg := AddFlow (fe_reg s) f, fe_due := fe_due s @ [f],
      fe_since := (if fe_watch s = Away then [] else fe_since s @ [f])\<rparr>)"
| publishes: "f \<in> set (fe_due s) \<Longrightarrow> is_map_order ord \<Longrightarrow> Publish ord (Some (fe_hub s)) f = Some h \<Longrightarrow>
    feed_step c r conn s (s\<lparr>fe_hub := h, fe_due := remove1 f (fe_due s),
      fe_sent := fe_sent s @ (if fe_watch s = Away then [] else case flow_message f of None \<Rightarrow> [] | Some b \<Rightarrow> [b])\<rparr>)"
| changes: "\<forall>f. op \<noteq> OpAddFlow f \<Longrightarrow> feed_step c r conn s (s\<lparr>fe_reg := reg_step (fe_reg s) op\<rparr>)"
| other_joins: "k \<noteq> c \<Longrightarrow> feed_step c r conn s (s\<lparr>fe_hub := fst (ws_upgrade r' hj k (fe_hub s))\<rparr>)"
| other_is_sent: "k \<noteq> c \<Longrightarrow> feed_step c r conn s (s\<lparr>fe_hub := send k p (fe_hub s)\<rparr>)"
| other_leaves: "k \<noteq> c \<Longrightarrow> feed_step c r conn s (s\<lparr>fe_hub := ws_end k bs (fe_hub s)\<rparr>)"
| joins: "fe_watch s = Away \<Longrightarrow> ws_upgrade r (Some (Some conn)) c (fe_hub s) = (h, WsOpen) \<Longrightarrow>
    feed_step c r conn s (s\<lparr>fe_hub := h, fe_watch := Joined\<rparr>)"
| lists: "fe_watch s = Joined \<Longrightarrow> is_map_order ord \<Longrightarrow>
    feed_step c r conn s (s\<lparr>fe_watch := Gathering [] (map di_Host (Domains ord (fe_reg s))) []\<rparr>)"
| takes: "fe_watch s = Gathering ds (d # hs) vs \<Longrightarrow>
    feed_step c r conn s (s\<lparr>fe_watch := Gathering (ds @ [d]) hs (vs @ flowViews (Flows (fe_reg s) d))\<rparr>)"
| sends: "fe_watch s = Gathering ds [] vs \<Longrightarrow>
    feed_step c r conn s (s\<lparr>fe_hub := send c (bytes_of (snapshot_text vs)) (fe_hub s), fe_watch := Watching ds vs,
      fe_sent := fe_sent s @ [snapshot_text vs]\<rparr>)"

inductive_cases feed_stepE: "feed_step c r conn s s'"

section \<open>What is on the wire\<close>

text \<open>
  On a connection that works the client finds the answer to its handshake and then one frame for every text
  of the history.
\<close>

definition feed_bytes :: "request \<Rightarrow> net_conn \<Rightarrow> string list \<Rightarrow> byte list" where
  "feed_bytes r conn ts =
     nc_out conn @ bytes_of (handshake r) @ concat (map (\<lambda>t. server_frame (1, bytes_of t)) ts)"

definition on_wire :: "nat \<Rightarrow> request \<Rightarrow> net_conn \<Rightarrow> feed \<Rightarrow> bool" where
  "on_wire c r conn s \<longleftrightarrow> hub_ok (fe_hub s) \<and>
     (if fe_watch s = Away then fe_sent s = []
      else mget (clients (fe_hub s)) c = Some \<lparr>nc_out = feed_bytes r conn (fe_sent s), nc_left = None\<rparr>)"

lemma conn_send_feed:
  "conn_send \<lparr>nc_out = feed_bytes r conn ts, nc_left = None\<rparr> (bytes_of t)
     = \<lparr>nc_out = feed_bytes r conn (ts @ [t]), nc_left = None\<rparr>"
  by (simp add: conn_send_out feed_bytes_def)

lemma mget_others:
  "k \<noteq> c \<Longrightarrow> mget (clients (fst (ws_upgrade r hj k h))) c = mget (clients h) c"
  "k \<noteq> c \<Longrightarrow> mget (clients (send k p h)) c = mget (clients h) c"
  "k \<noteq> c \<Longrightarrow> mget (clients (ws_end k bs h)) c = mget (clients h) c"
  by (auto simp: ws_upgrade_def hub_add_def mget_send ws_end_def hub_remove_def split: option.splits prod.splits)

lemma ws_upgrade_open:
  "ws_upgrade r (Some (Some conn)) c h = (h', WsOpen) \<longleftrightarrow>
     is_upgrade r \<and> h' = hub_add c (fst (Write conn (bytes_of (handshake r)))) h"
  by (auto simp: ws_upgrade_def)

lemma publish_feed:
  assumes "hub_ok h" "is_map_order ord" "Publish ord (Some h) f = Some h'"
    and "mget (clients h) c = Some \<lparr>nc_out = feed_bytes r conn ts, nc_left = None\<rparr>"
  shows "mget (clients h') c = Some \<lparr>nc_out = feed_bytes r conn
    (ts @ (case flow_message f of None \<Rightarrow> [] | Some b \<Rightarrow> [b])), nc_left = None\<rparr>"
proof (cases "flow_message f")
  case None
  then show ?thesis using assms(3,4) by (simp add: Publish_def)
next
  case (Some b)
  then show ?thesis using mget_Publish [OF assms(1,2) Some assms(3), of c] assms(4) by (simp add: conn_send_feed)
qed

lemma on_wire_step:
  assumes "feed_step c r conn s s'" "on_wire c r conn s" "nc_left conn = None"
  shows "on_wire c r conn s'"
  using assms(1)
proof cases
  case (publishes f ord h)
  have "hub_ok h" using hub_ok_Publish publishes(4) assms(2) by (auto simp: on_wire_def)
  moreover have "mget (clients h) c = Some \<lparr>nc_out = feed_bytes r conn (fe_sent s'), nc_left = None\<rparr>"
    if "fe_watch s \<noteq> Away"
    using publish_feed [OF _ publishes(3,4), of c r conn "fe_sent s"] assms(2) that
    by (simp add: on_wire_def publishes(1))
  ultimately show ?thesis using assms(2) by (auto simp: on_wire_def publishes(1))
next
  case (joins h)
  then show ?thesis
    using assms(2,3) by (simp add: on_wire_def ws_upgrade_open hub_ok_ops) (simp add: hub_add_def Write_def feed_bytes_def)
next
  case (sends ds vs)
  then show ?thesis
    using assms(2) by (simp add: on_wire_def hub_ok_send mget_send conn_send_feed)
qed (use assms(2) in \<open>auto simp: on_wire_def mget_others hub_ok_ops hub_ok_send\<close>)

section \<open>What the client has been told\<close>

definition told_live :: "feed \<Rightarrow> flow \<Rightarrow> bool" where
  "told_live s f \<longleftrightarrow> (\<forall>b. flow_message f = Some b \<longrightarrow> b \<in> set (fe_sent s))"

text \<open>The views that the flows of the hosts \<open>ds\<close> have to be among, unless they are younger than the client.\<close>

definition told_views :: "feed \<Rightarrow> string list \<Rightarrow> flow_view list \<Rightarrow> bool" where
  "told_views s ds vs \<longleftrightarrow>
     (\<forall>d \<in> set ds. \<forall>f \<in> set (Flows (fe_reg s) d). f \<in> set (fe_since s) \<or> flowView f \<in> set vs)"

definition told :: "feed \<Rightarrow> bool" where
  "told s \<longleftrightarrow> (\<forall>f \<in> set (fe_since s). f \<in> set (fe_due s) \<or> told_live s f)
     \<and> (case fe_watch s of
          Away \<Rightarrow> fe_since s = []
        | Joined \<Rightarrow> True
        | Gathering ds hs vs \<Rightarrow> told_views s ds vs
        | Watching ds vs \<Rightarrow> told_views s ds vs \<and> snapshot_text vs \<in> set (fe_sent s))"

lemma told_views_mono:
  assumes "told_views s ds vs" "\<And>d. set (Flows (fe_reg s') d) \<subseteq> set (Flows (fe_reg s) d) \<union> set (fe_since s')"
    and "set (fe_since s) \<subseteq> set (fe_since s')"
  shows "told_views s' ds vs"
  using assms unfolding told_views_def by blast

lemma Flows_reg_step: "\<forall>f. op \<noteq> OpAddFlow f \<Longrightarrow> set (Flows (reg_step r op) d) \<subseteq> set (Flows r d)"
  by (cases op) (auto simp: reg_simps split: if_splits)

lemma Flows_add: "set (Flows (AddFlow r f) d) \<subseteq> insert f (set (Flows r d))"
  using set_lastn [of "ringN r" "Flows r d @ [f]"] by (auto simp: reg_simps)

lemma told_step:
  assumes "feed_step c r conn s s'" "told s"
  shows "told s'"
  using assms(1)
proof cases
  case (records f)
  have "told_views s' ds vs" if "told_views s ds vs" "fe_watch s \<noteq> Away" for ds vs
    by (rule told_views_mono [OF that(1)]) (use that(2) Flows_add records in auto)
  then show ?thesis using assms(2) by (auto simp: told_def told_live_def records split: watcher.splits)
next
  case (publishes f ord h)
  have v: "told_views s' ds vs = told_views s ds vs" for ds vs by (simp add: told_views_def publishes(1))
  have "g \<in> set (fe_due s') \<or> told_live s' g" if "g \<in> set (fe_since s)" for g
  proof (cases "g = f")
    case True
    then have "fe_watch s \<noteq> Away" using assms(2) that by (auto simp: told_def)
    then show ?thesis using True by (auto simp: told_live_def publishes(1))
  next
    case False
    then show ?thesis using assms(2) that by (auto simp: told_def told_live_def publishes(1))
  qed
  then show ?thesis using assms(2) v by (auto simp: told_def publishes(1) split: watcher.splits)
next
  case (changes op)
  have "told_views s' ds vs" if "told_views s ds vs" for ds vs
    by (rule told_views_mono [OF that]) (use Flows_reg_step [OF changes(2)] changes(1) in auto)
  then show ?thesis using assms(2) by (auto simp: told_def told_live_def changes(1) split: watcher.splits)
next
  case (takes ds d hs vs)
  then show ?thesis
    using assms(2) by (auto simp: told_def told_live_def told_views_def flowViews_def)
next
  case (sends ds vs)
  then show ?thesis using assms(2) by (auto simp: told_def told_live_def told_views_def)
qed (use assms(2) in \<open>auto simp: told_def told_live_def told_views_def split: watcher.splits\<close>)

lemma feed_run:
  assumes "(feed_step c r conn)\<^sup>*\<^sup>* (feed_start reg h) s" "hub_ok h" "nc_left conn = None"
  shows "on_wire c r conn s" "told s"
proof -
  have "on_wire c r conn s \<and> told s"
    using assms(1)
  proof (induction rule: rtranclp_induct)
    case base
    then show ?case using assms(2) by (simp add: on_wire_def told_def feed_start_def)
  next
    case (step s1 s2)
    then show ?case using on_wire_step told_step assms(3) by blast
  qed
  then show "on_wire c r conn s" "told s" by auto
qed

section \<open>The handler alone\<close>

text \<open>Without other steps in between, the handler's steps are the one step that \<open>Hub\<close> takes them as.\<close>

lemma takes_all:
  "fe_watch s = Gathering ds hs vs \<Longrightarrow>
   (feed_step c r conn)\<^sup>*\<^sup>* s
     (s\<lparr>fe_watch := Gathering (ds @ hs) [] (vs @ concat (map (\<lambda>d. flowViews (Flows (fe_reg s) d)) hs))\<rparr>)"
proof (induction hs arbitrary: s ds vs)
  case (Cons d hs)
  let ?s = "s\<lparr>fe_watch := Gathering (ds @ [d]) hs (vs @ flowViews (Flows (fe_reg s) d))\<rparr>"
  have "feed_step c r conn s ?s" by (rule feed_step.takes [OF Cons.prems])
  then show ?case
    using Cons.IH [of ?s "ds @ [d]" "vs @ flowViews (Flows (fe_reg s) d)"]
    by (simp add: converse_rtranclp_into_rtranclp)
next
  case Nil
  then have "s\<lparr>fe_watch := Gathering ds [] vs\<rparr> = s" by (cases s) simp
  then show ?case by simp
qed

lemma alone_is_ws_snapshot:
  assumes "fe_watch s = Joined" "is_map_order ord"
  shows "(feed_step c r conn)\<^sup>*\<^sup>* s
    (s\<lparr>fe_hub := ws_snapshot ord (fe_reg s) c (fe_hub s),
       fe_watch := Watching (map di_Host (Domains ord (fe_reg s))) (all_flow_views ord (fe_reg s)),
       fe_sent := fe_sent s @ [snapshot_message ord (fe_reg s)]\<rparr>)"
proof -
  let ?hs = "map di_Host (Domains ord (fe_reg s))"
  let ?s1 = "s\<lparr>fe_watch := Gathering [] ?hs []\<rparr>"
  let ?s2 = "s\<lparr>fe_watch := Gathering ?hs [] (all_flow_views ord (fe_reg s))\<rparr>"
  have "feed_step c r conn s ?s1" by (rule feed_step.lists [OF assms])
  moreover have "(feed_step c r conn)\<^sup>*\<^sup>* ?s1 ?s2"
    using takes_all [of ?s1 "[]" ?hs "[]" c r conn] by (simp add: all_flow_views_def o_def)
  moreover have "feed_step c r conn ?s2 (?s2\<lparr>fe_hub := send c (bytes_of (snapshot_text (all_flow_views ord (fe_reg s)))) (fe_hub ?s2),
      fe_watch := Watching ?hs (all_flow_views ord (fe_reg s)),
      fe_sent := fe_sent ?s2 @ [snapshot_text (all_flow_views ord (fe_reg s))]\<rparr>)"
    by (rule feed_step.sends) simp
  ultimately show ?thesis
    by (simp add: ws_snapshot_def snapshot_message_text)
qed

section \<open>The page\<close>

text \<open>
  The page keeps the flows as parsed JSON, and whether it has seen a snapshot. JavaScript's \<open>msg.k\<close> on a
  value that \<open>JSON.parse\<close> gives: the last member of that name, undefined for a value that is no object. On
  \<open>null\<close> it throws, as \<open>JSON.parse\<close> does on a text that is no JSON, and the page stays as it is.
\<close>

record viewer =
  vw_flows :: "json list"
  vw_saw :: bool

definition viewer_start :: viewer where
  "viewer_start = \<lparr>vw_flows = [], vw_saw = False\<rparr>"

fun jget :: "json \<Rightarrow> string \<Rightarrow> json option" where
  "jget (JObj ms) k = map_of (rev ms) k"
| "jget _ k = None"

text \<open>A number is falsy when all digits before its exponent are 0.\<close>

fun truthy :: "json \<Rightarrow> bool" where
  "truthy JNull = False"
| "truthy (JBool b) = b"
| "truthy (JNum t) = (\<not> list_all (\<lambda>c. c \<in> set ''-+.0'') (takeWhile (\<lambda>c. c \<notin> set ''eE'') t))"
| "truthy (JStr t) = (t \<noteq> [])"
| "truthy _ = True"

text \<open>\<open>ws.onmessage\<close>, less the drawing.\<close>

definition onmessage :: "viewer \<Rightarrow> string \<Rightarrow> viewer" where
  "onmessage v t =
     (case parse_all t of
        None \<Rightarrow> v
      | Some msg \<Rightarrow>
          (case (jget msg ''type'', jget msg ''flows'', jget msg ''flow'') of
             (Some (JStr ty), fs, f) \<Rightarrow>
               (case (ty = ''snapshot'', fs) of
                  (True, Some (JArr js)) \<Rightarrow> v\<lparr>vw_flows := js, vw_saw := True\<rparr>
                | _ \<Rightarrow>
                    (case f of
                       Some j \<Rightarrow>
                         (if ty = ''flow'' \<and> truthy j \<and> vw_saw v then
                            let js = vw_flows v @ [j]
                            in v\<lparr>vw_flows := (if 500 < length js then lastn 400 js else js)\<rparr>
                          else v)
                     | None \<Rightarrow> v))
           | _ \<Rightarrow> v))"

definition shown :: "string list \<Rightarrow> viewer" where
  "shown ts = foldl onmessage viewer_start ts"

section \<open>What the page makes of the feed\<close>

lemma snapshot_parse:
  assumes "list_json flow_view_json vs = Some js"
  shows "parse_all (snapshot_text vs) = Some (JObj [(''flows'', clean (nil_slice js)), (''type'', JStr ''snapshot'')])"
proof -
  define v where "v = map_json [(''type'', JStr ''snapshot''), (''flows'', nil_slice js)]"
  have "sort_key fst [(''type'', JStr ''snapshot''), (''flows'', nil_slice js)]
      = [(''flows'', nil_slice js), (''type'', JStr ''snapshot'')]"
    by (simp add: less_eq_char_def)
  then have v: "v = JObj [(''flows'', nil_slice js), (''type'', JStr ''snapshot'')]" by (simp add: v_def obj_of_def)
  have js: "nums_ok j" "depth j \<le> 1" if "j \<in> set js" for j
  proof -
    have "map flow_view_json vs = map Some js" using assms by (simp add: list_json_Some)
    then have "Some j \<in> set (map flow_view_json vs)" using that by simp
    then show "nums_ok j" "depth j \<le> 1" using flow_view_flat by (auto simp: image_iff eq_commute)
  qed
  have n: "nums_ok (nil_slice js)" using js(1) by (simp add: nil_slice_def list_all_iff)
  have "0 + depth (JArr js) \<le> 2" unfolding depth_JArr using js(2) by force
  then have d: "depth (nil_slice js) \<le> 2" by (simp add: nil_slice_def del: depth.simps(1)) 
  have "depth v \<le> max_depth"
    using depth_JObj [of 0 "[(''flows'', nil_slice js), (''type'', JStr ''snapshot'')]" max_depth] d
    by (simp add: v max_depth_def)
  then have "parse_all (marshal v) = Some (clean v)"
    using n parse_pr [of v "[]" False 0] by (simp add: v parse_all_def marshal_def skip_ws_def)
  moreover have "clean v = JObj [(''flows'', clean (nil_slice js)), (''type'', JStr ''snapshot'')]"
    by (simp add: v sanitize_ascii)
  ultimately show ?thesis using assms by (simp add: snapshot_text_def v_def)
qed

lemma onmessage_snapshot:
  assumes "list_json flow_view_json vs = Some js"
  shows "onmessage v (snapshot_text vs) = (if vs = [] then v else v\<lparr>vw_flows := map clean js, vw_saw := True\<rparr>)"
proof -
  have "js = [] \<longleftrightarrow> vs = []" using assms by (auto simp: list_json_Some)
  then show ?thesis by (auto simp: onmessage_def snapshot_parse [OF assms] nil_slice_def)
qed

lemma onmessage_flow:
  assumes "flow_message f = Some b"
  shows "\<exists>j. flow_view_json (flowView f) = Some j \<and> onmessage v b =
    (if vw_saw v then v\<lparr>vw_flows := (if 500 < Suc (length (vw_flows v)) then lastn 400 (vw_flows v @ [clean j])
       else vw_flows v @ [clean j])\<rparr> else v)"
proof -
  obtain j ms where j: "flow_view_json (flowView f) = Some j" "j = JObj ms"
    "parse_all b = Some (JObj [(''flow'', clean j), (''type'', JStr ''flow'')])"
    using flow_message_parse [OF assms] by blast
  have "truthy (clean j)" by (simp add: j(2))
  then show ?thesis using j(1,3) by (auto simp: onmessage_def)
qed

lemma deaf_to_flows:
  "\<forall>t \<in> set ts. \<exists>f. flow_message f = Some t \<Longrightarrow> \<not> vw_saw v \<Longrightarrow> foldl onmessage v ts = v"
proof (induction ts arbitrary: v)
  case (Cons t ts)
  obtain f where "flow_message f = Some t" using Cons.prems(1) by auto
  then have "onmessage v t = v" using onmessage_flow [of f t v] Cons.prems(2) by auto
  then show ?case using Cons by simp
qed simp

section \<open>The gap\<close>

text \<open>A run in which a flow is recorded and published after its host was collected and before the snapshot is sent.\<close>

definition gap_reg :: "flow \<Rightarrow> registry" where
  "gap_reg g = AddFlow (Observe NewRegistry (flow_Host g)) g"

definition gap_end :: "request \<Rightarrow> net_conn \<Rightarrow> flow \<Rightarrow> flow \<Rightarrow> string \<Rightarrow> feed" where
  "gap_end r conn g f b =
     \<lparr>fe_reg = AddFlow (gap_reg g) f,
      fe_hub = \<lparr>clients = [(0, \<lparr>nc_out = feed_bytes r conn [b, snapshot_text [flowView g]], nc_left = None\<rparr>)]\<rparr>,
      fe_due = [], fe_watch = Watching [flow_Host g] [flowView g], fe_since = [f],
      fe_sent = [b, snapshot_text [flowView g]]\<rparr>"

lemma gap_run:
  assumes "flow_message f = Some b" "is_upgrade r" "nc_left conn = None" "flow_Host g \<noteq> []"
  shows "(feed_step 0 r conn)\<^sup>*\<^sup>* (feed_start (gap_reg g) NewHub) (gap_end r conn g f b)"
proof -
  define d where "d = flow_Host g"
  define reg where "reg = gap_reg g"
  define h where "h = (\<lambda>ts. \<lparr>clients = [(0, \<lparr>nc_out = feed_bytes r conn ts, nc_left = None\<rparr>)]\<rparr>)"
  let ?t = "snapshot_text [flowView g]"
  let ?s0 = "feed_start reg NewHub"
  let ?s1 = "?s0\<lparr>fe_hub := h [], fe_watch := Joined\<rparr>"
  let ?s2 = "?s1\<lparr>fe_watch := Gathering [] [d] []\<rparr>"
  let ?s3 = "?s2\<lparr>fe_watch := Gathering [d] [] [flowView g]\<rparr>"
  let ?s4 = "?s3\<lparr>fe_reg := AddFlow reg f, fe_due := [f], fe_since := [f]\<rparr>"
  let ?s5 = "?s4\<lparr>fe_hub := h [b], fe_due := [], fe_sent := [b]\<rparr>"
  let ?s6 = "?s5\<lparr>fe_hub := h [b, ?t], fe_watch := Watching [d] [flowView g], fe_sent := [b, ?t]\<rparr>"
  have st: "states reg = [(d, StateObserved)]" and fl: "Flows reg d = [g]"
    using assms(4) by (simp_all add: reg_def d_def gap_reg_def reg_simps lastn_def)
      (simp_all add: Observe_def NewRegistry_def mput_def)
  have snd: "send 0 (bytes_of t) (h ts) = h (ts @ [t])" for t ts
    by (simp add: send_def h_def mget_def mput_def conn_send_feed)
  have s1: "feed_step 0 r conn ?s0 ?s1"
    by (rule feed_step.joins)
      (use assms(2,3) in \<open>simp_all add: ws_upgrade_open hub_add_def Write_def NewHub_def h_def feed_bytes_def mput_def feed_start_def\<close>)
  have s2: "feed_step 0 r conn ?s1 ?s2"
    using feed_step.lists [of ?s1 "\<lambda>ks. ks" 0 r conn] is_map_order_id by (simp add: Domains_def st mkeys_def feed_start_def)
  have s3: "feed_step 0 r conn ?s2 ?s3"
    using feed_step.takes [of ?s2 "[]" d "[]" "[]" 0 r conn] by (simp add: fl flowViews_def feed_start_def)
  have s4: "feed_step 0 r conn ?s3 ?s4"
    using feed_step.records [of 0 r conn ?s3 f] by (simp add: feed_start_def)
  have s5: "feed_step 0 r conn ?s4 ?s5"
    using feed_step.publishes [of f ?s4 "\<lambda>ks. ks" "h [b]" 0 r conn] is_map_order_id assms(1) snd [of b "[]"]
    by (simp add: Publish_def feed_start_def) (simp add: h_def mkeys_def)
  have s6: "feed_step 0 r conn ?s5 ?s6"
    using feed_step.sends [of ?s5 "[d]" "[flowView g]" 0 r conn] snd [of ?t "[b]"] by (simp add: feed_start_def)
  have "?s6 = gap_end r conn g f b"
    by (simp add: gap_end_def feed_start_def h_def reg_def d_def)
  moreover have "(feed_step 0 r conn)\<^sup>*\<^sup>* ?s0 ?s6"
    by (intro converse_rtranclp_into_rtranclp [of "feed_step 0 r conn", OF s1] converse_rtranclp_into_rtranclp [of "feed_step 0 r conn", OF s2]
        converse_rtranclp_into_rtranclp [of "feed_step 0 r conn", OF s3] converse_rtranclp_into_rtranclp [of "feed_step 0 r conn", OF s4]
        converse_rtranclp_into_rtranclp [of "feed_step 0 r conn", OF s5] r_into_rtranclp s6)
  ultimately show ?thesis by (simp add: reg_def)
qed

lemma gap_flows: "flow_Host f = flow_Host g \<Longrightarrow> Flows (AddFlow (gap_reg g) f) (flow_Host g) = [g, f]"
  by (simp add: gap_reg_def reg_simps lastn_def)

section \<open>Properties\<close>

text \<open>
  C10: a client that connects while the program runs misses nothing on the wire: whatever the interleaving of
  its handler with the engine's callbacks, with changes of the registry and with other clients, once its
  snapshot is sent and every recorded flow is published, each flow that the registry holds, and whose host was
  listed when the snapshot was collected or that was recorded since the client is registered, is among the
  snapshot's views or was sent as a message of its own, and the bytes on its connection are the handshake and
  the frames of these texts, in order. (Flows held under a host that was not listed, having no name or having
  been deleted, are in no snapshot.)
\<close>

theorem new_client_misses_nothing:
  assumes "(feed_step c r conn)\<^sup>*\<^sup>* (feed_start reg h) s" "hub_ok h" "nc_left conn = None"
    and "fe_watch s = Watching hosts vs" "fe_due s = []"
    and "f \<in> set (Flows (fe_reg s) d)" "d \<in> set hosts \<or> f \<in> set (fe_since s)" "flow_message f = Some b"
  shows "mget (clients (fe_hub s)) c = Some \<lparr>nc_out = feed_bytes r conn (fe_sent s), nc_left = None\<rparr>
    \<and> snapshot_text vs \<in> set (fe_sent s) \<and> (flowView f \<in> set vs \<or> b \<in> set (fe_sent s))"
  using feed_run [OF assms(1-3)] assms(4-8)
  by (auto simp: on_wire_def told_def told_live_def told_views_def)

definition ex_upgrade :: request where
  "ex_upgrade = \<lparr>req_Method = ''GET'', req_Path = ''/ws'', req_RawQuery = [], req_Host = ''127.0.0.1:9090'',
     req_Header = Header_Set ''Upgrade'' ''websocket'' [], req_Body = None, req_ContentLength = 0, req_GetBody = None\<rparr>"

definition ex_conn :: net_conn where "ex_conn = \<lparr>nc_out = [], nc_left = None\<rparr>"

definition ex_older :: flow where "ex_older = ex_flow\<lparr>flow_Path := ''/y''\<rparr>"

lemma ex_feed:
  "is_upgrade ex_upgrade" "nc_left ex_conn = None" "flow_Host ex_older \<noteq> []" "flow_Host ex_flow = flow_Host ex_older"
  "\<exists>j. flow_view_json (flowView ex_older) = Some j" "hub_ok NewHub"
  using ex_flow_time
  by (auto simp: is_upgrade_def ex_upgrade_def Header_Get_def Header_Set_def ex_conn_def ex_older_def ex_flow_def
      flow_view_json_def hub_ok_ops)

theorem new_client_misses_nothing_witness:
  "\<exists>b s. flow_message ex_flow = Some b \<and> (feed_step 0 ex_upgrade ex_conn)\<^sup>*\<^sup>* (feed_start (gap_reg ex_older) NewHub) s
    \<and> flowView ex_flow \<notin> {flowView ex_older} \<and> fe_watch s = Watching [''a.test''] [flowView ex_older]
    \<and> b \<in> set (fe_sent s)"
proof -
  obtain b where b: "flow_message ex_flow = Some b" using ex_flow_message by blast
  let ?s = "gap_end ex_upgrade ex_conn ex_older ex_flow b"
  note run = gap_run [OF b ex_feed(1,2,3)]
  have f: "ex_flow \<in> set (Flows (fe_reg ?s) (flow_Host ex_older))"
    by (simp add: gap_end_def gap_flows [OF ex_feed(4)])
  have n: "flowView ex_flow \<noteq> flowView ex_older"
    by (simp add: flowView_def ex_older_def ex_flow_def split: prod.splits)
  have "b \<in> set (fe_sent ?s)"
    using new_client_misses_nothing [OF run ex_feed(6,2) _ _ f _ b, of "[flow_Host ex_older]" "[flowView ex_older]"] n
    by (simp add: gap_end_def)
  then show ?thesis using b run n by (auto simp: gap_end_def ex_older_def ex_flow_def intro!: exI [of _ ?s])
qed

text \<open>
  C12: the page can lose a flow all the same. The wire has the flow's own message before a snapshot without it;
  the page ignores messages before its first snapshot and lets a snapshot replace what it has, so that the flow,
  which the registry still holds, is not shown: there is a run after which every message was delivered and
  the page shows one flow while the registry holds two.
\<close>

theorem page_loses_a_flow:
  assumes "flow_message f = Some b" "flow_view_json (flowView g) = Some j"
    and "flow_Host f = flow_Host g" "flow_Host g \<noteq> []" "is_upgrade r" "nc_left conn = None"
  shows "\<exists>s. (feed_step 0 r conn)\<^sup>*\<^sup>* (feed_start (gap_reg g) NewHub) s
    \<and> fe_due s = [] \<and> (\<exists>hosts vs. fe_watch s = Watching hosts vs)
    \<and> mget (clients (fe_hub s)) 0 = Some \<lparr>nc_out = feed_bytes r conn (fe_sent s), nc_left = None\<rparr>
    \<and> Flows (fe_reg s) (flow_Host g) = [g, f] \<and> vw_flows (shown (fe_sent s)) = [clean j]"
proof (intro exI [of _ "gap_end r conn g f b"] conjI)
  show "(feed_step 0 r conn)\<^sup>*\<^sup>* (feed_start (gap_reg g) NewHub) (gap_end r conn g f b)"
    by (rule gap_run [OF assms(1,5,6,4)])
  show "Flows (fe_reg (gap_end r conn g f b)) (flow_Host g) = [g, f]"
    using gap_flows [OF assms(3)] by (simp add: gap_end_def)
  have "onmessage viewer_start b = viewer_start"
    using onmessage_flow [OF assms(1), of viewer_start] by (auto simp: viewer_start_def)
  then show "vw_flows (shown (fe_sent (gap_end r conn g f b))) = [clean j]"
    using onmessage_snapshot [of "[flowView g]" "[j]"] assms(2) by (simp add: gap_end_def shown_def)
qed (simp_all add: gap_end_def mget_def)

theorem page_loses_a_flow_witness:
  "\<exists>s j. (feed_step 0 ex_upgrade ex_conn)\<^sup>*\<^sup>* (feed_start (gap_reg ex_older) NewHub) s \<and> fe_due s = []
    \<and> Flows (fe_reg s) ''a.test'' = [ex_older, ex_flow] \<and> vw_flows (shown (fe_sent s)) = [j]"
proof -
  obtain b where b: "flow_message ex_flow = Some b" using ex_flow_message by blast
  obtain j where j: "flow_view_json (flowView ex_older) = Some j" using ex_feed(5) by blast
  have "flow_Host ex_older = ''a.test''" by (simp add: ex_older_def ex_flow_def)
  with page_loses_a_flow [OF b j ex_feed(4,3,1,2)] show ?thesis by fastforce
qed

text \<open>
  C11: a page that connects before there is any flow stays empty: the snapshot of no flows has the JSON \<open>null\<close>
  for its list (the slice was never appended to), the page does not count that as a snapshot, and ignores
  every flow that is published afterwards, however many there are.
\<close>

theorem empty_snapshot_deafens_page:
  assumes "is_map_order ord" "\<forall>d \<in> set (mkeys (states reg)). Flows reg d = []"
    and "\<forall>t \<in> set ts. \<exists>f. flow_message f = Some t"
  shows "shown (snapshot_message ord reg # ts) = \<lparr>vw_flows = [], vw_saw = False\<rparr>"
proof -
  have "all_flow_views ord reg = []"
    using assms(1,2) by (auto simp: all_flow_views_def Domains_def flowViews_def map_order_set)
  then have "snapshot_message ord reg = snapshot_text []" by (simp add: snapshot_message_text)
  then show ?thesis
    using onmessage_snapshot [of "[]" "[]" viewer_start] deaf_to_flows [OF assms(3), of viewer_start]
    by (simp add: shown_def viewer_start_def)
qed

theorem empty_snapshot_deafens_page_witness:
  "\<exists>b. flow_message ex_flow = Some b
     \<and> shown (snapshot_message rev (Observe NewRegistry ''a.test'') # replicate 3 b) = \<lparr>vw_flows = [], vw_saw = False\<rparr>"
proof -
  obtain b where b: "flow_message ex_flow = Some b" using ex_flow_message by blast
  have "\<forall>d \<in> set (mkeys (states (Observe NewRegistry ''a.test''))). Flows (Observe NewRegistry ''a.test'') d = []"
    by (simp add: reg_simps)
  from empty_snapshot_deafens_page [OF is_map_order_rev this, of "replicate 3 b"] b show ?thesis by auto
qed

end
