(* ===== verification/Lookups.thy ===== *)
theory Lookups
  imports App
begin

text \<open>
  \<open>OnRequest\<close> (app.go) with its three look-ups apart: it reads the state of the host, asks the rules for the
  first rule that applies, and, when that is no rewrite rule and the host is mocked, asks them again for the
  response. The state and the rules may change between the look-ups.
\<close>

section \<open>The look-ups apart\<close>

text \<open>\<open>st\<close>, \<open>e1\<close> and \<open>e2\<close> are what the three look-ups find.\<close>

definition OnRequest_apart ::
  "json_lib \<Rightarrow> unicode \<Rightarrow> script_host \<Rightarrow> DomainState \<Rightarrow> rule_engine \<Rightarrow> rule_engine \<Rightarrow> string \<Rightarrow> request \<Rightarrow> request \<times> response option" where
  "OnRequest_apart L u E st e1 e2 host req =
     (case matchRule u e1 host req of
        Some r \<Rightarrow>
          (if is_rewrite u r then
             (if st = StateIntercepted \<or> st = StateMocked then applyRewrite L E req r else req, None)
           else if st \<noteq> StateMocked then (req, None)
           else (req, Match u E e2 host req))
      | None \<Rightarrow> (if st \<noteq> StateMocked then (req, None) else (req, Match u E e2 host req)))"

lemma OnRequest_together:
  "OnRequest L u E a host req = OnRequest_apart L u E (State (ap_reg a) host) (ap_rules a) (ap_rules a) host req"
  by (simp add: OnRequest_def OnRequest_apart_def Let_def)

text \<open>
  What holds whatever changes in between: an answer is given only for a host that was found mocked, it is the
  rendering of the rule that the last look-up finds, which is no rewrite rule, and the request is then as it was.
\<close>

lemma answers_are_mocked:
  assumes "OnRequest_apart L u E st e1 e2 host req = (req', Some resp)"
  shows "st = StateMocked \<and> req' = req
    \<and> (\<exists>r. matchRule u e2 host req = Some r \<and> \<not> is_rewrite u r \<and> resp = renderRule E r (Some req))"
  using assms by (auto simp: OnRequest_apart_def Match_def is_rewrite_def split: option.splits if_splits)

text \<open>
  The look-ups may be taken as one step with the rules of one of them, except in one case: when the rule that
  applies turns into a rewrite rule in between, the request is forwarded as it is, although the rules before
  might answer it and those after would change it.
\<close>

definition turns_into_rewrite :: "unicode \<Rightarrow> DomainState \<Rightarrow> rule_engine \<Rightarrow> rule_engine \<Rightarrow> string \<Rightarrow> request \<Rightarrow> bool" where
  "turns_into_rewrite u st e1 e2 host req \<longleftrightarrow> st = StateMocked
     \<and> (\<forall>r. matchRule u e1 host req = Some r \<longrightarrow> \<not> is_rewrite u r)
     \<and> (\<exists>r. matchRule u e2 host req = Some r \<and> is_rewrite u r)"

theorem look_ups_serialise:
  "if turns_into_rewrite u st e1 e2 host req then OnRequest_apart L u E st e1 e2 host req = (req, None)
   else OnRequest_apart L u E st e1 e2 host req
     \<in> {OnRequest_apart L u E st e1 e1 host req, OnRequest_apart L u E st e2 e2 host req}"
  by (auto simp: OnRequest_apart_def turns_into_rewrite_def Match_def is_rewrite_def split: option.splits)

text \<open>The case arises: a mock rule for one path is deleted, and a rewrite rule for every path is behind it.\<close>

lemma deleting_turns_into_rewrite:
  assumes "rules e = [m, w]" "ru_ID m \<noteq> ru_ID w" "\<not> is_rewrite u m" "is_rewrite u w"
    and "rule_applies u (host, req_Path req, req_Method req) m" "rule_applies u (host, req_Path req, req_Method req) w"
  shows "OnRequest_apart L u E StateMocked e (fst (Delete e (ru_ID m))) host req = (req, None)"
    and "OnRequest_apart L u E StateMocked e e host req = (req, Some (renderRule E m (Some req)))"
    and "OnRequest_apart L u E StateMocked (fst (Delete e (ru_ID m))) (fst (Delete e (ru_ID m))) host req
      = (applyRewrite L E req w, None)"
  using assms by (auto simp: OnRequest_apart_def Match_def is_rewrite_def matchRule_find Delete_eq_filter)

end
