(* ===== verification/Client_Kit.thy ===== *)
theory Client_Kit
  imports Sslkit_Facts
begin

text \<open>
  The client's side of the TLS kit (sslkit/skytap_ssl_policy.c), which the patched libraries ask: it reads the
  \<open>skytap-ssl.conf\<close> that \<open>writeClientConf\<close> (sslkit.go) leaves in the shared directory, line by line into
  buffers of fixed sizes, lets the environment override it, and reads it again when it is two seconds old.
  \<^item> \<open>load_conf\<close>, \<open>load_settings\<close>, \<open>load_once\<close> and the queries of the header file, one definition each.
  \<^item> What the client takes from a file that the store has written, and how that compares with the store.

  A C string is a string without NUL; a buffer of \<open>n + 1\<close> bytes that is zero at its end holds \<open>n\<close> of them.
\<close>

section \<open>C strings\<close>

definition cstr :: "string \<Rightarrow> string" where
  "cstr b = takeWhile (\<lambda>c. c \<noteq> CHR 0x00) b"

text \<open>\<open>strncpy\<close> into a buffer whose last byte is and stays zero; it pads with zeros.\<close>

definition strncpy :: "string \<Rightarrow> nat \<Rightarrow> string" where
  "strncpy v n = take n v"

definition strcasecmp_eq :: "string \<Rightarrow> string \<Rightarrow> bool" where
  "strcasecmp_eq a b \<longleftrightarrow> map char_lower a = map char_lower b"

text \<open>The tokens that \<open>strtok_r\<close> finds: the longest runs without a delimiter.\<close>

function tokens :: "(char \<Rightarrow> bool) \<Rightarrow> string \<Rightarrow> string list" where
  "tokens d [] = []"
| "tokens d (c # cs) =
     (if d c then tokens d cs
      else (c # takeWhile (\<lambda>x. \<not> d x) cs) # tokens d (dropWhile (\<lambda>x. \<not> d x) cs))"
  by pat_completeness auto
termination
  by (relation "measure (\<lambda>(d, s). length s)") (auto simp: less_Suc_eq_le length_dropWhile_le)

text \<open>\<open>fgets\<close> with a buffer of \<open>n\<close> bytes: the line with its line feed, or as much of it as fits.\<close>

definition fgets :: "nat \<Rightarrow> string \<Rightarrow> string \<times> string" where
  "fgets n s =
     (let l = takeWhile (\<lambda>c. c \<noteq> CHR 0x0A) s;
          k = min (n - 1) (if length l < length s then Suc (length l) else length l)
      in (take k s, drop k s))"

lemma fgets_shorter: "(l, r) = fgets n s \<Longrightarrow> s \<noteq> [] \<Longrightarrow> \<not> n < 2 \<Longrightarrow> length r < length s"
  using length_takeWhile_le [of "\<lambda>c. c \<noteq> CHR 0x0A" s] by (auto simp: fgets_def Let_def split: if_splits)

function fgets_all :: "nat \<Rightarrow> string \<Rightarrow> string list" where
  "fgets_all n s =
     (if s = [] \<or> n < 2 then [] else case fgets n s of (l, s) \<Rightarrow> l # fgets_all n s)"
  by auto
termination
  by (relation "measure (\<lambda>(n, s). length s)") (auto dest: fgets_shorter)

declare fgets_all.simps [simp del]

section \<open>Settings\<close>

record kit_conf =
  kc_pin :: string
  kc_ca :: string
  kc_proxy :: string
  kc_verify :: string
  kc_override :: string
  kc_keylog :: string
  kc_imp :: string
  kc_origdir :: string
  kc_imp_hosts :: string
  kc_kit_hosts :: string

definition kit_defaults :: kit_conf where
  "kit_defaults = \<lparr>kc_pin = ''off'', kc_ca = ''/certs/ca.crt'', kc_proxy = ''http://skytap:8080'', kc_verify = ''ca'',
     kc_override = [], kc_keylog = [], kc_imp = ''on'', kc_origdir = ''/certs/origin-cache'', kc_imp_hosts = [],
     kc_kit_hosts = []\<rparr>"

definition c_space :: "char \<Rightarrow> bool" where
  "c_space c \<longleftrightarrow> c \<in> {CHR '' '', CHR 0x09, CHR 0x0D, CHR 0x0A}"

definition trim :: "string \<Rightarrow> string" where
  "trim s = rev (dropWhile c_space (rev (dropWhile c_space s)))"

definition apply_kv :: "string \<Rightarrow> string \<Rightarrow> kit_conf \<Rightarrow> kit_conf" where
  "apply_kv k v c =
     (if k = ''SKYTAP_SSL_PIN'' then c\<lparr>kc_pin := strncpy v 31\<rparr>
      else if k = ''SKYTAP_SSL_CA'' then c\<lparr>kc_ca := strncpy v 511\<rparr>
      else if k = ''SKYTAP_SSL_PROXY'' then c\<lparr>kc_proxy := strncpy v 255\<rparr>
      else if k = ''SKYTAP_SSL_VERIFY'' then c\<lparr>kc_verify := strncpy v 15\<rparr>
      else if k = ''SKYTAP_SSL_PIN_OVERRIDE'' then c\<lparr>kc_override := strncpy v 127\<rparr>
      else if k = ''SKYTAP_SSL_KEYLOG'' then c\<lparr>kc_keylog := strncpy v 511\<rparr>
      else if k = ''SKYTAP_SSL_IMPERSONATE'' then c\<lparr>kc_imp := strncpy v 7\<rparr>
      else if k = ''SKYTAP_SSL_ORIGIN_CERT_DIR'' then c\<lparr>kc_origdir := strncpy v 511\<rparr>
      else if k = ''SKYTAP_SSL_IMPERSONATE_HOSTS'' then c\<lparr>kc_imp_hosts := strncpy v 2047\<rparr>
      else if k = ''SKYTAP_SSL_KIT_HOSTS'' then c\<lparr>kc_kit_hosts := strncpy v 2047\<rparr>
      else c)"

text \<open>One turn of the loop of \<open>load_conf\<close>, on what \<open>fgets\<close> has put into the buffer.\<close>

definition conf_line :: "string \<Rightarrow> kit_conf \<Rightarrow> kit_conf" where
  "conf_line b c =
     (let s = cstr b
      in if take 1 s = ''#'' \<or> take 1 s = '';'' then c
         else case Cut CHR ''='' s of (k, v, eq) \<Rightarrow> if eq then apply_kv (trim k) (trim v) c else c)"

definition load_conf :: "string option \<Rightarrow> kit_conf \<Rightarrow> kit_conf" where
  "load_conf f c = (case f of None \<Rightarrow> c | Some t \<Rightarrow> foldl (\<lambda>c b. conf_line b c) c (fgets_all 768 t))"

type_synonym c_env = "string \<Rightarrow> string option"

definition from_env :: "c_env \<Rightarrow> string \<Rightarrow> kit_conf \<Rightarrow> kit_conf" where
  "from_env e n c = (case e n of None \<Rightarrow> c | Some v \<Rightarrow> apply_kv n v c)"

text \<open>The body of \<open>load_once\<close>: defaults, the two files, the environment.\<close>

definition load_settings :: "c_env \<Rightarrow> os \<Rightarrow> kit_conf" where
  "load_settings e s =
     (let c = load_conf (ReadFile s ''/etc/skytap-ssl.conf'') kit_defaults;
          c = load_conf (ReadFile s ''/certs/skytap-ssl.conf'') c;
          c = foldl (\<lambda>c n. from_env e n c) c
                [''SKYTAP_SSL_PIN'', ''SKYTAP_SSL_CA'', ''SKYTAP_SSL_PROXY'', ''SKYTAP_SSL_VERIFY'',
                 ''SKYTAP_SSL_PIN_OVERRIDE'', ''SKYTAP_SSL_KEYLOG''];
          c = (case e ''SSLKEYLOGFILE'' of
                 Some v \<Rightarrow> if kc_keylog c = [] then c\<lparr>kc_keylog := strncpy v 511\<rparr> else c
               | None \<Rightarrow> c)
      in foldl (\<lambda>c n. from_env e n c) c
           [''SKYTAP_SSL_IMPERSONATE'', ''SKYTAP_SSL_ORIGIN_CERT_DIR'', ''SKYTAP_SSL_IMPERSONATE_HOSTS'',
            ''SKYTAP_SSL_KIT_HOSTS''])"

text \<open>The globals: the settings, whether and when they were loaded. At the start all are zero.\<close>

record kit_state =
  ks_conf :: kit_conf
  ks_loaded :: bool
  ks_at :: int

definition kit_init :: kit_state where
  "kit_init = \<lparr>ks_conf = \<lparr>kc_pin = [], kc_ca = [], kc_proxy = [], kc_verify = [], kc_override = [], kc_keylog = [],
     kc_imp = [], kc_origdir = [], kc_imp_hosts = [], kc_kit_hosts = []\<rparr>, ks_loaded = False, ks_at = 0\<rparr>"

definition load_once :: "c_env \<Rightarrow> int \<Rightarrow> os \<Rightarrow> kit_state \<Rightarrow> kit_state" where
  "load_once e now s st =
     (if ks_loaded st \<and> now - ks_at st < 2 then st
      else \<lparr>ks_conf = load_settings e s, ks_loaded = True, ks_at = now\<rparr>)"

section \<open>Queries\<close>

text \<open>The answers of the queries from the settings; every query calls \<open>load_once\<close> first.\<close>

definition pin_is_off :: "kit_conf \<Rightarrow> bool" where
  "pin_is_off c \<longleftrightarrow> kc_pin c \<noteq> ''on''"

definition verify_is_none :: "kit_conf \<Rightarrow> bool" where
  "verify_is_none c \<longleftrightarrow> kc_verify c = ''none''"

definition list_delim :: "char \<Rightarrow> bool" where
  "list_delim c \<longleftrightarrow> c \<in> {CHR '','', CHR '' '', CHR 0x09, CHR 0x0A}"

definition host_in_list :: "string \<Rightarrow> string \<Rightarrow> bool" where
  "host_in_list l host \<longleftrightarrow>
     host \<noteq> [] \<and> l \<noteq> [] \<and> list_ex (\<lambda>t. strcasecmp_eq t host) (tokens list_delim (strncpy l 2047))"

definition impersonate_on :: "kit_conf \<Rightarrow> bool" where
  "impersonate_on c \<longleftrightarrow> kc_imp c \<noteq> ''off''"

definition impersonate_host :: "kit_conf \<Rightarrow> string \<Rightarrow> bool" where
  "impersonate_host c host \<longleftrightarrow> impersonate_on c \<and> host_in_list (kc_imp_hosts c) host"

definition kit_host :: "kit_conf \<Rightarrow> string \<Rightarrow> bool" where
  "kit_host c host \<longleftrightarrow> kc_kit_hosts c = [] \<or> host_in_list (kc_kit_hosts c) host"

text \<open>
  \<open>skytap_impersonate_host\<close> with its two calls of \<open>load_once\<close>, between which the clock and the files may move on.
\<close>

definition skytap_impersonate_host ::
  "c_env \<Rightarrow> (int \<Rightarrow> os) \<Rightarrow> int \<Rightarrow> int \<Rightarrow> string \<Rightarrow> kit_state \<Rightarrow> kit_state \<times> bool" where
  "skytap_impersonate_host e files t1 t2 host st =
     (let st = load_once e t1 (files t1) st;
          st = load_once e t2 (files t2) st
      in (st, if impersonate_on (ks_conf st) then host_in_list (kc_imp_hosts (ks_conf st)) host else False))"

text \<open>The file of an origin's chain (skytap_impersonate.c), in a buffer of 768 bytes.\<close>

definition origin_chain_path :: "kit_conf \<Rightarrow> string \<Rightarrow> string" where
  "origin_chain_path c host = take 767 (kc_origdir c @ ''/'' @ host @ ''.pem'')"

section \<open>Reading the lines\<close>

text \<open>What one line becomes: itself, or pieces that fill the buffer.\<close>

function pieces :: "nat \<Rightarrow> string \<Rightarrow> string list" where
  "pieces n l = (if n < 2 \<or> length l < n - 1 then [l @ [CHR 0x0A]] else take (n - 1) l # pieces n (drop (n - 1) l))"
  by auto
termination by (relation "measure (\<lambda>(n, s). length s)") auto

declare pieces.simps [simp del]

lemma takeWhile_line: "CHR 0x0A \<notin> set l \<Longrightarrow> takeWhile (\<lambda>c. c \<noteq> CHR 0x0A) (l @ CHR 0x0A # r) = l"
  by (induction l) auto

lemma fgets_all_line:
  "2 \<le> n \<Longrightarrow> CHR 0x0A \<notin> set l \<Longrightarrow> fgets_all n (line l @ r) = pieces n l @ fgets_all n r"
proof (induction n l rule: pieces.induct)
  case (1 n l)
  have tw: "takeWhile (\<lambda>c. c \<noteq> CHR 0x0A) (line l @ r) = l"
    using takeWhile_line [OF 1(3), of r] by (simp add: line_def)
  show ?case
  proof (cases "length l < n - 1")
    case True
    then have "fgets n (line l @ r) = (l @ [CHR 0x0A], r)"
      using tw by (simp add: fgets_def Let_def line_def)
    then show ?thesis
      using True 1(2) by (subst fgets_all.simps) (simp add: pieces.simps [of n l] line_def)
  next
    case False
    have "CHR 0x0A \<notin> set (drop (n - 1) l)" using 1(3) by (meson in_set_dropD)
    then have ih: "fgets_all n (line (drop (n - 1) l) @ r) = pieces n (drop (n - 1) l) @ fgets_all n r"
      using 1(1) [OF _ 1(2)] False 1(2) by simp
    have "fgets n (line l @ r) = (take (n - 1) l, line (drop (n - 1) l) @ r)"
      using tw False by (simp add: fgets_def Let_def line_def)
    moreover have "pieces n l = take (n - 1) l # pieces n (drop (n - 1) l)"
      using False 1(2) by (subst pieces.simps) simp
    ultimately show ?thesis
      using ih 1(2) by (subst fgets_all.simps) (simp add: line_def)
  qed
qed

lemma fgets_all_lines:
  "2 \<le> n \<Longrightarrow> \<forall>l \<in> set ls. CHR 0x0A \<notin> set l \<Longrightarrow> fgets_all n (concat (map line ls)) = concat (map (pieces n) ls)"
  by (induction ls) (simp_all add: fgets_all_line, simp add: fgets_all.simps)

text \<open>A piece without an underscore sets nothing, as every name of a setting has one.\<close>

lemma apply_kv_plain: "CHR ''_'' \<notin> set k \<Longrightarrow> apply_kv k v c = c"
proof -
  assume "CHR ''_'' \<notin> set k"
  then have ne: "CHR ''_'' \<in> set n \<Longrightarrow> k \<noteq> n" for n by blast
  show ?thesis by (simp add: apply_kv_def ne)
qed

lemma set_trim: "set (trim s) \<subseteq> set s"
  unfolding trim_def by (auto dest!: set_dropWhileD)

lemma conf_line_plain:
  assumes "CHR ''_'' \<notin> set b"
  shows "conf_line b c = c"
proof -
  obtain k v eq where cut: "Cut CHR ''='' (cstr b) = (k, v, eq)" using prod_cases3 by blast
  then have "set k \<subseteq> set b"
    by (auto simp: Cut_def cstr_def Let_def dest!: set_takeWhileD split: if_splits)
  then have "CHR ''_'' \<notin> set (trim k)" using assms set_trim [of k] by blast
  then show ?thesis by (simp add: conf_line_def Let_def cut apply_kv_plain)
qed

lemma pieces_plain: "CHR ''_'' \<notin> set l \<Longrightarrow> foldl (\<lambda>c b. conf_line b c) c (pieces n l) = c"
proof (induction n l arbitrary: c rule: pieces.induct)
  case (1 n l)
  have "CHR ''_'' \<notin> set (take (n - 1) l)" "CHR ''_'' \<notin> set (drop (n - 1) l)"
    using 1(2) by (meson in_set_takeD, meson in_set_dropD)
  then show ?case using 1 by (subst pieces.simps) (simp add: conf_line_plain)
qed

text \<open>Texts of policies that neither end a line nor are trimmed, and name no setting.\<close>

definition plain_text :: "string \<Rightarrow> bool" where
  "plain_text s \<longleftrightarrow> list_all (\<lambda>c. c \<noteq> CHR 0x00 \<and> \<not> c_space c \<and> c \<noteq> CHR ''_'') s"

lemma plain_text_simps [simp]:
  "plain_text []" "plain_text (c # s) \<longleftrightarrow> (c \<noteq> CHR 0x00 \<and> \<not> c_space c \<and> c \<noteq> CHR ''_'') \<and> plain_text s"
  "plain_text (s @ t) \<longleftrightarrow> plain_text s \<and> plain_text t"
  by (simp_all add: plain_text_def)

lemma plain_textD:
  "plain_text s \<Longrightarrow> CHR 0x00 \<notin> set s" "plain_text s \<Longrightarrow> CHR ''_'' \<notin> set s"
  "plain_text s \<Longrightarrow> CHR 0x0A \<notin> set s" "plain_text s \<Longrightarrow> c \<in> set s \<Longrightarrow> \<not> c_space c"
  by (auto simp: plain_text_def list_all_iff c_space_def)

lemma plain_text_parts: "plain_text s \<Longrightarrow> plain_text (take n s)" "plain_text s \<Longrightarrow> plain_text (drop n s)"
  by (auto simp: plain_text_def list_all_iff dest: in_set_takeD in_set_dropD)

lemma plain_text_join: "\<forall>x \<in> set xs. plain_text x \<Longrightarrow> plain_text (join '','' xs)"
  using set_join [of "'',''" xs] by (fastforce simp: plain_text_def list_all_iff c_space_def)

lemma cstr_id: "CHR 0x00 \<notin> set s \<Longrightarrow> cstr s = s"
  unfolding cstr_def by (rule takeWhile_eq_all_conv [THEN iffD2]) auto

lemma dropWhile_none: "\<forall>c \<in> set s. \<not> P c \<Longrightarrow> dropWhile P s = s"
  by (cases s) auto

lemma trim_id: "\<forall>c \<in> set s. \<not> c_space c \<Longrightarrow> trim s = s" "\<forall>c \<in> set s. \<not> c_space c \<Longrightarrow> trim (s @ [CHR 0x0A]) = s"
proof -
  assume a: "\<forall>c \<in> set s. \<not> c_space c"
  then have d: "dropWhile c_space s = s" "dropWhile c_space (rev s) = rev s"
    by (simp_all add: dropWhile_none)
  have n: "c_space (CHR 0x0A)" by (simp add: c_space_def)
  show "trim s = s" by (simp add: trim_def d)
  show "trim (s @ [CHR 0x0A]) = s"
  proof (cases "s = []")
    case True
    then show ?thesis by (simp add: trim_def n)
  next
    case False
    then have "dropWhile c_space (s @ [CHR 0x0A]) = s @ [CHR 0x0A]" using a by (cases s) auto
    then show ?thesis by (simp add: trim_def n d)
  qed
qed

definition setting_name :: "string \<Rightarrow> bool" where
  "setting_name k \<longleftrightarrow> length k \<le> 766 \<and> k \<noteq> [] \<and> hd k \<notin> {CHR ''#'', CHR '';''}
     \<and> list_all (\<lambda>c. c \<noteq> CHR 0x00 \<and> \<not> c_space c \<and> c \<noteq> CHR ''='') k"

lemma conf_line_setting:
  assumes "setting_name k" "CHR 0x00 \<notin> set w"
  shows "conf_line (k @ CHR ''='' # w) c = apply_kv k (trim w) c"
proof -
  have k: "CHR 0x00 \<notin> set k" "CHR ''='' \<notin> set k" "\<forall>x \<in> set k. \<not> c_space x" "k \<noteq> []" "hd k \<notin> {CHR ''#'', CHR '';''}"
    using assms(1) by (auto simp: setting_name_def list_all_iff)
  have z: "cstr (k @ CHR ''='' # w) = k @ CHR ''='' # w" using k(1) assms(2) by (intro cstr_id) simp
  have "take 1 (k @ CHR ''='' # w) = [hd k]" using k(4) by (cases k) auto
  then show ?thesis using k(5) by (simp add: conf_line_def Let_def z Cut_key [OF k(2)] trim_id(1) [OF k(3)])
qed

lemma setting_pieces:
  assumes "setting_name k" "plain_text v"
  shows "foldl (\<lambda>c b. conf_line b c) c (pieces 768 (k @ CHR ''='' # v)) = apply_kv k (take (766 - length k) v) c"
proof (cases "length (k @ CHR ''='' # v) < 767")
  case True
  then have "pieces 768 (k @ CHR ''='' # v) = [k @ CHR ''='' # (v @ [CHR 0x0A])]"
    by (subst pieces.simps) simp
  moreover have "conf_line (k @ CHR ''='' # (v @ [CHR 0x0A])) c = apply_kv k v c"
    using conf_line_setting [OF assms(1), of "v @ [CHR 0x0A]" c] plain_textD [OF assms(2)] trim_id(2) [of v] by auto
  ultimately show ?thesis using True by simp
next
  case False
  let ?n = "766 - length k"
  have "length k \<le> 766" using assms(1) by (simp add: setting_name_def)
  then have k: "767 - length k = Suc ?n" by linarith
  have "pieces 768 (k @ CHR ''='' # v) = (k @ CHR ''='' # take ?n v) # pieces 768 (drop ?n v)"
    using False k by (subst pieces.simps) (simp add: setting_name_def)
  moreover have "conf_line (k @ CHR ''='' # take ?n v) c = apply_kv k (take ?n v) c"
    using conf_line_setting [OF assms(1), of "take ?n v" c] plain_textD [OF plain_text_parts(1) [OF assms(2)]]
      trim_id(1) [of "take ?n v"] by auto
  ultimately show ?thesis
    using pieces_plain [of "drop ?n v"] plain_textD(2) [OF plain_text_parts(2) [OF assms(2)]] by simp
qed

section \<open>Reading what the store has written\<close>

definition plain_policy :: "HostSSLPolicy \<Rightarrow> bool" where
  "plain_policy p \<longleftrightarrow> plain_text (hp_Host p) \<and> plain_text (hp_Pin p) \<and> plain_text (hp_Verify p)"

definition imp_list :: "HostSSLPolicy list \<Rightarrow> string" where
  "imp_list ps = join '','' (map hp_Host (filter hp_Impersonate ps))"

definition kit_list :: "HostSSLPolicy list \<Rightarrow> string" where
  "kit_list ps = join '','' (map hp_Host (filter hp_Kit ps))"

definition conf_pairs :: "HostSSLPolicy list \<Rightarrow> (string \<times> string) list" where
  "conf_pairs ps =
     [(''SKYTAP_SSL_CA'', ''/certs/ca.crt''), (''SKYTAP_SSL_PROXY'', ''http://skytap:8080''),
      (''SKYTAP_SSL_ORIGIN_CERT_DIR'', ''/certs/origin-cache''), (''SKYTAP_SSL_KIT_HOSTS'', kit_list ps),
      (''SKYTAP_SSL_IMPERSONATE_HOSTS'', imp_list ps),
      (''SKYTAP_SSL_IMPERSONATE'', boolEnv (list_ex hp_Impersonate ps)),
      (''SKYTAP_SSL_PIN_BY_HOST'', join '','' (map (\<lambda>p. hp_Host p @ ''='' @ hp_Pin p) (filter (\<lambda>p. hp_Pin p \<noteq> []) ps))),
      (''SKYTAP_SSL_VERIFY_BY_HOST'',
        join '','' (map (\<lambda>p. hp_Host p @ ''='' @ hp_Verify p) (filter (\<lambda>p. hp_Verify p \<noteq> []) ps)))]"

lemma conf_lines_pairs: "conf_lines ps = map (\<lambda>(k, v). k @ CHR ''='' # v) (conf_pairs ps)"
proof -
  have "map hp_Host (filter hp_Impersonate ps) \<noteq> [] \<longleftrightarrow> list_ex hp_Impersonate ps"
    by (auto simp: filter_empty_conv list_ex_iff)
  then show ?thesis by (simp add: conf_lines_def conf_pairs_def kit_list_def imp_list_def Let_def)
qed

lemma conf_pairs_plain:
  assumes "list_all plain_policy ps" "(k, v) \<in> set (conf_pairs ps)"
  shows "setting_name k" "plain_text v"
proof -
  have "\<forall>(k, v) \<in> set (conf_pairs ps). setting_name k"
    by (simp add: conf_pairs_def setting_name_def c_space_def)
  then show "setting_name k" using assms(2) by blast
  have j: "plain_text (join '','' (map f (filter P ps)))" if "\<And>p. plain_policy p \<Longrightarrow> plain_text (f p)" for f P
    by (rule plain_text_join) (use that assms(1) in \<open>auto simp: list_all_iff\<close>)
  have "plain_text (kit_list ps)" "plain_text (imp_list ps)"
    "plain_text (join '','' (map (\<lambda>p. hp_Host p @ ''='' @ hp_Pin p) (filter (\<lambda>p. hp_Pin p \<noteq> []) ps)))"
    "plain_text (join '','' (map (\<lambda>p. hp_Host p @ ''='' @ hp_Verify p) (filter (\<lambda>p. hp_Verify p \<noteq> []) ps)))"
    unfolding kit_list_def imp_list_def by (rule j; simp add: plain_policy_def c_space_def)+
  then have "\<forall>(k, v) \<in> set (conf_pairs ps). plain_text v"
    by (simp add: conf_pairs_def c_space_def boolEnv_def)
  then show "plain_text v" using assms(2) by blast
qed

lemma fold_settings:
  "\<forall>(k, v) \<in> set kvs. setting_name k \<and> plain_text v \<Longrightarrow>
   foldl (\<lambda>c b. conf_line b c) c (concat (map (pieces 768) (map (\<lambda>(k, v). k @ CHR ''='' # v) kvs)))
     = foldl (\<lambda>c (k, v). apply_kv k (take (766 - length k) v) c) c kvs"
proof (induction kvs arbitrary: c)
  case (Cons kv kvs)
  then show ?case by (cases kv) (auto simp: setting_pieces)
qed simp

text \<open>What the file of the store sets: 746 bytes of the list of kit hosts and 738 of the hosts to impersonate.\<close>

lemma load_conf_text:
  assumes "list_all plain_policy ps"
  shows "load_conf (Some (conf_text ps)) c =
    c\<lparr>kc_ca := ''/certs/ca.crt'', kc_proxy := ''http://skytap:8080'', kc_origdir := ''/certs/origin-cache'',
      kc_kit_hosts := take 746 (kit_list ps), kc_imp_hosts := take 738 (imp_list ps),
      kc_imp := boolEnv (list_ex hp_Impersonate ps)\<rparr>"
proof -
  have g: "\<forall>(k, v) \<in> set (conf_pairs ps). setting_name k \<and> plain_text v"
    using conf_pairs_plain [OF assms] by blast
  have nl: "\<forall>l \<in> set (conf_lines ps). CHR 0x0A \<notin> set l"
  proof
    fix l assume "l \<in> set (conf_lines ps)"
    then obtain k v where kv: "(k, v) \<in> set (conf_pairs ps)" "l = k @ CHR ''='' # v"
      by (auto simp: conf_lines_pairs)
    then have "setting_name k" "plain_text v" using g by blast+
    then show "CHR 0x0A \<notin> set l"
      using plain_textD(3) [of v] by (auto simp: kv(2) setting_name_def list_all_iff c_space_def)
  qed
  have "load_conf (Some (conf_text ps)) c
      = foldl (\<lambda>c (k, v). apply_kv k (take (766 - length k) v) c) c (conf_pairs ps)"
    using fgets_all_lines [OF _ nl, of 768] fold_settings [OF g]
    by (simp add: load_conf_def conf_text_def conf_lines_pairs)
  also have "\<dots> = c\<lparr>kc_ca := ''/certs/ca.crt'', kc_proxy := ''http://skytap:8080'', kc_origdir := ''/certs/origin-cache'',
      kc_kit_hosts := take 746 (kit_list ps), kc_imp_hosts := take 738 (imp_list ps),
      kc_imp := boolEnv (list_ex hp_Impersonate ps)\<rparr>"
    by (simp add: conf_pairs_def apply_kv_def strncpy_def boolEnv_def min_def)
  finally show ?thesis .
qed

section \<open>The lists of hosts\<close>

lemma takeWhile_run: "\<forall>c \<in> set g. \<not> d c \<Longrightarrow> takeWhile (\<lambda>x. \<not> d x) g = g \<and> dropWhile (\<lambda>x. \<not> d x) g = []"
  by (induction g) auto

lemma takeWhile_run_app:
  "\<forall>c \<in> set g. \<not> d c \<Longrightarrow> d x \<Longrightarrow>
   takeWhile (\<lambda>x. \<not> d x) (g @ x # r) = g \<and> dropWhile (\<lambda>x. \<not> d x) (g @ x # r) = x # r"
  by (induction g) auto

lemma tokens_run: "\<forall>c \<in> set g. \<not> d c \<Longrightarrow> tokens d g = (if g = [] then [] else [g])"
proof (cases g)
  case (Cons a l)
  assume g: "\<forall>c \<in> set g. \<not> d c"
  then have "\<forall>c \<in> set l. \<not> d c" by (simp add: Cons)
  from takeWhile_run [OF this] have l: "takeWhile (\<lambda>x. \<not> d x) l = l" "dropWhile (\<lambda>x. \<not> d x) l = []" by blast+
  show ?thesis using g by (simp add: Cons l)
qed simp

lemma tokens_run_app:
  "\<forall>c \<in> set g. \<not> d c \<Longrightarrow> d x \<Longrightarrow> tokens d (g @ x # r) = (if g = [] then [] else [g]) @ tokens d r"
  using takeWhile_run_app [of "tl g" d x r] by (cases g) simp_all

text \<open>A host as DNS and browsers write it: ASCII without blanks, commas and underscores.\<close>

definition host_text :: "string \<Rightarrow> bool" where
  "host_text h \<longleftrightarrow>
     list_all (\<lambda>c. code_of c < 0x80 \<and> \<not> is_space (code_of c) \<and> c \<notin> {CHR 0x00, CHR '','', CHR ''_''}) h"

lemma host_textD:
  assumes "host_text h"
  shows "is_ascii h" "plain_text h" "\<forall>c \<in> set h. \<not> list_delim c" "TrimSpace h = h"
proof -
  have a: "\<forall>c \<in> set h. code_of c < 0x80 \<and> \<not> is_space (code_of c) \<and> c \<notin> {CHR 0x00, CHR '','', CHR ''_''}"
    using assms by (simp add: host_text_def list_all_iff)
  show "is_ascii h" using a by (simp add: is_ascii_def)
  have s: "is_space (code_of c)" if "c_space c" for c using that by (auto simp: c_space_def is_space_def)
  then show "plain_text h" using a by (auto simp: plain_text_def list_all_iff)
  show "\<forall>c \<in> set h. \<not> list_delim c" using a s by (auto simp: list_delim_def c_space_def)
  have "\<forall>c \<in> set h. \<not> is_space (code_of c)" "\<forall>c \<in> set (rev h). \<not> is_space (code_of c)" using a by auto
  then show "TrimSpace h = h"
    unfolding TrimSpace_ascii [OF \<open>is_ascii h\<close>] by (simp add: dropWhile_none)
qed

lemma list_delim_comma: "list_delim (CHR '','')"
  by (simp add: list_delim_def)

lemma tokens_join:
  "\<forall>g \<in> set gs. \<forall>c \<in> set g. \<not> list_delim c \<Longrightarrow> tokens list_delim (join '','' gs) = filter (\<lambda>g. g \<noteq> []) gs"
proof (induction "'','' :: string" gs rule: join.induct)
  case (3 x y ys)
  then show ?case using tokens_run_app [of x list_delim "CHR '',''"] list_delim_comma by auto
qed (auto simp: tokens_run)

lemma tokens_take_join:
  "\<forall>g \<in> set gs. \<forall>c \<in> set g. \<not> list_delim c \<Longrightarrow> t \<in> set (tokens list_delim (take n (join '','' gs))) \<Longrightarrow>
   \<exists>g \<in> set gs. take (length t) g = t"
proof (induction "'','' :: string" gs arbitrary: n rule: join.induct)
  case (2 x)
  then have "\<forall>c \<in> set (take n x). \<not> list_delim c" by (auto dest: in_set_takeD)
  then have "t = take n x" using 2(2) tokens_run [of "take n x" list_delim] by (auto split: if_splits)
  then show ?case by (simp add: min_def)
next
  case (3 x y ys)
  show ?case
  proof (cases "n \<le> length x")
    case True
    have "\<forall>c \<in> set (take n x). \<not> list_delim c" using 3(2) by (auto dest: in_set_takeD)
    then have "t = take n x" using 3(3) True tokens_run [of "take n x" list_delim] by (auto split: if_splits)
    then show ?thesis using True by (simp add: min_def)
  next
    case False
    then have "take n (join '','' (x # y # ys)) = x @ CHR '','' # take (n - Suc (length x)) (join '','' (y # ys))"
      by (simp add: take_Cons' Suc_diff_Suc)
    then have "t \<in> set ((if x = [] then [] else [x]) @ tokens list_delim (take (n - Suc (length x)) (join '','' (y # ys))))"
      using 3(3) tokens_run_app [of x list_delim "CHR '',''"] list_delim_comma 3(2) by (simp del: join.simps)
    then consider "t = x" | "t \<in> set (tokens list_delim (take (n - Suc (length x)) (join '','' (y # ys))))"
      by (auto split: if_splits)
    then show ?thesis
    proof cases
      case 2
      then show ?thesis using 3(1) [of "n - Suc (length x)"] 3(2) by auto
    qed simp
  qed
qed simp

lemma lower_host: "host_text h \<Longrightarrow> norm_host u h = map char_lower h"
  using host_textD [of h] by (simp add: norm_host_def ToLower_ascii)

section \<open>The settings of a client\<close>

lemma apply_kv_other:
  "k \<noteq> ''SKYTAP_SSL_IMPERSONATE_HOSTS'' \<Longrightarrow> kc_imp_hosts (apply_kv k v c) = kc_imp_hosts c"
  "k \<noteq> ''SKYTAP_SSL_KIT_HOSTS'' \<Longrightarrow> kc_kit_hosts (apply_kv k v c) = kc_kit_hosts c"
  "k \<noteq> ''SKYTAP_SSL_IMPERSONATE'' \<Longrightarrow> kc_imp (apply_kv k v c) = kc_imp c"
  "k \<noteq> ''SKYTAP_SSL_PIN'' \<Longrightarrow> kc_pin (apply_kv k v c) = kc_pin c"
  "k \<noteq> ''SKYTAP_SSL_VERIFY'' \<Longrightarrow> kc_verify (apply_kv k v c) = kc_verify c"
  "k \<noteq> ''SKYTAP_SSL_ORIGIN_CERT_DIR'' \<Longrightarrow> kc_origdir (apply_kv k v c) = kc_origdir c"
  unfolding apply_kv_def by simp_all

lemma apply_kv_own:
  "kc_imp_hosts (apply_kv ''SKYTAP_SSL_IMPERSONATE_HOSTS'' v c) = strncpy v 2047"
  "kc_kit_hosts (apply_kv ''SKYTAP_SSL_KIT_HOSTS'' v c) = strncpy v 2047"
  "kc_imp (apply_kv ''SKYTAP_SSL_IMPERSONATE'' v c) = strncpy v 7"
  "kc_pin (apply_kv ''SKYTAP_SSL_PIN'' v c) = strncpy v 31"
  "kc_verify (apply_kv ''SKYTAP_SSL_VERIFY'' v c) = strncpy v 15"
  "kc_origdir (apply_kv ''SKYTAP_SSL_ORIGIN_CERT_DIR'' v c) = strncpy v 511"
  unfolding apply_kv_def by simp_all

lemma from_env_other:
  "n \<noteq> ''SKYTAP_SSL_IMPERSONATE_HOSTS'' \<Longrightarrow> kc_imp_hosts (from_env e n c) = kc_imp_hosts c"
  "n \<noteq> ''SKYTAP_SSL_KIT_HOSTS'' \<Longrightarrow> kc_kit_hosts (from_env e n c) = kc_kit_hosts c"
  "n \<noteq> ''SKYTAP_SSL_IMPERSONATE'' \<Longrightarrow> kc_imp (from_env e n c) = kc_imp c"
  "n \<noteq> ''SKYTAP_SSL_PIN'' \<Longrightarrow> kc_pin (from_env e n c) = kc_pin c"
  "n \<noteq> ''SKYTAP_SSL_VERIFY'' \<Longrightarrow> kc_verify (from_env e n c) = kc_verify c"
  "n \<noteq> ''SKYTAP_SSL_ORIGIN_CERT_DIR'' \<Longrightarrow> kc_origdir (from_env e n c) = kc_origdir c"
  by (cases "e n"; simp add: from_env_def apply_kv_other)+

lemma from_env_own:
  "kc_imp_hosts (from_env e ''SKYTAP_SSL_IMPERSONATE_HOSTS'' c) = (case e ''SKYTAP_SSL_IMPERSONATE_HOSTS'' of None \<Rightarrow> kc_imp_hosts c | Some v \<Rightarrow> strncpy v 2047)"
  "kc_kit_hosts (from_env e ''SKYTAP_SSL_KIT_HOSTS'' c) = (case e ''SKYTAP_SSL_KIT_HOSTS'' of None \<Rightarrow> kc_kit_hosts c | Some v \<Rightarrow> strncpy v 2047)"
  "kc_imp (from_env e ''SKYTAP_SSL_IMPERSONATE'' c) = (case e ''SKYTAP_SSL_IMPERSONATE'' of None \<Rightarrow> kc_imp c | Some v \<Rightarrow> strncpy v 7)"
  "kc_pin (from_env e ''SKYTAP_SSL_PIN'' c) = (case e ''SKYTAP_SSL_PIN'' of None \<Rightarrow> kc_pin c | Some v \<Rightarrow> strncpy v 31)"
  "kc_verify (from_env e ''SKYTAP_SSL_VERIFY'' c) = (case e ''SKYTAP_SSL_VERIFY'' of None \<Rightarrow> kc_verify c | Some v \<Rightarrow> strncpy v 15)"
  "kc_origdir (from_env e ''SKYTAP_SSL_ORIGIN_CERT_DIR'' c) = (case e ''SKYTAP_SSL_ORIGIN_CERT_DIR'' of None \<Rightarrow> kc_origdir c | Some v \<Rightarrow> strncpy v 511)"
  unfolding from_env_def by (simp_all add: apply_kv_own split: option.splits)

lemmas from_env_select = from_env_other from_env_own

text \<open>The variables that the image of the kit sets to its defaults, and does not set.\<close>

definition kit_env :: "c_env \<Rightarrow> bool" where
  "kit_env e \<longleftrightarrow> e ''SKYTAP_SSL_IMPERSONATE_HOSTS'' = None \<and> e ''SKYTAP_SSL_KIT_HOSTS'' = None
     \<and> e ''SKYTAP_SSL_IMPERSONATE'' \<in> {None, Some ''on''} \<and> e ''SKYTAP_SSL_PIN'' \<in> {None, Some ''off''}
     \<and> e ''SKYTAP_SSL_VERIFY'' \<in> {None, Some ''ca''}
     \<and> e ''SKYTAP_SSL_ORIGIN_CERT_DIR'' \<in> {None, Some ''/certs/origin-cache''}"

lemma strncpy_short: "strncpy ''off'' 31 = ''off''" "strncpy ''ca'' 15 = ''ca''" "strncpy ''on'' 7 = ''on''"
  "strncpy ''/certs/origin-cache'' 511 = ''/certs/origin-cache''"
  by (simp_all add: strncpy_def)

lemma load_settings_select:
  assumes "list_all plain_policy ps" "ReadFile s ''/certs/skytap-ssl.conf'' = Some (conf_text ps)" "kit_env e"
  shows "kc_imp_hosts (load_settings e s) = take 738 (imp_list ps)"
    and "kc_kit_hosts (load_settings e s) = take 746 (kit_list ps)"
    and "kc_imp (load_settings e s) = (if e ''SKYTAP_SSL_IMPERSONATE'' = None then boolEnv (list_ex hp_Impersonate ps) else ''on'')"
    and "kc_origdir (load_settings e s) = ''/certs/origin-cache''"
    and "ReadFile s ''/etc/skytap-ssl.conf'' = None \<Longrightarrow> kc_pin (load_settings e s) = ''off'' \<and> kc_verify (load_settings e s) = ''ca''"
proof -
  define c0 where "c0 = load_conf (ReadFile s ''/etc/skytap-ssl.conf'') kit_defaults"
  define c1 where "c1 = load_conf (Some (conf_text ps)) c0"
  define c2 where "c2 = foldl (\<lambda>c n. from_env e n c) c1
    [''SKYTAP_SSL_PIN'', ''SKYTAP_SSL_CA'', ''SKYTAP_SSL_PROXY'', ''SKYTAP_SSL_VERIFY'', ''SKYTAP_SSL_PIN_OVERRIDE'', ''SKYTAP_SSL_KEYLOG'']"
  define c3 where "c3 = (case e ''SSLKEYLOGFILE'' of
      Some v \<Rightarrow> if kc_keylog c2 = [] then c2\<lparr>kc_keylog := strncpy v 511\<rparr> else c2 | None \<Rightarrow> c2)"
  have l: "load_settings e s = foldl (\<lambda>c n. from_env e n c) c3
      [''SKYTAP_SSL_IMPERSONATE'', ''SKYTAP_SSL_ORIGIN_CERT_DIR'', ''SKYTAP_SSL_IMPERSONATE_HOSTS'', ''SKYTAP_SSL_KIT_HOSTS'']"
    unfolding load_settings_def Let_def assms(2) c3_def c2_def c1_def c0_def ..
  have c3: "kc_imp_hosts c3 = kc_imp_hosts c2" "kc_kit_hosts c3 = kc_kit_hosts c2" "kc_imp c3 = kc_imp c2"
    "kc_pin c3 = kc_pin c2" "kc_verify c3 = kc_verify c2" "kc_origdir c3 = kc_origdir c2"
    by (auto simp: c3_def split: option.splits)
  have c2: "kc_imp_hosts c2 = kc_imp_hosts c1" "kc_kit_hosts c2 = kc_kit_hosts c1" "kc_imp c2 = kc_imp c1"
    "kc_origdir c2 = kc_origdir c1"
    by (simp_all add: c2_def from_env_select)
  note c1 = c1_def [unfolded load_conf_text [OF assms(1)]]
  show "kc_imp_hosts (load_settings e s) = take 738 (imp_list ps)"
    "kc_kit_hosts (load_settings e s) = take 746 (kit_list ps)"
    using assms(3) by (simp_all add: l from_env_select c3 c2 c1 kit_env_def)
  show "kc_imp (load_settings e s) = (if e ''SKYTAP_SSL_IMPERSONATE'' = None then boolEnv (list_ex hp_Impersonate ps) else ''on'')"
    using assms(3) by (auto simp: l from_env_select c3 c2 c1 kit_env_def strncpy_short)
  have "e ''SKYTAP_SSL_ORIGIN_CERT_DIR'' = None \<or> e ''SKYTAP_SSL_ORIGIN_CERT_DIR'' = Some ''/certs/origin-cache''"
    using assms(3) by (auto simp: kit_env_def)
  then show "kc_origdir (load_settings e s) = ''/certs/origin-cache''"
    by (elim disjE; simp add: l from_env_select c3 c2 c1 strncpy_short)
  assume "ReadFile s ''/etc/skytap-ssl.conf'' = None"
  then have d: "kc_pin c1 = ''off''" "kc_verify c1 = ''ca''" by (simp_all add: c1 c0_def load_conf_def kit_defaults_def)
  have "e ''SKYTAP_SSL_PIN'' = None \<or> e ''SKYTAP_SSL_PIN'' = Some ''off''"
    "e ''SKYTAP_SSL_VERIFY'' = None \<or> e ''SKYTAP_SSL_VERIFY'' = Some ''ca''"
    using assms(3) by (auto simp: kit_env_def)
  then have "kc_pin c2 = ''off''" "kc_verify c2 = ''ca''"
    by (elim disjE; simp add: c2_def from_env_select strncpy_short d)+
  then show "kc_pin (load_settings e s) = ''off'' \<and> kc_verify (load_settings e s) = ''ca''"
    by (simp add: l from_env_select c3)
qed

section \<open>Freshness\<close>

text \<open>
  The settings are those of the files at a time less than two seconds ago, whatever the queries before.
\<close>

definition fresh :: "c_env \<Rightarrow> (int \<Rightarrow> os) \<Rightarrow> int \<Rightarrow> kit_state \<Rightarrow> bool" where
  "fresh e files now st \<longleftrightarrow> ks_loaded st \<and> now - 2 < ks_at st \<and> ks_at st \<le> now
     \<and> ks_conf st = load_settings e (files (ks_at st))"

definition loads :: "c_env \<Rightarrow> (int \<Rightarrow> os) \<Rightarrow> int list \<Rightarrow> kit_state" where
  "loads e files ts = foldl (\<lambda>st t. load_once e t (files t) st) kit_init ts"

definition once_fresh :: "c_env \<Rightarrow> (int \<Rightarrow> os) \<Rightarrow> int \<Rightarrow> kit_state \<Rightarrow> bool" where
  "once_fresh e files now st \<longleftrightarrow> (ks_loaded st \<longrightarrow> ks_at st \<le> now \<and> ks_conf st = load_settings e (files (ks_at st)))"

lemma fresh_once: "once_fresh e files t st \<Longrightarrow> fresh e files t (load_once e t (files t) st)"
  by (auto simp: once_fresh_def fresh_def load_once_def)

lemma once_fresh_later: "fresh e files t st \<Longrightarrow> t \<le> now \<Longrightarrow> once_fresh e files now st"
  by (auto simp: once_fresh_def fresh_def)

lemma once_fresh_loads: "sorted (ts @ [now]) \<Longrightarrow> once_fresh e files now (loads e files ts)"
proof (induction ts arbitrary: now rule: rev_induct)
  case Nil
  then show ?case by (simp add: loads_def once_fresh_def kit_init_def)
next
  case (snoc t ts)
  have "sorted (ts @ [t])" "t \<le> now" using snoc.prems by (auto simp: sorted_append)
  then show ?case
    using snoc.IH [of t] once_fresh_later [OF fresh_once] by (simp add: loads_def)
qed

lemma fresh_query:
  assumes "sorted (ts @ [t1, t2])"
  shows "fresh e files t2 (fst (skytap_impersonate_host e files t1 t2 h (loads e files ts)))"
proof -
  have s: "sorted (ts @ [t1])" "t1 \<le> t2" using assms by (auto simp: sorted_append)
  have "once_fresh e files t2 (load_once e t1 (files t1) (loads e files ts))"
    by (rule once_fresh_later [OF fresh_once [OF once_fresh_loads [OF s(1)]] s(2)])
  from fresh_once [OF this] show ?thesis by (simp add: skytap_impersonate_host_def Let_def)
qed

lemma skytap_impersonate_host_conf:
  "snd (skytap_impersonate_host e files t1 t2 h st)
     = impersonate_host (ks_conf (fst (skytap_impersonate_host e files t1 t2 h st))) h"
  by (simp add: skytap_impersonate_host_def impersonate_host_def Let_def)

section \<open>The store and the client\<close>

text \<open>The policies in the order in which \<open>writeClientConf\<close> ranges over them.\<close>

definition kit_policies :: "string map_order \<Rightarrow> SSLKitStore \<Rightarrow> HostSSLPolicy list" where
  "kit_policies ord k = map (\<lambda>h. mgetd zero_policy (kt_hosts k) h) (ord (mkeys (kt_hosts k)))"

lemma writeClientConf_text:
  assumes "os_wfault s (conf_path k) = None" "\<not> os_unreadable s (conf_path k)" "writeClientConf ord s k = (s', None)"
  shows "ReadFile s' (conf_path k) = Some (conf_text (kit_policies ord k))"
proof -
  obtain s1 e where m: "MkdirAll s (conf_dir k) = (s1, e)" by fastforce
  show ?thesis
    using assms m
    by (auto simp: writeClientConf_def kit_policies_def MkdirAll_def WriteFile_ok ReadFile_def split: option.splits if_splits)
qed

lemma conf_path_default: "kt_confDir k = [] \<or> kt_confDir k = ''/certs'' \<Longrightarrow> conf_path k = ''/certs/skytap-ssl.conf''"
  by (auto simp: conf_path_def conf_dir_def Join_name file_name_def path_parts_def path_step_def HasPrefix_def)

text \<open>What \<open>Put\<close> leaves in the shared directory.\<close>

lemma Put_text:
  assumes "kt_dataDir k \<noteq> []" "kit_Put u T ord s k p = (s', k', q)"
    and "os_wfault s (conf_path k) = None" "\<not> os_unreadable s (conf_path k)" "\<not> os_dfault s (conf_dir k)"
  shows "ReadFile s' (conf_path k) = Some (conf_text (kit_policies ord k'))"
proof -
  have fr: "kt_dataDir k' = kt_dataDir k" "kt_confDir k' = kt_confDir k" and s': "s' = kit_persist ord s k'"
    using assms(2) by (auto simp: kit_Put_def Let_def split: prod.splits dest!: refresh_store)
  have path: "conf_path k' = conf_path k" "conf_dir k' = conf_dir k" using fr by (simp_all add: conf_path_def conf_dir_def)
  define s2 where "s2 = fst (WriteFile (fst (MkdirAll s (kt_dataDir k'))) (kit_path k') (kit_text k'))"
  have s2: "os_wfault s2 = os_wfault s" "os_unreadable s2 = os_unreadable s" "os_dfault s2 = os_dfault s"
    by (simp_all add: s2_def MkdirAll_def)
  have "writeClientConf ord s2 k' = (fst (writeClientConf ord s2 k'), None)"
    using assms(3,5) by (simp add: writeClientConf_def MkdirAll_def s2 path WriteFile_ok)
  from writeClientConf_text [OF _ _ this] have "ReadFile (fst (writeClientConf ord s2 k')) (conf_path k) = Some (conf_text (kit_policies ord k'))"
    using assms(3,4) by (simp add: s2 path)
  then show ?thesis using assms(1) by (simp add: s' kit_persist_def Let_def s2_def fr)
qed

lemma set_kit_policies:
  assumes "kit_ok k" "is_map_order ord"
  shows "p \<in> set (kit_policies ord k) \<longleftrightarrow> mget (kt_hosts k) (hp_Host p) = Some p"
proof
  assume "p \<in> set (kit_policies ord k)"
  then obtain h where "h \<in> set (mkeys (kt_hosts k))" "p = mgetd zero_policy (kt_hosts k) h"
    using assms(2) by (auto simp: kit_policies_def map_order_set)
  then show "mget (kt_hosts k) (hp_Host p) = Some p"
    using assms(1) mget_None_iff [of "kt_hosts k" h] by (auto simp: kit_ok_def mgetd_def)
next
  assume p: "mget (kt_hosts k) (hp_Host p) = Some p"
  then have "hp_Host p \<in> set (ord (mkeys (kt_hosts k)))"
    using assms(2) by (simp add: map_order_set mget_SomeD)
  moreover have "p = mgetd zero_policy (kt_hosts k) (hp_Host p)" using p by (simp add: mgetd_def)
  ultimately show "p \<in> set (kit_policies ord k)" unfolding kit_policies_def by (metis image_eqI set_map)
qed

text \<open>Policies of hosts written as \<open>host_text\<close> in lower case, with modes that end no line.\<close>

definition dns_policy :: "HostSSLPolicy \<Rightarrow> bool" where
  "dns_policy p \<longleftrightarrow> plain_policy p \<and> host_text (hp_Host p) \<and> map char_lower (hp_Host p) = hp_Host p"

lemma ImpersonateEnabled_policies:
  assumes "kit_ok k" "is_map_order ord" "list_all dns_policy (kit_policies ord k)" "host_text h"
  shows "ImpersonateEnabled u k h \<longleftrightarrow>
    (\<exists>p \<in> set (kit_policies ord k). hp_Impersonate p \<and> strcasecmp_eq (hp_Host p) h)"
proof -
  have eq: "strcasecmp_eq (hp_Host p) h \<longleftrightarrow> hp_Host p = map char_lower h" if "p \<in> set (kit_policies ord k)" for p
    using assms(3) that by (auto simp: list_all_iff dns_policy_def strcasecmp_eq_def)
  have "ImpersonateEnabled u k h \<longleftrightarrow> (\<exists>p. mget (kt_hosts k) (map char_lower h) = Some p \<and> hp_Impersonate p)"
    by (auto simp: ImpersonateEnabled_def lower_host [OF assms(4)] split: option.splits)
  also have "\<dots> \<longleftrightarrow> (\<exists>p \<in> set (kit_policies ord k). hp_Host p = map char_lower h \<and> hp_Impersonate p)"
    using set_kit_policies [OF assms(1,2)] assms(1) by (metis kit_ok_def)
  finally show ?thesis using eq by auto
qed

lemma impersonate_host_policies:
  assumes "list_all dns_policy ps" "ReadFile s ''/certs/skytap-ssl.conf'' = Some (conf_text ps)" "kit_env e" "h \<noteq> []"
    and "length (imp_list ps) \<le> 738"
  shows "impersonate_host (load_settings e s) h \<longleftrightarrow> (\<exists>p \<in> set ps. hp_Impersonate p \<and> strcasecmp_eq (hp_Host p) h)"
proof -
  have pl: "list_all plain_policy ps" using assms(1) by (auto simp: list_all_iff dns_policy_def)
  note sel = load_settings_select [OF pl assms(2,3)]
  have l: "kc_imp_hosts (load_settings e s) = imp_list ps" using sel(1) assms(5) by simp
  have "\<forall>g \<in> set (map hp_Host (filter hp_Impersonate ps)). \<forall>c \<in> set g. \<not> list_delim c"
    using assms(1) host_textD(3) by (fastforce simp: list_all_iff dns_policy_def)
  then have t: "tokens list_delim (imp_list ps) = filter (\<lambda>g. g \<noteq> []) (map hp_Host (filter hp_Impersonate ps))"
    unfolding imp_list_def by (rule tokens_join)
  have "imp_list ps = [] \<Longrightarrow> filter (\<lambda>g. g \<noteq> []) (map hp_Host (filter hp_Impersonate ps)) = []"
    using t by simp
  then have ne: "p \<in> set ps \<Longrightarrow> hp_Impersonate p \<Longrightarrow> hp_Host p \<noteq> [] \<Longrightarrow> imp_list ps \<noteq> []" for p
    by (fastforce simp: filter_empty_conv)
  have on: "impersonate_on (load_settings e s)" if "p \<in> set ps" "hp_Impersonate p" for p
    using sel(3) that by (auto simp: impersonate_on_def boolEnv_def list_ex_iff)
  have "host_in_list (imp_list ps) h \<longleftrightarrow> (\<exists>p \<in> set ps. hp_Impersonate p \<and> hp_Host p \<noteq> [] \<and> strcasecmp_eq (hp_Host p) h)"
    using assms(4,5) ne by (auto simp: host_in_list_def strncpy_def t list_ex_iff)
  moreover have "strcasecmp_eq (hp_Host p) h \<Longrightarrow> hp_Host p \<noteq> []" for p
    using assms(4) by (auto simp: strcasecmp_eq_def)
  ultimately show ?thesis using on by (auto simp: impersonate_host_def l)
qed

text \<open>A query is answered from settings that are less than two seconds old.\<close>

lemma fresh_client:
  assumes "kit_ok k" "is_map_order ord" "list_all dns_policy (kit_policies ord k)" "length (imp_list (kit_policies ord k)) \<le> 738"
    and "\<forall>t. t2 - 2 < t \<and> t \<le> t2 \<longrightarrow> ReadFile (files t) ''/certs/skytap-ssl.conf'' = Some (conf_text (kit_policies ord k))"
    and "kit_env e" "sorted (ts @ [t1, t2])" "host_text h" "h \<noteq> []"
  shows "snd (skytap_impersonate_host e files t1 t2 h (loads e files ts)) \<longleftrightarrow> ImpersonateEnabled u k h"
proof -
  obtain t where t: "t2 - 2 < t" "t \<le> t2"
    "ks_conf (fst (skytap_impersonate_host e files t1 t2 h (loads e files ts))) = load_settings e (files t)"
    using fresh_query [OF assms(7), of e files h] by (auto simp: fresh_def)
  then have "ReadFile (files t) ''/certs/skytap-ssl.conf'' = Some (conf_text (kit_policies ord k))" using assms(5) by blast
  from impersonate_host_policies [OF assms(3) this assms(6,9,4)] show ?thesis
    unfolding skytap_impersonate_host_conf t(3) ImpersonateEnabled_policies [OF assms(1-3,8)] .
qed

lemma join_snoc: "gs \<noteq> [] \<Longrightarrow> join sep (gs @ [h]) = join sep gs @ sep @ h"
  by (induction sep gs rule: join.induct) auto

section \<open>Properties\<close>

text \<open>
  C14: the client impersonates exactly the hosts that the store says: whatever the client asked before, when
  the file in the shared directory has been what the store wrote for the last two seconds, its answer for a
  host in any case of letters is that of the store's own \<open>ImpersonateEnabled\<close>. This holds for hosts, of the
  policies and of the question, in ASCII without blanks, commas, underscores and NUL, policies whose modes hold
  no blank, line break, underscore or NUL, a list of impersonated hosts of at most 738 bytes (C16), and a client whose
  environment does not override the settings of the image.
\<close>

theorem client_follows_store:
  assumes "kit_ok k" "is_map_order ord" "list_all dns_policy (kit_policies ord k)" "length (imp_list (kit_policies ord k)) \<le> 738"
    and "\<forall>t. t2 - 2 < t \<and> t \<le> t2 \<longrightarrow> ReadFile (files t) ''/certs/skytap-ssl.conf'' = Some (conf_text (kit_policies ord k))"
    and "kit_env e" "sorted (ts @ [t1, t2])" "host_text h" "h \<noteq> []"
  shows "snd (skytap_impersonate_host e files t1 t2 h (loads e files ts)) \<longleftrightarrow> ImpersonateEnabled u k h"
  by (rule fresh_client [OF assms])

definition ex_client_kit :: SSLKitStore where
  "ex_client_kit = \<lparr>kt_dataDir = ''/data'', kt_confDir = ''/certs'',
     kt_hosts = [(''a.test'', zero_policy\<lparr>hp_Host := ''a.test'', hp_Impersonate := True, hp_Pin := ''off'', hp_Verify := ''ca''\<rparr>),
       (''b.test'', zero_policy\<lparr>hp_Host := ''b.test'', hp_Pin := ''on'', hp_Verify := ''none''\<rparr>)]\<rparr>"

definition ex_client_env :: c_env where
  "ex_client_env n = (if n = ''SKYTAP_SSL_IMPERSONATE'' then Some ''on'' else None)"

lemma ex_client:
  "kit_ok ex_client_kit" "kit_env ex_client_env"
  "kit_policies rev ex_client_kit = [zero_policy\<lparr>hp_Host := ''b.test'', hp_Pin := ''on'', hp_Verify := ''none''\<rparr>,
     zero_policy\<lparr>hp_Host := ''a.test'', hp_Impersonate := True, hp_Pin := ''off'', hp_Verify := ''ca''\<rparr>]"
  by (auto simp: kit_ok_def ex_client_kit_def mok_def mkeys_def mget_def mgetd_def kit_env_def ex_client_env_def
      kit_policies_def split: if_splits)

lemma ex_client_policies:
  "list_all dns_policy (kit_policies rev ex_client_kit)" "length (imp_list (kit_policies rev ex_client_kit)) \<le> 738"
  by (simp_all add: ex_client dns_policy_def plain_policy_def host_text_def zero_policy_def c_space_def is_space_def
      char_lower_def ascii_lower_def char_of_def bit_0 imp_list_def)

definition ex_client_os :: "os \<Rightarrow> os" where
  "ex_client_os s = s\<lparr>os_files := [(''/certs/skytap-ssl.conf'', conf_text (kit_policies rev ex_client_kit))],
     os_unreadable := (\<lambda>p. False)\<rparr>"

lemma ex_client_os_read:
  "ReadFile (ex_client_os s) ''/certs/skytap-ssl.conf'' = Some (conf_text (kit_policies rev ex_client_kit))"
  "ReadFile (ex_client_os s) ''/etc/skytap-ssl.conf'' = None"
  by (simp_all add: ex_client_os_def ReadFile_def mget_def)

theorem client_follows_store_witness:
  "snd (skytap_impersonate_host ex_client_env (\<lambda>t. ex_client_os ex_os) 5 6 ''A.test'' (loads ex_client_env (\<lambda>t. ex_client_os ex_os) [1, 4]))
   \<and> \<not> snd (skytap_impersonate_host ex_client_env (\<lambda>t. ex_client_os ex_os) 5 6 ''b.test'' (loads ex_client_env (\<lambda>t. ex_client_os ex_os) [1, 4]))"
proof -
  have h: "host_text ''A.test''" "host_text ''b.test''" by (simp_all add: host_text_def is_space_def)
  have s: "sorted ([1, 4] @ [5, 6 :: int])" by simp
  have i: "ImpersonateEnabled ex_unicode ex_client_kit ''A.test''" "\<not> ImpersonateEnabled ex_unicode ex_client_kit ''b.test''"
    by (simp_all add: ImpersonateEnabled_def lower_host [OF h(1)] lower_host [OF h(2)] ex_client_kit_def mget_def zero_policy_def
        char_lower_def ascii_lower_def char_of_def bit_0)
  show ?thesis
    using client_follows_store [OF ex_client(1) is_map_order_rev ex_client_policies _ ex_client(2) s h(1), of "\<lambda>t. ex_client_os ex_os" ex_unicode]
      client_follows_store [OF ex_client(1) is_map_order_rev ex_client_policies _ ex_client(2) s h(2), of "\<lambda>t. ex_client_os ex_os" ex_unicode]
      i ex_client_os_read(1) by simp
qed

text \<open>
  C13: a policy reaches the clients: two seconds after \<open>Put\<close> has written the shared file, and as long as it
  stays so, a client that shares the directory and whose environment does not override the settings of the
  image impersonates the host of the policy, in any case of letters, exactly when the policy says so. The hosts
  of all policies are in ASCII without blanks, commas, underscores and NUL, their modes hold no blank, line
  break, underscore or NUL, and the list of impersonated hosts has at most 738 bytes (C16).
\<close>

theorem put_reaches_clients:
  assumes "kit_ok k" "is_map_order ord" "kit_Put u T ord s k p = (s', k', q)" "kt_dataDir k \<noteq> []" "kt_confDir k = ''/certs''"
    and "os_wfault s ''/certs/skytap-ssl.conf'' = None" "\<not> os_unreadable s ''/certs/skytap-ssl.conf''" "\<not> os_dfault s ''/certs''"
    and "list_all dns_policy (kit_policies ord k')" "length (imp_list (kit_policies ord k')) \<le> 738"
    and "\<forall>t. t2 - 2 < t \<and> t \<le> t2 \<longrightarrow> ReadFile (files t) ''/certs/skytap-ssl.conf'' = ReadFile s' ''/certs/skytap-ssl.conf''"
    and "kit_env e" "sorted (ts @ [t1, t2])" "host_text h" "h \<noteq> []" "norm_host u h = hp_Host q"
  shows "snd (skytap_impersonate_host e files t1 t2 h (loads e files ts)) \<longleftrightarrow> hp_Impersonate p"
proof -
  have path: "conf_path k = ''/certs/skytap-ssl.conf''" "conf_dir k = ''/certs''"
    using assms(5) by (simp_all add: conf_path_default conf_dir_def)
  have "ReadFile s' ''/certs/skytap-ssl.conf'' = Some (conf_text (kit_policies ord k'))"
    using Put_text [OF assms(4,3)] assms(6-8) by (simp add: path)
  with fresh_client [OF kit_ok_Put [OF assms(1,3)] assms(2,9,10) _ assms(12-15), of files u] assms(11)
  have "snd (skytap_impersonate_host e files t1 t2 h (loads e files ts)) \<longleftrightarrow> ImpersonateEnabled u k' h" by simp
  then show ?thesis using put_policy_effect [OF assms(3), of h] assms(16) by blast
qed

theorem put_reaches_clients_witness:
  "\<exists>s' k' q. kit_Put ex_unicode ex_tls rev ex_os ex_kit (zero_policy\<lparr>hp_Host := ''a.TEST'', hp_Impersonate := True\<rparr>) = (s', k', q)
     \<and> snd (skytap_impersonate_host ex_client_env (\<lambda>t. if t < 5 then ex_os else s') 7 7 ''A.test''
         (loads ex_client_env (\<lambda>t. if t < 5 then ex_os else s') [4]))"
proof -
  define q where "q = zero_policy\<lparr>hp_Host := ''a.test'', hp_Impersonate := True, hp_Pin := ''off'', hp_Verify := ''ca''\<rparr>"
  obtain s' where p: "kit_Put ex_unicode ex_tls rev ex_os ex_kit (zero_policy\<lparr>hp_Host := ''a.TEST'', hp_Impersonate := True\<rparr>)
      = (s', ex_kit\<lparr>kt_hosts := [(''a.test'', q)]\<rparr>, q)"
    by (simp add: kit_Put_def policy_defaults_def Let_def norm_ascii_simps refresh_def ReadFile_def ex_tls_def ex_os_def
      ex_kit_def zero_policy_def mput_def q_def split: prod.splits)
  have ps: "kit_policies rev (ex_kit\<lparr>kt_hosts := [(''a.test'', q)]\<rparr>) = [q]"
    by (simp add: kit_policies_def mkeys_def mgetd_def mget_def)
  have d: "list_all dns_policy [q]" "length (imp_list [q]) \<le> 738"
    by (simp_all add: q_def dns_policy_def plain_policy_def host_text_def zero_policy_def c_space_def is_space_def
      char_lower_def ascii_lower_def char_of_def bit_0 imp_list_def)
  have h: "host_text ''A.test''" by (simp add: host_text_def is_space_def)
  have n: "norm_host ex_unicode ''A.test'' = hp_Host q"
    by (simp add: lower_host [OF h] q_def zero_policy_def char_lower_def ascii_lower_def char_of_def bit_0)
  have k: "kit_ok ex_kit" "kt_dataDir ex_kit \<noteq> []" "kt_confDir ex_kit = ''/certs''" by (simp_all add: ex_kit_def kit_ok_def)
  have "snd (skytap_impersonate_host ex_client_env (\<lambda>t. if t < 5 then ex_os else s') 7 7 ''A.test''
         (loads ex_client_env (\<lambda>t. if t < 5 then ex_os else s') [4]))
      \<longleftrightarrow> hp_Impersonate (zero_policy\<lparr>hp_Host := ''a.TEST'', hp_Impersonate := True\<rparr>)"
    by (rule put_reaches_clients [OF k(1) is_map_order_rev p k(2,3) _ _ _ _ _ _ ex_client(2) _ h _ n])
      (use d in \<open>simp_all add: ps ex_os_def\<close>)
  then show ?thesis using p by auto
qed

text \<open>
  C15: the modes of pinning and verification that the store keeps for each host do not reach the libraries: they
  are written as \<open>SKYTAP_SSL_PIN_BY_HOST\<close> and \<open>SKYTAP_SSL_VERIFY_BY_HOST\<close>, which the client does not know. With
  policies whose texts hold no blank, line break, NUL or underscore, such as the modes that the page offers, no
  file \<open>/etc/skytap-ssl.conf\<close> and the environment of the image, the client ignores pins and verifies
  certificates, whichever of these modes are set. (A text with a line break adds settings of its own, see
  \<open>policy_can_inject_config\<close>.)
\<close>

theorem policy_modes_are_ignored:
  assumes "list_all plain_policy ps" "ReadFile s ''/certs/skytap-ssl.conf'' = Some (conf_text ps)"
    and "ReadFile s ''/etc/skytap-ssl.conf'' = None" "kit_env e"
  shows "pin_is_off (load_settings e s) \<and> \<not> verify_is_none (load_settings e s)"
  using load_settings_select(5) [OF assms(1,2,4,3)] by (simp add: pin_is_off_def verify_is_none_def)

theorem policy_modes_are_ignored_witness:
  "hp_Pin (hd (kit_policies rev ex_client_kit)) = ''on'' \<and> hp_Verify (hd (kit_policies rev ex_client_kit)) = ''none''
   \<and> pin_is_off (load_settings ex_client_env (ex_client_os ex_os)) \<and> \<not> verify_is_none (load_settings ex_client_env (ex_client_os ex_os))"
proof -
  have "list_all plain_policy (kit_policies rev ex_client_kit)"
    using ex_client_policies(1) by (auto simp: list_all_iff dns_policy_def)
  from policy_modes_are_ignored [OF this ex_client_os_read ex_client(2)] show ?thesis by (simp add: ex_client)
qed

text \<open>
  C16: a long list is cut: the client reads 767 bytes of a line, so that the hosts behind the first 738 bytes of
  the list are not impersonated although the store has them enabled.
\<close>

theorem long_host_list_is_cut:
  assumes "kit_ok k" "is_map_order ord" "list_all dns_policy (kit_policies ord k)"
    and "ReadFile s ''/certs/skytap-ssl.conf'' = Some (conf_text (kit_policies ord k))" "kit_env e"
    and "map hp_Host (filter hp_Impersonate (kit_policies ord k)) = gs @ [h]" "738 \<le> length (join '','' gs)"
    and "list_all (\<lambda>g. take (length h) g \<noteq> h) gs"
  shows "ImpersonateEnabled u k h \<and> \<not> impersonate_host (load_settings e s) h"
proof
  let ?ps = "kit_policies ord k"
  have pl: "list_all plain_policy ?ps" using assms(3) by (auto simp: list_all_iff dns_policy_def)
  have eq: "set gs \<union> {h} = hp_Host ` {p \<in> set ?ps. hp_Impersonate p}"
    using arg_cong [OF assms(6), of set] by simp
  have hs: "\<exists>p \<in> set ?ps. hp_Impersonate p \<and> hp_Host p = g" if "g \<in> set gs \<union> {h}" for g
    using that unfolding eq by blast
  have dns: "host_text g \<and> map char_lower g = g" if g: "g \<in> set gs \<union> {h}" for g
  proof -
    obtain p where "p \<in> set ?ps" "hp_Host p = g" using hs [OF g] by blast
    then show ?thesis using assms(3) by (auto simp: list_all_iff dns_policy_def)
  qed
  have h: "host_text h" "map char_lower h = h" using dns [of h] by simp_all
  show "ImpersonateEnabled u k h"
    using ImpersonateEnabled_policies [OF assms(1-3) h(1)] hs [of h] by (auto simp: strcasecmp_eq_def)
  have "gs \<noteq> []" using assms(7) by auto
  then have j: "take 738 (imp_list ?ps) = take 738 (join '','' gs)"
    using assms(7) join_snoc [of gs "'',''" h] by (simp add: imp_list_def assms(6))
  show "\<not> impersonate_host (load_settings e s) h"
  proof
    assume "impersonate_host (load_settings e s) h"
    then have "list_ex (\<lambda>t. strcasecmp_eq t h) (tokens list_delim (take 738 (join '','' gs)))"
      using load_settings_select(1) [OF pl assms(4,5)] j by (simp add: impersonate_host_def host_in_list_def strncpy_def)
    then obtain t where t: "t \<in> set (tokens list_delim (take 738 (join '','' gs)))" "strcasecmp_eq t h"
      by (auto simp: list_ex_iff)
    have "\<forall>g \<in> set gs. \<forall>c \<in> set g. \<not> list_delim c" using dns host_textD(3) by blast
    from tokens_take_join [OF this t(1)] obtain g where g: "g \<in> set gs" "take (length t) g = t" by blast
    have "map char_lower t = take (length t) (map char_lower g)" using arg_cong [OF g(2), of "map char_lower"] by (simp add: take_map)
    then have "t = h" using t(2) g dns [of g] h(2) by (simp add: strcasecmp_eq_def)
    then show False using assms(8) g by (auto simp: list_all_iff)
  qed
qed

definition ex_long_kit :: "string \<Rightarrow> SSLKitStore" where
  "ex_long_kit a = \<lparr>kt_dataDir = ''/data'', kt_confDir = ''/certs'',
     kt_hosts = map (\<lambda>h. (h, zero_policy\<lparr>hp_Host := h, hp_Impersonate := True\<rparr>)) [a, ''b'']\<rparr>"

theorem long_host_list_is_cut_witness:
  "\<exists>a s. length a = 738 \<and> ImpersonateEnabled ex_unicode (ex_long_kit a) ''b''
     \<and> \<not> impersonate_host (load_settings ex_client_env s) ''b''"
proof -
  obtain a where a: "length a = 738" "set a \<subseteq> {CHR ''a''}"
    using length_replicate [of 738 "CHR ''a''"] set_replicate_conv_if [of 738 "CHR ''a''"] by (metis order_refl subset_singleton_iff)
  have ne: "a \<noteq> ''b''" "''b'' \<noteq> a" "take 1 a \<noteq> ''b''" using a by (cases a; auto)+
  define s where "s = ex_os\<lparr>os_files := [(''/certs/skytap-ssl.conf'', conf_text (kit_policies (\<lambda>ks. ks) (ex_long_kit a)))],
     os_unreadable := (\<lambda>p. False)\<rparr>"
  have ps: "kit_policies (\<lambda>ks. ks) (ex_long_kit a) =
      [zero_policy\<lparr>hp_Host := a, hp_Impersonate := True\<rparr>, zero_policy\<lparr>hp_Host := ''b'', hp_Impersonate := True\<rparr>]"
    using ne by (simp add: kit_policies_def ex_long_kit_def mkeys_def mgetd_def mget_def)
  have ok: "kit_ok (ex_long_kit a)"
    using ne by (auto simp: kit_ok_def ex_long_kit_def mok_def mkeys_def mget_def split: if_splits)
  have "\<forall>c \<in> set a. code_of c < 0x80 \<and> \<not> is_space (code_of c) \<and> c \<notin> {CHR 0x00, CHR '','', CHR ''_''}"
    using a(2) by (auto simp: is_space_def)
  then have h: "host_text a" by (simp add: host_text_def list_all_iff)
  have "map char_lower a = map (\<lambda>c. c) a"
    by (rule map_cong) (use a(2) in \<open>auto simp: char_lower_def ascii_lower_def\<close>)
  then have "dns_policy (zero_policy\<lparr>hp_Host := a, hp_Impersonate := True\<rparr>)"
    using h host_textD(2) [OF h] by (simp add: dns_policy_def plain_policy_def zero_policy_def)
  moreover have "dns_policy (zero_policy\<lparr>hp_Host := ''b'', hp_Impersonate := True\<rparr>)"
    by (simp add: dns_policy_def plain_policy_def host_text_def zero_policy_def c_space_def is_space_def char_lower_def ascii_lower_def char_of_def bit_0)
  ultimately have dns: "list_all dns_policy (kit_policies (\<lambda>ks. ks) (ex_long_kit a))" by (simp add: ps)
  have r: "ReadFile s ''/certs/skytap-ssl.conf'' = Some (conf_text (kit_policies (\<lambda>ks. ks) (ex_long_kit a)))"
    by (simp add: s_def ReadFile_def mget_def)
  have "map hp_Host (filter hp_Impersonate (kit_policies (\<lambda>ks. ks) (ex_long_kit a))) = [a] @ [''b'']" by (simp add: ps)
  from long_host_list_is_cut [OF ok is_map_order_id dns r ex_client(2) this, of ex_unicode] a(1) ne(3) show ?thesis by auto
qed

text \<open>
  When no host has the kit the list is empty, and an empty list stands for every host: switching the kit off for
  the last host switches it on for all.
\<close>

lemma no_kit_hosts_means_every_host:
  assumes "list_all plain_policy ps" "ReadFile s ''/certs/skytap-ssl.conf'' = Some (conf_text ps)" "kit_env e"
    and "\<not> list_ex hp_Kit ps"
  shows "kit_host (load_settings e s) h"
proof -
  have "filter hp_Kit ps = []" using assms(4) by (auto simp: list_ex_iff filter_empty_conv)
  then show ?thesis
    using load_settings_select(2) [OF assms(1-3)] by (simp add: kit_host_def kit_list_def)
qed

text \<open>
  The chain that the proxy has dumped for a host is looked for where it is, when the proxy dumps into its default
  directory: the exported directory is a constant, so that with \<open>SKYTAP_ORIGIN_CERT_DIR\<close> set for the proxy the
  client looks for the chains in a directory without them.
\<close>

lemma chains_are_looked_for_in_the_default:
  assumes "list_all plain_policy ps" "ReadFile s ''/certs/skytap-ssl.conf'' = Some (conf_text ps)" "kit_env e"
    and "CHR ''/'' \<notin> set host" "length host < 700"
  shows "origin_chain_path (load_settings e s) host = ''/certs/origin-cache/'' @ host @ ''.pem''"
    and "tl_dump_dir T = ''/certs/origin-cache'' \<Longrightarrow> pem_path T host = origin_chain_path (load_settings e s) host"
proof -
  show o: "origin_chain_path (load_settings e s) host = ''/certs/origin-cache/'' @ host @ ''.pem''"
    using load_settings_select(4) [OF assms(1-3)] assms(5) by (simp add: origin_chain_path_def)
  have "file_name (host @ ''.pem'')" using assms(4) by (cases host) (auto simp: file_name_def)
  then show "tl_dump_dir T = ''/certs/origin-cache'' \<Longrightarrow> pem_path T host = origin_chain_path (load_settings e s) host"
    by (simp add: o pem_path_def Join_name path_parts_def path_step_def HasPrefix_def)
qed

end
