(* ===== verification/Spec2Isabelle.thy ===== *)
theory Spec2Isabelle
  imports Process Saves Fanout Feed Lookups Client_Kit Render Rewrite Json_Valid
begin

text \<open>
  skytap: an intercepting proxy with an admin API. This development models the Go program under \<open>src/\<close> and
  proves what its parts promise, alone and together.

  \<^bold>\<open>The program.\<close> Connections reach the proxy by redirection, by HTTP CONNECT or by SOCKS5. The engine (a
  third-party module) asks the application for each connection whether to pass it through or to decrypt it
  (\<open>App.OnConnect\<close>), for each decrypted request whether to forward, change or answer it
  (\<open>App.OnRequest\<close>), and reports each finished exchange (\<open>App.OnFlow\<close>). The decision is made from the state of the
  host in the registry (OBSERVED, INTERCEPTED, MOCKED) and from the rules. Operators change both through the
  admin API or through MCP, which save the result as JSON files, and watch the flows over WebSockets. At the
  start the files are loaded again.

  \<^bold>\<open>Theories and sources\<close>, in the order in which they depend on each other:
  \<^item> \<open>Skytap_Prelude\<close>: Go values, Go maps with a free iteration order, the interfaces \<open>keyed_store\<close>,
    \<open>enum_store\<close> (tables) and \<open>terminating\<close> (step relations that end); \<open>Go_Text\<close>, \<open>Go_Utf8\<close>, \<open>Go_Http\<close>, \<open>Go_Reply\<close>, \<open>Go_Os\<close>, \<open>Go_Net\<close>, \<open>Go_Json\<close>, \<open>Go_Codec\<close>,
    \<open>Go_Decode\<close>: what the program uses of Go's standard library (strings, UTF-8, queries and headers,
    responses, files, addresses, JSON, base64 and hashes, decoding into structs); \<open>Go_Json_Facts\<close> and
    \<open>Json_Valid\<close>: printing and parsing JSON are inverse, and decoded text is valid.
  \<^item> \<open>Registry\<close>: registry.go. The record \<open>registry\<close> is \<open>Registry\<close>, one definition per method.
  \<^item> \<open>Rules\<close>, \<open>Script\<close>, \<open>Render\<close>, \<open>Rewrite\<close>: rules.go: storing and matching rules; the builtins of scripts;
    markers, templates and responses; request rewriting and the JSON of rules.
  \<^item> \<open>Flow_View\<close>: the views of flows (first part of mcp.go); \<open>Ws\<close>: ws.go; \<open>Hub\<close>: hub.go.
  \<^item> \<open>Config\<close>: config.go; \<open>Sslkit\<close>, \<open>Sslkit_Facts\<close>: sslkit.go; \<open>App\<close>: app.go.
  \<^item> \<open>Mcp\<close>: the MCP endpoint (second part of mcp.go); \<open>Ca_Trust\<close>: ca_trust.go; \<open>Flags\<close>: the parsing functions
    of main.go; \<open>Relay\<close>, \<open>Proxy\<close>: proxy.go, with the relay of plain requests as two copies that interleave;
    \<open>Admin\<close>, \<open>Admin_Facts\<close>: admin.go, one \<open>h_\<close> definition per route.
  \<^item> \<open>Server\<close>: the parts running together, as a step relation on callbacks, requests and closed WebSockets;
    \<open>Startup\<close>: \<open>main\<close>, from the flags to the started parts; \<open>Process\<close>: the listeners, accept loops, the signal
    and the ends of the process, around the steps of \<open>Server\<close>.
  \<^item> \<open>Saves\<close>: requests that save at the same time, with the steps of \<open>savePersist\<close> interleaved; \<open>Fanout\<close>:
    publications and clients of the hub at the same time, with writes that block; \<open>Feed\<close>: a client that
    connects while flows are recorded and published, up to the list that the page (ui/index.html) shows;
    \<open>Lookups\<close>: \<open>OnRequest\<close> while the rules change.
  \<^item> \<open>Client_Kit\<close>: sslkit/skytap_ssl_policy.c, the C code in the patched libraries that reads the file which sslkit.go
    exports, with the sizes of its buffers and the age of its settings.

  \<^bold>\<open>State and effects.\<close> Each part of the state is a record; an operation takes it and returns it changed. Every
  method of the registry, the rule engine, the hub and the kit holds its mutex throughout, so it is one step.
  \<open>Server\<close> takes a whole request, and \<open>Hub\<close> a whole publication, as one step, and interleaves these in any
  order. \<open>Saves\<close>, \<open>Fanout\<close>, \<open>Feed\<close> and \<open>Lookups\<close> take them apart: they show that the coarse steps are what the
  fine ones do when a request or a WebSocket handler runs alone (\<open>requests_refine_steps\<close>,
  \<open>alone_is_ws_snapshot\<close>) and for publications in general (\<open>publications_are_serial\<close>), and what can go wrong
  otherwise. Files are in \<open>os\<close>, whose accesses may fail in ways that the record fixes.
  Errors are values, a panic is an outcome of its own. Hit counters and lengths that can wrap are 64-bit
  words.

  \<^bold>\<open>What is shown\<close>, with the names of the properties:
  \<^item> Composition: only the holder of the token changes what is decrypted or the rules
    (\<open>decryption_needs_token\<close>), the invariants hold in every state reachable from a start
    (\<open>program_invariant\<close>), a mock installed over the API answers requests (\<open>mocked_end_to_end\<close>), accepted
    changes survive a restart (\<open>accepted_changes_survive\<close>). Admin: \<open>admin_needs_token\<close>,
    \<open>exposed_admin_is_guarded\<close>, \<open>refused_admin_serves_nobody\<close>, \<open>pin_bypass_needs_no_token\<close>.
  \<^item> Concurrency: requests are all answered (\<open>requests_are_answered\<close>), a lone save repairs the files
    (\<open>lone_request_repairs\<close>), overlapping ones may destroy them (\<open>overlapping_saves_lose_states\<close>); publications
    end when clients read (\<open>publications_come_to_an_end\<close>) and are blocked by one that does not
    (\<open>stalled_client_blocks_everyone\<close>); the relay ends when neither peer stops reading
    (\<open>relay_comes_to_an_end\<close>), delivers (\<open>relay_delivers\<close>), is kept open by a client that stops reading
    (\<open>stalled_client_keeps_relay_open\<close>), and loses the answer of one that half-closes
    (\<open>half_close_loses_the_answer\<close>).
  \<^item> Process: connections are handed over once (\<open>accepted_connections_are_handed_over\<close>), only the signal removes
    the redirection (\<open>failures_keep_the_redirect\<close>); first start: \<open>first_start_answers_check\<close>,
    \<open>states_after_start\<close>.
  \<^item> Registry: refinement of an abstract registry with unbounded history (\<open>registry_refines_history\<close>),
    invariant and bounds (\<open>registry_invariant\<close>), listing (\<open>Domains_exact\<close>). Rules: \<open>matchRule_first_match\<close>,
    \<open>Delete_in_place_is_filter\<close>, \<open>rule_roundtrip\<close>.
  \<^item> Decisions on requests: \<open>OnRequest_decision\<close>, \<open>passthrough_never_touched\<close>, and when rules
    change in between \<open>look_ups_serialise\<close>. Bodies: \<open>evalBody_documented\<close>,
    \<open>failed_script_leaves_rewritten_text\<close>. Rewriting: \<open>rewrite_json_merges\<close>, \<open>rewritten_request_consistent\<close>.
  \<^item> Flows on their way to the operator: \<open>published_flow_arrives\<close>, \<open>flow_bodies_survive\<close>; a new client is
    sent every flow of the listed hosts and every new one (\<open>new_client_misses_nothing\<close>), but the page may drop
    one (\<open>page_loses_a_flow\<close>) or all (\<open>empty_snapshot_deafens_page\<close>); WebSocket frames:
    \<open>sent_frames_are_read\<close>, \<open>client_frames_are_unmasked\<close>, \<open>hostile_length_panics\<close>.
  \<^item> Proxies: \<open>socks_accepts_exactly\<close>, \<open>socks_answers\<close>, \<open>connect_hands_over\<close>; \<open>isLoopback_addresses\<close>. MCP:
    \<open>rpc_always_answers\<close>, \<open>rpc_effects\<close>, \<open>mcp_set_state\<close>. TLS kit: \<open>kit_restart\<close>, \<open>put_policy_effect\<close>,
    \<open>client_conf_lists_hosts\<close>; trust store: \<open>install_is_reported\<close>, \<open>trust_is_restored\<close>.
  \<^item> The kit and its clients: a policy reaches them after two seconds (\<open>put_reaches_clients\<close>), their answer is the
    store's (\<open>client_follows_store\<close>), both for ASCII hosts and lists of at most 738 bytes, as longer ones are cut
    (\<open>long_host_list_is_cut\<close>); the modes of pinning and verification that the page offers are lost
    (\<open>policy_modes_are_ignored\<close>).
  \<^item> Lemmas that show where the code departs from its documentation or its intention:
    \<open>mcp_add_rule\<close>, \<open>rewrite_json_drops_other_bodies\<close>, \<open>policy_can_inject_config\<close>,
    \<open>debian_derivative_taken_for_rhel\<close>, \<open>failed_dial_answer_is_not_http\<close>,
    \<open>no_kit_hosts_means_every_host\<close>, \<open>chains_are_looked_for_in_the_default\<close>.

  \<^bold>\<open>Bounds and fuel.\<close> The JSON parser of \<open>Go_Json\<close> recurses on fuel, \<open>fuel_of\<close> of the text, twice its length
  and two; \<open>decode_first_any_fuel\<close> shows that more fuel changes no result. All other recursions are structural or
  proved to end by a measure; the step relations of \<open>Relay\<close> and \<open>Fanout\<close> are instances of \<open>terminating\<close>. In
  both a write may block: \<open>Relay\<close> fixes for each peer how many of the bytes written to it it takes before it stops
  reading or breaks the connection (\<open>reader\<close>), and the streams that the peers send are finite; \<open>Fanout\<close> counts
  the room of a connection in messages, not in bytes. The writes by which a handler of \<open>Proxy\<close> answers or
  forwards a request before its relay starts succeed or fail.
  Nesting deeper than 10000 is refused, as in Go; a WebSocket payload is limited by what can be allocated
  (\<open>ws_max_alloc\<close>).

  \<^bold>\<open>Arguments of the model\<close>, for code outside \<open>src/\<close>: \<open>json_lib\<close> (the printing of floating-point numbers and
  the texts of decoding errors), \<open>unicode\<close> (case mapping beyond ASCII), \<open>script_host\<close> (the Starlark
  interpreter, templates outside the documented forms, the clock), \<open>tls_lib\<close> (certificates and the engine's
  dump of them), \<open>http_lib\<close> (parsing and writing HTTP requests, dialling), \<open>launch_lib\<close> (the engine's CA,
  redirect rules, the key log), random bytes, map iteration orders, and in \<open>admin_env\<close> the file server and the
  redirections of net/http.

  \<^bold>\<open>Not modelled.\<close> Logging; timeouts; the methods of \<open>bufioConn\<close> that forward the end, the addresses and the
  deadlines of the connection; embed.go, which is data; \<open>ui/\<close>, except for what the page does with the messages of its WebSocket (\<open>onmessage\<close> in \<open>Feed\<close>);
  of \<open>sslkit/\<close> the Python scripts and the C code that works on OpenSSL's own structures; the third-party modules.
\<close>

end
